(* ===== verification/Prelude.thy ===== *)
theory Prelude
  imports Main "HOL-Library.Word" "HOL-Library.AList" "HOL-Library.Multiset"
begin

text \<open>
  Shared vocabulary of the development.

  \<^item> \<open>u32\<close>, \<open>u64\<close>: the C++ types \<open>unsigned int\<close> and \<open>unsigned long\<close>/\<open>usize_t\<close> of the
    64-bit Linux targets, with wrap-around arithmetic.
  \<^item> \<open>outcome\<close>: what running a C++ function can do: return a value, stop in a failed
    \<open>assert\<close> (the program is built without \<open>NDEBUG\<close>), or run into undefined behaviour
    (a null pointer or an end iterator that is dereferenced).
  \<^item> C and C++ string primitives the source uses: \<open>string::find\<close> at position 0, \<open>atoi\<close>,
    decimal output of an unsigned number, and \<open>boost::tokenizer\<close> over a
    \<open>boost::char_separator\<close> with dropped delimiters.
  \<^item> \<open>std::sort\<close> with a comparator: the locale \<open>weak_order\<close> states what the comparator must
    satisfy, and an insertion sort shows that the contract of \<open>std::sort\<close> can be met.
  \<^item> \<open>boost::unordered_map\<close> and \<open>std::map\<close> as association lists with distinct keys.
\<close>

named_theorems ssp_simps "unfolding rules of the operations of the model"

section \<open>Machine integers and outcomes\<close>

type_synonym u32 = "32 word"
type_synonym u64 = "64 word"
type_synonym time_t = int

datatype 'a outcome = Ret 'a | Aborted | Undefined

fun obind :: "'a outcome \<Rightarrow> ('a \<Rightarrow> 'b outcome) \<Rightarrow> 'b outcome" where
  "obind (Ret x) f = f x"
| "obind Aborted f = Aborted"
| "obind Undefined f = Undefined"

lemma unat_pos: "0 < (w :: 'a::len word) \<Longrightarrow> 0 < unat w"
  by (simp add: unat_gt_0 word_greater_zero_iff)

lemma unat_Suc_less: "(a :: 'a::len word) < b \<Longrightarrow> unat (a + 1) = Suc (unat a)"
proof -
  assume "a < b"
  then have "unat a < unat b" by (simp add: word_less_nat_alt)
  moreover have "unat b < 2 ^ LENGTH('a)" by simp
  ultimately have "unat a + 1 < 2 ^ LENGTH('a)" by linarith
  then show ?thesis by (simp add: unat_word_ariths)
qed

definition returns :: "'a outcome \<Rightarrow> bool" where
  "returns r \<longleftrightarrow> (case r of Ret _ \<Rightarrow> True | _ \<Rightarrow> False)"

definition oassert :: "bool \<Rightarrow> 'a outcome \<Rightarrow> 'a outcome" where
  "oassert b r = (if b then r else Aborted)"

definition deref :: "'a option \<Rightarrow> ('a \<Rightarrow> 'b outcome) \<Rightarrow> 'b outcome" where
  "deref p f = (case p of None \<Rightarrow> Undefined | Some x \<Rightarrow> f x)"

lemma returns_simps [simp]:
  "returns (Ret x)" "\<not> returns Aborted" "\<not> returns Undefined"
  by (simp_all add: returns_def)

lemma returns_iff: "returns r \<longleftrightarrow> (\<exists>x. r = Ret x)"
  by (cases r) simp_all

lemma obind_Ret_iff: "obind r f = Ret y \<longleftrightarrow> (\<exists>x. r = Ret x \<and> f x = Ret y)"
  by (cases r) simp_all

lemma returns_obind: "returns (obind r f) \<longleftrightarrow> (\<exists>x. r = Ret x \<and> returns (f x))"
  by (cases r) simp_all

lemma obind_assoc: "obind (obind r f) g = obind r (\<lambda>x. obind (f x) g)"
  by (cases r) simp_all

lemma oassert_simps [simp]: "oassert True r = r" "oassert False r = Aborted"
  by (simp_all add: oassert_def)

lemma oassert_Ret_iff: "oassert b r = Ret y \<longleftrightarrow> b \<and> r = Ret y"
  by (simp add: oassert_def)

lemma deref_simps [simp]: "deref None f = Undefined" "deref (Some x) f = f x"
  by (simp_all add: deref_def)

lemma deref_Ret_iff: "deref p f = Ret y \<longleftrightarrow> (\<exists>x. p = Some x \<and> f x = Ret y)"
  by (cases p) simp_all

text \<open>
  The handlers copy an address with \<open>strncpy\<close> to a buffer of \<open>URL_MAXLEN\<close> bytes, with the length of the
  address as the limit: a longer one is written past the buffer, and one of exactly that length has
  no terminator.
\<close>

abbreviation URL_MAXLEN :: nat where
  "URL_MAXLEN \<equiv> 65536"

definition url_buffer :: "string \<Rightarrow> string outcome" where
  "url_buffer url = (if length url < URL_MAXLEN then Ret url else Undefined)"

lemma url_buffer_Ret: "url_buffer url = Ret str \<longleftrightarrow> str = url \<and> length url < URL_MAXLEN"
  by (auto simp: url_buffer_def)

lemmas outcome_iffs = obind_Ret_iff oassert_Ret_iff deref_Ret_iff url_buffer_Ret

section \<open>Strings\<close>

text \<open>\<open>0 == s.find(p)\<close>: \<open>p\<close> occurs at the start of \<open>s\<close>.\<close>

definition starts_with :: "string \<Rightarrow> string \<Rightarrow> bool" where
  "starts_with p s \<longleftrightarrow> take (length p) s = p"

lemma starts_with_append [simp]: "starts_with p (p @ s)"
  by (simp add: starts_with_def)

lemma starts_with_iff: "starts_with p s \<longleftrightarrow> (\<exists>t. s = p @ t)"
  by (metis append_eq_conv_conj starts_with_def append_take_drop_id)

definition digit_char :: "nat \<Rightarrow> char" where
  "digit_char n = ''0123456789'' ! n"

definition is_digit :: "char \<Rightarrow> bool" where
  "is_digit c \<longleftrightarrow> 48 \<le> (of_char c :: nat) \<and> (of_char c :: nat) \<le> 57"

definition digit_val :: "char \<Rightarrow> nat" where
  "digit_val c = of_char c - 48"

text \<open>The characters for which \<open>isspace\<close> holds in the C locale.\<close>

definition is_space :: "char \<Rightarrow> bool" where
  "is_space c \<longleftrightarrow> c = CHR '' '' \<or> (9 \<le> (of_char c :: nat) \<and> (of_char c :: nat) \<le> 13)"

text \<open>Decimal output of an unsigned number, as \<open>ostream <<\<close> prints it.\<close>

fun show_nat :: "nat \<Rightarrow> string" where
  "show_nat n = (if n < 10 then [digit_char n] else show_nat (n div 10) @ [digit_char (n mod 10)])"

declare show_nat.simps [simp del]

definition show_u32 :: "u32 \<Rightarrow> string" where
  "show_u32 w = show_nat (unat w)"

definition show_u64 :: "u64 \<Rightarrow> string" where
  "show_u64 w = show_nat (unat w)"

text \<open>
  \<open>atoi\<close> as glibc defines it, \<open>(int) strtol (s, NULL, 10)\<close>: leading white space and one sign are
  read, then the longest run of digits; \<open>strtol\<close> saturates at the 64-bit range and the
  conversion to \<open>int\<close> keeps the low 32 bits. The source stores every result in an
  \<open>unsigned int\<close>, so the 32-bit pattern is the result here.
\<close>

fun digits_val :: "nat \<Rightarrow> string \<Rightarrow> nat" where
  "digits_val acc [] = acc"
| "digits_val acc (c # cs) = (if is_digit c then digits_val (10 * acc + digit_val c) cs else acc)"

definition strtol :: "string \<Rightarrow> int" where
  "strtol s =
     (case dropWhile is_space s of
        [] \<Rightarrow> 0
      | c # cs \<Rightarrow>
          if c = CHR ''-'' then max (- (2 ^ 63)) (- int (digits_val 0 cs))
          else if c = CHR ''+'' then min (2 ^ 63 - 1) (int (digits_val 0 cs))
          else min (2 ^ 63 - 1) (int (digits_val 0 (c # cs))))"

definition atoi :: "string \<Rightarrow> u32" where
  "atoi s = word_of_int (strtol s)"

text \<open>
  \<open>boost::tokenizer< boost::char_separator<char> >\<close> with dropped delimiters, no kept ones and
  empty tokens dropped: the maximal runs of characters that are no delimiter.
\<close>

fun tokens_from :: "string \<Rightarrow> string \<Rightarrow> string \<Rightarrow> string list" where
  "tokens_from d cur [] = (if cur = [] then [] else [cur])"
| "tokens_from d cur (c # cs) =
     (if c \<in> set d
      then (if cur = [] then tokens_from d [] cs else cur # tokens_from d [] cs)
      else tokens_from d (cur @ [c]) cs)"

definition tokenize :: "string \<Rightarrow> string \<Rightarrow> string list" where
  "tokenize d s = tokens_from d [] s"

lemma tokens_from_nonempty: "[] \<notin> set (tokens_from d cur s)"
  by (induction d cur s rule: tokens_from.induct) auto

lemma tokens_from_no_delim:
  "set cur \<inter> set d = {} \<Longrightarrow> t \<in> set (tokens_from d cur s) \<Longrightarrow> set t \<inter> set d = {}"
  by (induction d cur s rule: tokens_from.induct) (auto split: if_splits)

lemma tokens_from_concat: "concat (tokens_from d cur s) = cur @ filter (\<lambda>c. c \<notin> set d) s"
  by (induction d cur s rule: tokens_from.induct) auto

lemma tokens_from_run: "set t \<inter> set d = {} \<Longrightarrow> tokens_from d cur (t @ s) = tokens_from d (cur @ t) s"
  by (induction t arbitrary: cur) auto

lemma tokenize_nonempty: "t \<in> set (tokenize d s) \<Longrightarrow> t \<noteq> []"
  using tokens_from_nonempty by (auto simp: tokenize_def)

lemma tokenize_no_delim: "t \<in> set (tokenize d s) \<Longrightarrow> set t \<inter> set d = {}"
  by (rule tokens_from_no_delim [where cur = "[]"]) (simp_all add: tokenize_def)

lemma tokenize_concat: "concat (tokenize d s) = filter (\<lambda>c. c \<notin> set d) s"
  by (simp add: tokenize_def tokens_from_concat)

lemma tokenize_Nil [simp]: "tokenize d [] = []"
  by (simp add: tokenize_def)

lemma tokenize_delim [simp]: "c \<in> set d \<Longrightarrow> tokenize d (c # s) = tokenize d s"
  by (simp add: tokenize_def)

lemma tokenize_token:
  "t \<noteq> [] \<Longrightarrow> set t \<inter> set d = {} \<Longrightarrow> c \<in> set d \<Longrightarrow>
   tokenize d (t @ c # s) = t # tokenize d s"
  by (simp add: tokenize_def tokens_from_run)

lemma tokenize_single: "t \<noteq> [] \<Longrightarrow> set t \<inter> set d = {} \<Longrightarrow> tokenize d t = [t]"
  using tokens_from_run [of t d "[]" "[]"] by (simp add: tokenize_def)

lemma tokenize_terminated:
  "\<lbrakk>c \<in> set d; \<forall>t \<in> set ts. t \<noteq> [] \<and> set t \<inter> set d = {}\<rbrakk> \<Longrightarrow>
   tokenize d (concat (map (\<lambda>t. t @ [c]) ts) @ s) = ts @ tokenize d s"
  by (induction ts) (auto simp: tokenize_token)

subsection \<open>Printing and reading decimal numbers\<close>

lemma of_char_digit_char: "n < 10 \<Longrightarrow> (of_char (digit_char n) :: nat) = 48 + n"
  by (auto simp: digit_char_def less_Suc_eq eval_nat_numeral)

lemma is_digit_digit_char [simp]: "n < 10 \<Longrightarrow> is_digit (digit_char n)"
  by (simp add: is_digit_def of_char_digit_char)

lemma digit_val_digit_char [simp]: "n < 10 \<Longrightarrow> digit_val (digit_char n) = n"
  by (simp add: digit_val_def of_char_digit_char)

lemma show_nat_nonempty [simp]: "show_nat n \<noteq> []"
  by (subst show_nat.simps) simp

lemma show_nat_digits: "c \<in> set (show_nat n) \<Longrightarrow> is_digit c"
proof (induction n rule: show_nat.induct)
  case (1 n)
  then show ?case
    by (cases "n < 10") (auto simp: show_nat.simps [of n])
qed

lemma digits_val_append:
  "\<forall>c \<in> set s. is_digit c \<Longrightarrow> digits_val acc (s @ t) = digits_val (digits_val acc s) t"
  by (induction s arbitrary: acc) auto

lemma digits_val_show_nat: "digits_val 0 (show_nat n) = n"
proof (induction n rule: show_nat.induct)
  case (1 n)
  show ?case
  proof (cases "n < 10")
    case True
    then show ?thesis by (subst show_nat.simps) simp
  next
    case False
    then have "digits_val 0 (show_nat n) = 10 * digits_val 0 (show_nat (n div 10)) + n mod 10"
      by (subst show_nat.simps) (simp add: digits_val_append show_nat_digits)
    with "1.IH" False show ?thesis by simp
  qed
qed

lemma is_digit_not_space: "is_digit c \<Longrightarrow> \<not> is_space c \<and> c \<noteq> CHR ''-'' \<and> c \<noteq> CHR ''+''"
  by (auto simp: is_digit_def is_space_def)

lemma digits_val_stop:
  "\<forall>c \<in> set s. is_digit c \<Longrightarrow> t = [] \<or> \<not> is_digit (hd t) \<Longrightarrow>
   digits_val acc (s @ t) = digits_val acc s"
  by (cases t) (auto simp: digits_val_append)

lemma strtol_show_nat:
  assumes "n < 2 ^ 63" and "t = [] \<or> \<not> is_digit (hd t)"
  shows "strtol (show_nat n @ t) = int n"
proof -
  obtain c cs where s: "show_nat n = c # cs"
    using show_nat_nonempty [of n] by (cases "show_nat n") auto
  then have "is_digit c" using show_nat_digits [of c n] by simp
  then have "\<not> is_space c" "c \<noteq> CHR ''-''" "c \<noteq> CHR ''+''"
    using is_digit_not_space by blast+
  then have "strtol (show_nat n @ t) = min (2 ^ 63 - 1) (int (digits_val 0 (show_nat n @ t)))"
    by (simp add: strtol_def s)
  also have "digits_val 0 (show_nat n @ t) = n"
    using assms(2) show_nat_digits by (simp add: digits_val_stop digits_val_show_nat)
  finally show ?thesis using assms(1) by simp
qed

lemma atoi_show_u32_append:
  assumes "t = [] \<or> \<not> is_digit (hd t)"
  shows "atoi (show_u32 w @ t) = w"
proof -
  have "unat w < 2 ^ 32"
    using unsigned_less [of w, where 'a = nat] by simp
  then have "unat w < 2 ^ 63" by simp
  then show ?thesis
    using assms by (simp add: atoi_def show_u32_def strtol_show_nat)
qed

lemma atoi_show_u32 [simp]: "atoi (show_u32 w) = w"
  using atoi_show_u32_append [of "[]" w] by simp

text \<open>Evaluation of the string primitives on literals by the simplifier.\<close>

lemmas string_eval = show_nat.simps digit_char_def show_u32_def atoi_def strtol_def is_digit_def
  digit_val_def is_space_def tokenize_def starts_with_def

section \<open>Sorting with a comparator\<close>

text \<open>
  \<open>std::sort\<close> requires a strict weak ordering and then rearranges the range so that no
  element is ordered before an earlier one. Which of several equivalent elements comes first
  is not specified, so the client lemmas are about every result the contract allows.
\<close>

locale weak_order =
  fixes before :: "'a \<Rightarrow> 'a \<Rightarrow> bool"
  assumes irrefl: "\<not> before a a"
    and trans: "before a b \<Longrightarrow> before b c \<Longrightarrow> before a c"
    and incomp_trans: "\<not> before a b \<Longrightarrow> \<not> before b a \<Longrightarrow> \<not> before b c \<Longrightarrow> \<not> before c b \<Longrightarrow>
      \<not> before a c \<and> \<not> before c a"
begin

lemma asym: "before a b \<Longrightarrow> \<not> before b a"
  using irrefl trans by blast

lemma not_before_trans: "\<not> before b a \<Longrightarrow> \<not> before c b \<Longrightarrow> \<not> before c a"
  using trans incomp_trans asym by blast

end

definition sort_result :: "('a \<Rightarrow> 'a \<Rightarrow> bool) \<Rightarrow> 'a list \<Rightarrow> 'a list \<Rightarrow> bool" where
  "sort_result before xs ys \<longleftrightarrow> mset ys = mset xs \<and> sorted_wrt (\<lambda>a b. \<not> before b a) ys"

fun insert_by :: "('a \<Rightarrow> 'a \<Rightarrow> bool) \<Rightarrow> 'a \<Rightarrow> 'a list \<Rightarrow> 'a list" where
  "insert_by before x [] = [x]"
| "insert_by before x (y # ys) =
     (if before y x then y # insert_by before x ys else x # y # ys)"

fun sort_by :: "('a \<Rightarrow> 'a \<Rightarrow> bool) \<Rightarrow> 'a list \<Rightarrow> 'a list" where
  "sort_by before [] = []"
| "sort_by before (x # xs) = insert_by before x (sort_by before xs)"

lemma mset_insert_by [simp]: "mset (insert_by before x ys) = add_mset x (mset ys)"
  by (induction ys) auto

lemma mset_sort_by [simp]: "mset (sort_by before xs) = mset xs"
  by (induction xs) auto

lemma set_insert_by [simp]: "set (insert_by before x ys) = insert x (set ys)"
  by (induction ys) auto

context weak_order
begin

lemma sorted_insert_by:
  "sorted_wrt (\<lambda>a b. \<not> before b a) ys \<Longrightarrow> sorted_wrt (\<lambda>a b. \<not> before b a) (insert_by before x ys)"
  by (induction ys) (auto dest: asym not_before_trans)

lemma sort_by_result: "sort_result before xs (sort_by before xs)"
  by (induction xs) (auto simp: sort_result_def intro: sorted_insert_by)

lemma sort_result_head:
  assumes "sort_result before xs (y # ys)" and "x \<in> set xs"
  shows "\<not> before x y"
proof -
  have "set xs = set (y # ys)"
    using assms(1) by (metis mset_eq_setD sort_result_def)
  with assms show ?thesis by (auto simp: sort_result_def irrefl)
qed

end

section \<open>Associative containers\<close>

text \<open>
  \<open>boost::unordered_map\<close>, \<open>boost::unordered_set\<close> and \<open>std::map\<close> are association lists; the
  order of an unordered container is the order of the list, about which no lemma says
  anything. \<open>insert\<close> keeps an element that is already there and reports whether it inserted.
\<close>

type_synonym ('k, 'v) assoc = "('k \<times> 'v) list"

definition assoc_insert :: "'k \<Rightarrow> 'v \<Rightarrow> ('k, 'v) assoc \<Rightarrow> ('k, 'v) assoc" where
  "assoc_insert k v m = (case map_of m k of None \<Rightarrow> m @ [(k, v)] | Some _ \<Rightarrow> m)"

definition assoc_wf :: "('k, 'v) assoc \<Rightarrow> bool" where
  "assoc_wf m \<longleftrightarrow> distinct (map fst m)"

lemma map_of_assoc_insert [simp]:
  "map_of (assoc_insert k v m) =
     (if map_of m k = None then (map_of m)(k \<mapsto> v) else map_of m)"
  by (auto simp: assoc_insert_def fun_eq_iff map_add_def split: option.splits)

lemma assoc_wf_insert [simp]: "assoc_wf m \<Longrightarrow> assoc_wf (assoc_insert k v m)"
  by (auto simp: assoc_insert_def assoc_wf_def map_of_eq_None_iff split: option.splits)

lemma assoc_wf_delete [simp]: "assoc_wf m \<Longrightarrow> assoc_wf (AList.delete k m)"
  by (simp add: assoc_wf_def distinct_delete)

lemma assoc_wf_update [simp]: "assoc_wf m \<Longrightarrow> assoc_wf (AList.update k v m)"
  by (simp add: assoc_wf_def distinct_update)

lemma assoc_wf_Nil [simp]: "assoc_wf []"
  by (simp add: assoc_wf_def)

lemmas assoc_simps [simp] = AList.update_conv' AList.delete_conv'

lemma assoc_empty_iff: "m = [] \<longleftrightarrow> map_of m = Map.empty"
  by (cases m) auto

lemma mset_rotate [simp]: "mset (rotate n xs) = mset xs"
proof -
  have "mset (rotate n xs) = mset (take (n mod length xs) xs @ drop (n mod length xs) xs)"
    by (simp add: rotate_drop_take del: append_take_drop_id)
  then show ?thesis by simp
qed

section \<open>Weighted sequences\<close>

text \<open>Each element \<open>x\<close> of a list repeated \<open>q x\<close> times, in the order of the list.\<close>

definition expand :: "('a \<Rightarrow> nat) \<Rightarrow> 'a list \<Rightarrow> 'a list" where
  "expand q xs = concat (map (\<lambda>x. replicate (q x) x) xs)"

definition offset :: "('a \<Rightarrow> nat) \<Rightarrow> 'a list \<Rightarrow> nat \<Rightarrow> nat" where
  "offset q xs i = sum_list (map q (take i xs))"

lemma length_expand: "length (expand q xs) = sum_list (map q xs)"
  by (induction xs) (simp_all add: expand_def)

lemma offset_0 [simp]: "offset q xs 0 = 0"
  by (simp add: offset_def)

lemma offset_all [simp]: "length xs \<le> i \<Longrightarrow> offset q xs i = length (expand q xs)"
  by (simp add: offset_def length_expand)

lemma offset_Suc: "i < length xs \<Longrightarrow> offset q xs (Suc i) = offset q xs i + q (xs ! i)"
  by (simp add: offset_def take_Suc_conv_app_nth)

lemma nth_expand:
  "i < length xs \<Longrightarrow> k < q (xs ! i) \<Longrightarrow> expand q xs ! (offset q xs i + k) = xs ! i"
proof (induction xs arbitrary: i)
  case Nil
  then show ?case by simp
next
  case (Cons x xs)
  show ?case
  proof (cases i)
    case 0
    with Cons.prems show ?thesis by (simp add: expand_def nth_append offset_def)
  next
    case (Suc j)
    with Cons have "expand q xs ! (offset q xs j + k) = xs ! j" by simp
    with Suc show ?thesis by (simp add: expand_def nth_append offset_def)
  qed
qed

lemma offset_le: "offset q xs i \<le> length (expand q xs)"
proof -
  have "length (expand q xs) = sum_list (map q (take i xs @ drop i xs))"
    by (simp add: length_expand)
  also have "\<dots> = offset q xs i + sum_list (map q (drop i xs))"
    by (simp add: offset_def del: append_take_drop_id)
  finally show ?thesis by simp
qed

lemma offset_less:
  assumes "i < length xs" and "\<forall>x \<in> set xs. 0 < q x"
  shows "offset q xs i < length (expand q xs)"
proof -
  have "length (expand q xs) = sum_list (map q (take i xs @ drop i xs))"
    by (simp add: length_expand)
  also have "\<dots> = offset q xs i + sum_list (map q (drop i xs))"
    by (simp add: offset_def del: append_take_drop_id)
  moreover have "0 < sum_list (map q (drop i xs))"
    using assms by (simp add: Cons_nth_drop_Suc [symmetric])
  ultimately show ?thesis by simp
qed

lemma count_expand: "count (mset (expand q xs)) x = count (mset xs) x * q x"
  by (induction xs) (auto simp: expand_def algebra_simps)

lemma map_list_update_same: "f x = f (xs ! i) \<Longrightarrow> map f (xs[i := x]) = map f xs"
  by (metis list_update_id map_update)

end
