(* ===== verification/Scheduler.thy ===== *)
theory Scheduler
  imports Prelude
begin

text \<open>
  The contract that every round-robin selector of the program promises its client: a call
  returns the entry of a fixed schedule at the current position and moves the position on by
  one, cyclically. The lemmas about any number of successive calls are proved here once; the
  theories of the selectors discharge the laws for the code's own operations.
\<close>

fun iterate_step :: "('s \<Rightarrow> 'r \<times> 's) \<Rightarrow> nat \<Rightarrow> 's \<Rightarrow> 'r list \<times> 's" where
  "iterate_step f 0 s = ([], s)"
| "iterate_step f (Suc n) s =
     (let (r, s1) = f s; (rs, s2) = iterate_step f n s1 in (r # rs, s2))"

locale cyclic_scheduler =
  fixes select :: "'s \<Rightarrow> 'r \<times> 's"
    and inv :: "'s \<Rightarrow> bool"
    and schedule :: "'s \<Rightarrow> 'r list"
    and pos :: "'s \<Rightarrow> nat"
  assumes schedule_nonempty: "inv s \<Longrightarrow> schedule s \<noteq> []"
    and select_inv: "inv s \<Longrightarrow> inv (snd (select s))"
    and select_schedule: "inv s \<Longrightarrow> schedule (snd (select s)) = schedule s"
    and select_result: "inv s \<Longrightarrow> fst (select s) = schedule s ! (pos s mod length (schedule s))"
    and select_pos: "inv s \<Longrightarrow>
      pos (snd (select s)) mod length (schedule s) = Suc (pos s) mod length (schedule s)"
begin

lemma iterate_inv: "inv s \<Longrightarrow> inv (snd (iterate_step select n s))"
  by (induction n arbitrary: s) (auto simp: split_beta Let_def select_inv)

lemma iterate_schedule: "inv s \<Longrightarrow> schedule (snd (iterate_step select n s)) = schedule s"
  by (induction n arbitrary: s) (auto simp: split_beta Let_def select_inv select_schedule)

lemma iterate_results:
  assumes "inv s"
  shows "fst (iterate_step select n s) =
    map (\<lambda>i. schedule s ! ((pos s + i) mod length (schedule s))) [0..<n]"
  using assms
proof (induction n arbitrary: s)
  case 0
  then show ?case by simp
next
  case (Suc n)
  let ?s1 = "snd (select s)" and ?L = "length (schedule s)"
  have "(pos ?s1 + i) mod ?L = (pos s + Suc i) mod ?L" for i
  proof -
    have "(pos ?s1 + i) mod ?L = (pos ?s1 mod ?L + i) mod ?L" by (simp add: mod_add_left_eq)
    also have "\<dots> = (Suc (pos s) mod ?L + i) mod ?L" using select_pos [OF Suc.prems] by simp
    also have "\<dots> = (pos s + Suc i) mod ?L" by (simp add: mod_add_left_eq)
    finally show ?thesis .
  qed
  then have "fst (iterate_step select n ?s1) =
      map (\<lambda>i. schedule s ! ((pos s + Suc i) mod ?L)) [0..<n]"
    using Suc.IH [OF select_inv [OF Suc.prems]] select_schedule [OF Suc.prems] by simp
  then show ?case
    by (simp add: split_beta Let_def select_result [OF Suc.prems] upt_conv_Cons
        map_Suc_upt [symmetric] del: upt_Suc)
qed

lemma iterate_pos:
  assumes "inv s"
  shows "pos (snd (iterate_step select n s)) mod length (schedule s) = (pos s + n) mod length (schedule s)"
  using assms
proof (induction n arbitrary: s)
  case 0
  then show ?case by simp
next
  case (Suc n)
  let ?s1 = "snd (select s)" and ?L = "length (schedule s)"
  have "pos (snd (iterate_step select n ?s1)) mod ?L = (pos ?s1 + n) mod ?L"
    using Suc.IH [OF select_inv [OF Suc.prems]] select_schedule [OF Suc.prems] by simp
  also have "\<dots> = (pos ?s1 mod ?L + n) mod ?L" by (simp add: mod_add_left_eq)
  also have "\<dots> = (pos s + Suc n) mod ?L"
    using select_pos [OF Suc.prems] by (simp add: mod_add_left_eq)
  finally show ?case by (simp add: split_beta Let_def)
qed

text \<open>One full turn returns the schedule itself, rotated to the starting position.\<close>

lemma iterate_turn:
  assumes "inv s"
  shows "fst (iterate_step select (length (schedule s)) s) = rotate (pos s) (schedule s)"
  by (rule nth_equalityI)
    (simp_all add: iterate_results [OF assms] nth_rotate add.commute)

lemma turn_is_fair:
  assumes "inv s"
  shows "mset (fst (iterate_step select (length (schedule s)) s)) = mset (schedule s)"
  by (simp add: iterate_turn [OF assms])

end

end
