(* ===== verification/Ssp_Config.thy ===== *)
theory Ssp_Config
  imports Scheduler "HOL-Library.List_Lexorder" "HOL-Library.Char_ord"
begin

text \<open>
  The configuration object, \<open>ssp-config.cpp\<close>: number ranges (\<open>Dnis_t\<close>), carrier addresses and
  trunks (\<open>CarrierAddressSpace_t\<close>), the trunk rotation of one carrier (\<open>TerminationRoute_t\<close>),
  application servers, and the queries and routing operations of \<open>SspConfig::Impl\<close>. How the
  object is built from the configuration file is in theory \<open>Config_Load\<close>.

  An exception that leaves a routing operation (\<open>vector::at\<close> out of range) ends the program,
  as a failed assertion does: both are \<open>Aborted\<close>.
\<close>

section \<open>Enumerations of ssp.h\<close>

datatype severity_levels = log_notice | log_error | log_warning | log_info | log_debug

datatype agent_mode = agent_mode_stateless | agent_mode_stateful

datatype call_type_t = unknown_call_type | origination_call_type | termination_call_type

datatype routing_error =
  invalid_sender | dnis_not_provisioned | no_available_server | no_routes_provisioned

datatype routing_strategy =
  unknown_routing_strategy | round_robin | least_loaded | random_strategy
  | same_in_same_out_carrier | same_in_same_out_server | selected_carrier | selected_server

datatype route_selector = unknown_route_selector | ani_selector | customer_selector

definition strategy_table :: "(string, routing_strategy) assoc" where
  "strategy_table =
     [(''round-robin'', round_robin),
      (''least-loaded'', least_loaded),
      (''random'', random_strategy),
      (''same-in-same-out-carrier'', same_in_same_out_carrier),
      (''same-in-same-out-server'', same_in_same_out_server),
      (''selected-carrier'', selected_carrier),
      (''selected-server'', selected_server)]"

definition String2RoutingStrategy :: "string \<Rightarrow> routing_strategy" where
  "String2RoutingStrategy s =
     (case map_of strategy_table s of None \<Rightarrow> unknown_routing_strategy | Some r \<Rightarrow> r)"

definition String2RouteSelector :: "string \<Rightarrow> route_selector" where
  "String2RouteSelector s =
     (case map_of [(''ani'', ani_selector), (''customer'', customer_selector)] s of
        None \<Rightarrow> unknown_route_selector | Some r \<Rightarrow> r)"

definition RoutingError2String :: "routing_error \<Rightarrow> string" where
  "RoutingError2String e =
     (case map_of [(dnis_not_provisioned, ''dnis is not provisioned''),
                   (invalid_sender, ''invalid sender''),
                   (no_available_server, ''no available server''),
                   (no_routes_provisioned, ''no routes provisioned'')] e of
        None \<Rightarrow> ''unknown error'' | Some m \<Rightarrow> m)"

section \<open>Number ranges\<close>

record Dnis_t =
  m_npa :: u32
  m_nxx :: u32
  m_xxxx :: u32
  m_count :: u32

text \<open>
  \<open>Dnis_t::init\<close>: the last four characters, the three before them and the three before those.
  \<open>substr\<close> throws when its start lies beyond the string (the \<open>size_t\<close> difference wraps), which
  ends the extraction and keeps the parts found so far; an absent part leaves 0.
\<close>

definition dnis_init :: "string \<Rightarrow> u32 \<Rightarrow> Dnis_t" where
  "dnis_init dnis cnt =
     (let len = length dnis;
          xxxx = (if 4 \<le> len then drop (len - 4) dnis else []);
          nxx = (if 7 \<le> len then take 3 (drop (len - 7) dnis) else []);
          npa = (if 10 \<le> len then take 3 (drop (len - 10) dnis) else [])
      in \<lparr>m_npa = (if 0 < length npa then atoi npa else 0),
          m_nxx = (if 0 < length nxx then atoi nxx else 0),
          m_xxxx = (if 0 < length xxxx then atoi xxxx else 0),
          m_count = cnt\<rparr>)"

definition Dnis_single :: "string \<Rightarrow> Dnis_t" where
  "Dnis_single dnis = dnis_init dnis 1"

definition Dnis_block :: "string \<Rightarrow> string \<Rightarrow> Dnis_t" where
  "Dnis_block firstDnis lastDnis =
     (let d = dnis_init firstDnis 1; l = Dnis_single lastDnis
      in if m_xxxx l > m_xxxx d then d\<lparr>m_count := m_xxxx l - m_xxxx d + 1\<rparr> else d)"

definition dnis_eq :: "Dnis_t \<Rightarrow> Dnis_t \<Rightarrow> bool" where
  "dnis_eq d e \<longleftrightarrow> m_npa d = m_npa e \<and> m_nxx d = m_nxx e \<and> m_xxxx d = m_xxxx e"

definition dnis_matchesOrContains :: "Dnis_t \<Rightarrow> Dnis_t \<Rightarrow> bool" where
  "dnis_matchesOrContains d e \<longleftrightarrow>
     m_npa d = m_npa e \<and> m_nxx d = m_nxx e \<and>
     (m_xxxx d = m_xxxx e \<or> m_xxxx d < m_xxxx e \<and> m_xxxx d + m_count d > m_xxxx e)"

section \<open>Carrier addresses and trunks\<close>

record CarrierAddressSpace_t =
  m_carrier :: string
  m_address :: string
  m_netmask :: string
  m_port :: u32
  m_qty :: u32
  m_selectCount :: u32

definition CarrierAddressSpace :: "string \<Rightarrow> string \<Rightarrow> u32 \<Rightarrow> string \<Rightarrow> u32 \<Rightarrow> CarrierAddressSpace_t" where
  "CarrierAddressSpace carrier address port netmask qty =
     \<lparr>m_carrier = carrier, m_address = address, m_netmask = netmask, m_port = port,
      m_qty = qty, m_selectCount = 0\<rparr>"

definition carrier_eq :: "CarrierAddressSpace_t \<Rightarrow> CarrierAddressSpace_t \<Rightarrow> bool" where
  "carrier_eq c d \<longleftrightarrow> m_address c = m_address d \<and> m_netmask c = m_netmask d \<and> m_port c = m_port d"

definition carrier_matchesOrContains :: "CarrierAddressSpace_t \<Rightarrow> string \<Rightarrow> u32 \<Rightarrow> bool" where
  "carrier_matchesOrContains c address port \<longleftrightarrow> m_address c = address \<and> m_port c = port"

definition haveAdvancedToEnd :: "CarrierAddressSpace_t \<Rightarrow> bool \<times> CarrierAddressSpace_t" where
  "haveAdvancedToEnd c =
     (if m_selectCount c = m_qty c then (True, c\<lparr>m_selectCount := 0\<rparr>)
      else (False, c\<lparr>m_selectCount := m_selectCount c + 1\<rparr>))"

text \<open>The text of a trunk: its address, with the port unless it is 5060.\<close>

definition trunk_text :: "CarrierAddressSpace_t \<Rightarrow> string" where
  "trunk_text c = m_address c @ (if m_port c \<noteq> 5060 then '':'' @ show_u32 (m_port c) else [])"

record TerminationRoute_t =
  m_vecTrunks :: "CarrierAddressSpace_t list"
  m_currentTrunk :: nat
  m_chargeNumber :: string

definition TerminationRoute :: "CarrierAddressSpace_t list \<Rightarrow> string \<Rightarrow> TerminationRoute_t" where
  "TerminationRoute v charge = \<lparr>m_vecTrunks = v, m_currentTrunk = 0, m_chargeNumber = charge\<rparr>"

definition advanceTrunk :: "TerminationRoute_t \<Rightarrow> TerminationRoute_t" where
  "advanceTrunk r =
     (if Suc (m_currentTrunk r) \<ge> length (m_vecTrunks r) then r\<lparr>m_currentTrunk := 0\<rparr>
      else r\<lparr>m_currentTrunk := Suc (m_currentTrunk r)\<rparr>)"

text \<open>
  \<open>getNextTrunk\<close> returns the trunk text and the charge number. \<open>vector::at\<close> throws when the
  index is out of range.
\<close>

definition getNextTrunk :: "TerminationRoute_t \<Rightarrow> ((string \<times> string) \<times> TerminationRoute_t) outcome" where
  "getNextTrunk r =
     (if m_currentTrunk r < length (m_vecTrunks r) then
        let (atEnd, c) = haveAdvancedToEnd (m_vecTrunks r ! m_currentTrunk r);
            r1 = r\<lparr>m_vecTrunks := (m_vecTrunks r)[m_currentTrunk r := c]\<rparr>
        in if atEnd then
             let r2 = advanceTrunk r1
             in if m_currentTrunk r2 < length (m_vecTrunks r2) then
                  let d = snd (haveAdvancedToEnd (m_vecTrunks r2 ! m_currentTrunk r2));
                      r3 = r2\<lparr>m_vecTrunks := (m_vecTrunks r2)[m_currentTrunk r2 := d]\<rparr>
                  in Ret ((trunk_text d, m_chargeNumber r3), r3)
                else Aborted
           else Ret ((trunk_text c, m_chargeNumber r1), r1)
      else Aborted)"

definition getCountOfTrunks :: "TerminationRoute_t \<Rightarrow> nat" where
  "getCountOfTrunks r = length (m_vecTrunks r)"

section \<open>Application servers\<close>

record Appserver_t =
  as_address :: string
  as_eventSocketPort :: u32

record AppserverGroup_t =
  asg_name :: string
  asg_setAppserver :: "Appserver_t list"

text \<open>\<open>addServer\<close> inserts into an \<open>unordered_set\<close>: an equal element is kept once.\<close>

definition addServer :: "AppserverGroup_t \<Rightarrow> Appserver_t \<Rightarrow> AppserverGroup_t" where
  "addServer g a = g\<lparr>asg_setAppserver := List.insert a (asg_setAppserver g)\<rparr>"

section \<open>The configuration object\<close>

record ssp_config =
  m_bIsValid :: bool
  m_bIsActive :: bool
  m_syslogAddress :: string
  m_sysLogPort :: u32
  m_syslogFacility :: string
  m_sipUrl :: string
  m_mapCustomerDnis :: "(string, Dnis_t list) assoc"
  m_mapInboundCarrier :: "(string, CarrierAddressSpace_t) assoc"
  m_mapTerminationCarrierByName :: "(string, TerminationRoute_t) assoc"
  m_vecTerminationCarrier :: "string list"
  m_nCurrentTerminationCarrier :: nat
  m_mapAppserver :: "(string, Appserver_t) assoc"
  m_mapAppserverGroup :: "(string, AppserverGroup_t) assoc"
  m_agent_mode :: agent_mode
  m_nSofiaLogLevel :: u32
  m_nMaxRoundRobins :: u32
  m_nMaxTerminationAttempts :: u32
  m_nOriginationSessionTimer :: u64
  m_nFSTimerMsecs :: u64
  m_loglevel :: severity_levels
  m_statsAddress :: string
  m_statsPort :: u32
  m_cdrUser :: string
  m_cdrPassword :: string
  m_cdrHost :: string
  m_cdrPort :: string
  m_cdrSchema :: string
  m_strAnonymousCallRoutingCarrier :: string

text \<open>
  The object before the file is read. The constructor initialises the validity and activity
  flags, the agent mode, the rotation index and the statistics port; a field without an
  initialiser is written before the first use of a valid object and starts as 0 here.
\<close>

definition initial_config :: ssp_config where
  "initial_config =
     \<lparr>m_bIsValid = False, m_bIsActive = True, m_syslogAddress = [], m_sysLogPort = 0,
      m_syslogFacility = [], m_sipUrl = [], m_mapCustomerDnis = [], m_mapInboundCarrier = [],
      m_mapTerminationCarrierByName = [], m_vecTerminationCarrier = [],
      m_nCurrentTerminationCarrier = 0, m_mapAppserver = [], m_mapAppserverGroup = [],
      m_agent_mode = agent_mode_stateless, m_nSofiaLogLevel = 0, m_nMaxRoundRobins = 0,
      m_nMaxTerminationAttempts = 0, m_nOriginationSessionTimer = 0, m_nFSTimerMsecs = 0,
      m_loglevel = log_info, m_statsAddress = [], m_statsPort = 0, m_cdrUser = [],
      m_cdrPassword = [], m_cdrHost = [], m_cdrPort = [], m_cdrSchema = [],
      m_strAnonymousCallRoutingCarrier = []\<rparr>"

definition getCustomer :: "ssp_config \<Rightarrow> string \<Rightarrow> string option" where
  "getCustomer c dnis =
     map_option fst
       (find (\<lambda>(customer, ds). list_ex (\<lambda>d. dnis_matchesOrContains d (Dnis_single dnis)) ds)
         (m_mapCustomerDnis c))"

definition getCarrier :: "ssp_config \<Rightarrow> string \<Rightarrow> string option" where
  "getCarrier c sourceAddress =
     (case map_of (m_mapInboundCarrier c) sourceAddress of
        None \<Rightarrow> None | Some a \<Rightarrow> Some (m_carrier a))"

text \<open>\<open>getSyslogFacility\<close>: the number of the \<open>local\<close> facility, \<open>None\<close> where it returns false.\<close>

definition getSyslogFacility :: "ssp_config \<Rightarrow> nat option" where
  "getSyslogFacility c =
     (if m_syslogFacility c = [] then None
      else if m_syslogFacility c = ''local0'' then Some 0
      else if m_syslogFacility c = ''local1'' then Some 1
      else if m_syslogFacility c = ''local2'' then Some 2
      else if m_syslogFacility c = ''local3'' then Some 3
      else if m_syslogFacility c = ''local4'' then Some 4
      else if m_syslogFacility c = ''local5'' then Some 5
      else if m_syslogFacility c = ''local6'' then Some 6
      else if m_syslogFacility c = ''local7'' then Some 7
      else None)"

definition getAppservers :: "ssp_config \<Rightarrow> string list" where
  "getAppservers c =
     map (\<lambda>(name, a). as_address a @ '':'' @ show_u32 (as_eventSocketPort a)) (m_mapAppserver c)"

definition getAppserverGroup :: "ssp_config \<Rightarrow> string \<Rightarrow> AppserverGroup_t option" where
  "getAppserverGroup c name = map_of (m_mapAppserverGroup c) name"

text \<open>
  The routing operations return \<open>(address, carrier, charge number)\<close>, or \<open>None\<close> where the code
  returns false, and the configuration with the rotation moved on.
\<close>

type_synonym route = "string \<times> string \<times> string"

definition use_route :: "ssp_config \<Rightarrow> string \<Rightarrow> (route option \<times> ssp_config) outcome option" where
  "use_route c carrier =
     (case map_of (m_mapTerminationCarrierByName c) carrier of
        None \<Rightarrow> None
      | Some r \<Rightarrow> Some (obind (getNextTrunk r) (\<lambda>((trunk, charge), r').
          Ret (Some (trunk, carrier, charge),
               c\<lparr>m_mapTerminationCarrierByName :=
                   AList.update carrier r' (m_mapTerminationCarrierByName c)\<rparr>))))"

definition getTerminationRoute :: "ssp_config \<Rightarrow> (route option \<times> ssp_config) outcome" where
  "getTerminationRoute c =
     (if m_vecTerminationCarrier c = [] then Ret (None, c)
      else if m_nCurrentTerminationCarrier c < length (m_vecTerminationCarrier c) then
        (case use_route c (m_vecTerminationCarrier c ! m_nCurrentTerminationCarrier c) of
           None \<Rightarrow> Aborted
         | Some res \<Rightarrow> obind res (\<lambda>(rt, c').
             Ret (rt, c'\<lparr>m_nCurrentTerminationCarrier :=
               (if Suc (m_nCurrentTerminationCarrier c) \<ge> length (m_vecTerminationCarrier c) then 0
                else Suc (m_nCurrentTerminationCarrier c))\<rparr>)))
      else Aborted)"

definition getTerminationRouteForAltCarrier ::
  "ssp_config \<Rightarrow> string \<Rightarrow> (route option \<times> ssp_config) outcome" where
  "getTerminationRouteForAltCarrier c failedCarrier =
     (case find (\<lambda>(carrier, r). carrier \<noteq> failedCarrier) (m_mapTerminationCarrierByName c) of
        Some (carrier, r) \<Rightarrow>
          (case use_route c carrier of None \<Rightarrow> Aborted | Some res \<Rightarrow> res)
      | None \<Rightarrow> getTerminationRoute c)"

definition getTerminationRouteForCarrier ::
  "ssp_config \<Rightarrow> string \<Rightarrow> (route option \<times> ssp_config) outcome" where
  "getTerminationRouteForCarrier c carrier =
     (case use_route c carrier of None \<Rightarrow> Ret (None, c) | Some res \<Rightarrow> res)"

definition getCountOfOutboundTrunks :: "ssp_config \<Rightarrow> u32" where
  "getCountOfOutboundTrunks c =
     of_nat (sum_list (map (\<lambda>(name, r). getCountOfTrunks r) (m_mapTerminationCarrierByName c)))"

definition getCdrConnectInfo :: "ssp_config \<Rightarrow> (string \<times> string \<times> string \<times> string) option" where
  "getCdrConnectInfo c =
     (if m_cdrHost c = [] \<or> m_cdrUser c = [] \<or> m_cdrPassword c = [] \<or> m_cdrSchema c = [] then None
      else Some (m_cdrUser c, m_cdrPassword c,
                 ''tcp://'' @ m_cdrHost c @ '':'' @ m_cdrPort c, m_cdrSchema c))"

definition getAnonymousCallRouting :: "ssp_config \<Rightarrow> string option" where
  "getAnonymousCallRouting c =
     (if m_strAnonymousCallRoutingCarrier c = [] then None
      else Some (m_strAnonymousCallRoutingCarrier c))"

section \<open>Rotation of the trunks of one carrier\<close>

text \<open>
  What the rotation keeps: the current index is in range, every trunk has a positive quantity,
  only the current trunk has been counted, and it has not been counted beyond its quantity.
\<close>

abbreviation trunk_weight :: "CarrierAddressSpace_t \<Rightarrow> nat" where
  "trunk_weight t \<equiv> unat (m_qty t)"

definition route_inv :: "TerminationRoute_t \<Rightarrow> bool" where
  "route_inv r \<longleftrightarrow>
     m_currentTrunk r < length (m_vecTrunks r) \<and>
     (\<forall>t \<in> set (m_vecTrunks r). 0 < m_qty t) \<and>
     (\<forall>i < length (m_vecTrunks r). i \<noteq> m_currentTrunk r \<longrightarrow> m_selectCount (m_vecTrunks r ! i) = 0) \<and>
     m_selectCount (m_vecTrunks r ! m_currentTrunk r) \<le> m_qty (m_vecTrunks r ! m_currentTrunk r)"

text \<open>
  The abstract rotation: the trunk texts, each repeated its quantity, and the position reached.
\<close>

definition trunk_key :: "CarrierAddressSpace_t \<Rightarrow> string \<times> nat" where
  "trunk_key t = (trunk_text t, trunk_weight t)"

definition route_schedule :: "TerminationRoute_t \<Rightarrow> string list" where
  "route_schedule r = map fst (expand snd (map trunk_key (m_vecTrunks r)))"

definition route_pos :: "TerminationRoute_t \<Rightarrow> nat" where
  "route_pos r = offset snd (map trunk_key (m_vecTrunks r)) (m_currentTrunk r)
     + unat (m_selectCount (m_vecTrunks r ! m_currentTrunk r))"

definition next_trunk :: "TerminationRoute_t \<Rightarrow> string \<times> TerminationRoute_t" where
  "next_trunk r = (case getNextTrunk r of Ret ((t, ch), r') \<Rightarrow> (t, r') | _ \<Rightarrow> ([], r))"

lemma trunk_key_select [simp]: "trunk_key (t\<lparr>m_selectCount := n\<rparr>) = trunk_key t"
  by (simp add: trunk_key_def trunk_text_def)

lemma trunk_text_select [simp]: "trunk_text (t\<lparr>m_selectCount := n\<rparr>) = trunk_text t"
  by (simp add: trunk_text_def)

lemma getNextTrunk_stay:
  assumes inv: "route_inv r"
    and more: "m_selectCount (m_vecTrunks r ! m_currentTrunk r) \<noteq> m_qty (m_vecTrunks r ! m_currentTrunk r)"
  shows "\<exists>r'. getNextTrunk r = Ret ((route_schedule r ! (route_pos r mod length (route_schedule r)), m_chargeNumber r), r')
     \<and> route_inv r' \<and> map trunk_key (m_vecTrunks r') = map trunk_key (m_vecTrunks r)
     \<and> m_chargeNumber r' = m_chargeNumber r
     \<and> route_pos r' mod length (route_schedule r) = Suc (route_pos r) mod length (route_schedule r)"
proof -
  let ?ts = "m_vecTrunks r" and ?i = "m_currentTrunk r"
  let ?t = "?ts ! ?i"
  let ?keys = "map trunk_key ?ts"
  let ?r' = "r\<lparr>m_vecTrunks := ?ts[?i := ?t\<lparr>m_selectCount := m_selectCount ?t + 1\<rparr>]\<rparr>"
  have i: "?i < length ?ts" and le: "m_selectCount ?t \<le> m_qty ?t"
    using inv by (auto simp: route_inv_def)
  with more have lt: "m_selectCount ?t < m_qty ?t" by simp
  then have k: "unat (m_selectCount ?t) < trunk_weight ?t" by (simp add: word_less_nat_alt)
  have step: "getNextTrunk r = Ret ((trunk_text ?t, m_chargeNumber r), ?r')"
    using i more by (simp add: getNextTrunk_def haveAdvancedToEnd_def Let_def)
  have keys: "map trunk_key (m_vecTrunks ?r') = ?keys"
    by (simp add: map_list_update_same)
  have pos': "route_pos ?r' = Suc (route_pos r)"
    using i lt keys by (simp add: route_pos_def unat_Suc_less)
  have sel: "?keys ! ?i = trunk_key ?t" using i by simp
  have nth: "expand snd ?keys ! route_pos r = trunk_key ?t"
    using nth_expand [of ?i ?keys "unat (m_selectCount ?t)" snd] i k sel
    by (simp add: route_pos_def trunk_key_def)
  have "offset snd ?keys (Suc ?i) \<le> length (expand snd ?keys)"
    by (rule offset_le)
  then have bound: "route_pos r < length (expand snd ?keys)"
    using i k sel by (simp add: route_pos_def offset_Suc trunk_key_def)
  have "m_selectCount ?t + 1 \<le> m_qty ?t"
    using lt by (rule inc_le)
  then have "route_inv ?r'"
    using inv i by (auto simp: route_inv_def nth_list_update set_conv_nth)
  moreover have "route_schedule r ! (route_pos r mod length (route_schedule r)) = trunk_text ?t"
    using bound nth by (simp add: route_schedule_def trunk_key_def)
  ultimately show ?thesis using step keys pos' by auto
qed

text \<open>At the end of a trunk's quantity the counts are reset and the next trunk has been used once.\<close>

lemma getNextTrunk_full:
  assumes inv: "route_inv r"
    and full: "m_selectCount (m_vecTrunks r ! m_currentTrunk r) = m_qty (m_vecTrunks r ! m_currentTrunk r)"
    and j: "j = m_currentTrunk (advanceTrunk r)"
  obtains r' where
    "getNextTrunk r = Ret ((trunk_text (m_vecTrunks r ! j), m_chargeNumber r), r')" "route_inv r'"
    "map trunk_key (m_vecTrunks r') = map trunk_key (m_vecTrunks r)" "m_chargeNumber r' = m_chargeNumber r"
    "m_currentTrunk r' = j" "m_selectCount (m_vecTrunks r' ! j) = 1"
proof -
  let ?ts = "m_vecTrunks r" and ?i = "m_currentTrunk r"
  let ?ts1 = "?ts[?i := (?ts ! ?i)\<lparr>m_selectCount := 0\<rparr>]"
  let ?d = "(?ts1 ! j)\<lparr>m_selectCount := 1\<rparr>"
  let ?r' = "r\<lparr>m_vecTrunks := ?ts1[j := ?d], m_currentTrunk := j\<rparr>"
  have i: "?i < length ?ts" and jl: "j < length ?ts" and qty: "\<forall>t \<in> set ?ts. 0 < m_qty t"
    and zero: "\<And>k. k < length ?ts \<Longrightarrow> k \<noteq> ?i \<Longrightarrow> m_selectCount (?ts ! k) = 0"
    using inv by (auto simp: route_inv_def j advanceTrunk_def)
  have zero1: "m_selectCount (?ts1 ! k) = 0" if "k < length ?ts" for k
    using that zero i by (simp add: nth_list_update)
  have qj: "0 < m_qty (?ts1 ! j)" using qty i jl by (auto simp: nth_list_update)
  have adv: "advanceTrunk (r\<lparr>m_vecTrunks := ?ts1\<rparr>) = r\<lparr>m_vecTrunks := ?ts1, m_currentTrunk := j\<rparr>"
    by (simp add: advanceTrunk_def j)
  have ends: "haveAdvancedToEnd (?ts1 ! j) = (False, ?d)"
    "haveAdvancedToEnd (?ts ! ?i) = (True, (?ts ! ?i)\<lparr>m_selectCount := 0\<rparr>)"
    using zero1 [OF jl] qj full by (simp_all add: haveAdvancedToEnd_def)
  have same: "trunk_text ?d = trunk_text (?ts ! j)" using i jl by (simp add: nth_list_update)
  have step: "getNextTrunk r = Ret ((trunk_text (?ts ! j), m_chargeNumber r), ?r')"
    using adv ends i jl same by (simp add: getNextTrunk_def Let_def)
  have "1 \<le> m_qty (?ts1 ! j)" using qj by (metis add_0 inc_le)
  then have inv': "route_inv ?r'"
    using i jl qty zero1 by (auto simp: route_inv_def nth_list_update set_conv_nth)
  have "map trunk_key (m_vecTrunks ?r') = map trunk_key ?ts" by (simp add: map_list_update_same)
  then show thesis using jl by (intro that [OF step inv']) simp_all
qed

lemma route_pos_full:
  assumes inv: "route_inv r"
    and full: "m_selectCount (m_vecTrunks r ! m_currentTrunk r) = m_qty (m_vecTrunks r ! m_currentTrunk r)"
  shows "route_pos r mod length (route_schedule r) =
    offset snd (map trunk_key (m_vecTrunks r)) (m_currentTrunk (advanceTrunk r))"
proof -
  let ?ts = "m_vecTrunks r" and ?i = "m_currentTrunk r"
  let ?keys = "map trunk_key ?ts"
  have i: "?i < length ?ts" using inv by (simp add: route_inv_def)
  have pos: "route_pos r = offset snd ?keys (Suc ?i)"
    using offset_Suc [of ?i ?keys snd] full i by (simp add: route_pos_def trunk_key_def)
  show ?thesis
  proof (cases "Suc ?i \<ge> length ?ts")
    case True
    with i have "Suc ?i = length ?keys" by simp
    with pos True show ?thesis by (simp add: advanceTrunk_def route_schedule_def)
  next
    case False
    then have "offset snd ?keys (Suc ?i) < length (expand snd ?keys)"
      using inv unat_pos by (intro offset_less) (auto simp: route_inv_def trunk_key_def)
    with pos False show ?thesis by (simp add: advanceTrunk_def route_schedule_def)
  qed
qed

lemma getNextTrunk_advance:
  assumes inv: "route_inv r"
    and full: "m_selectCount (m_vecTrunks r ! m_currentTrunk r) = m_qty (m_vecTrunks r ! m_currentTrunk r)"
  shows "\<exists>r'. getNextTrunk r = Ret ((route_schedule r ! (route_pos r mod length (route_schedule r)), m_chargeNumber r), r')
     \<and> route_inv r' \<and> map trunk_key (m_vecTrunks r') = map trunk_key (m_vecTrunks r)
     \<and> m_chargeNumber r' = m_chargeNumber r
     \<and> route_pos r' mod length (route_schedule r) = Suc (route_pos r) mod length (route_schedule r)"
proof -
  let ?keys = "map trunk_key (m_vecTrunks r)"
  define j where "j = m_currentTrunk (advanceTrunk r)"
  obtain r' where r': "getNextTrunk r = Ret ((trunk_text (m_vecTrunks r ! j), m_chargeNumber r), r')" "route_inv r'"
    "map trunk_key (m_vecTrunks r') = ?keys" "m_chargeNumber r' = m_chargeNumber r"
    "m_currentTrunk r' = j" "m_selectCount (m_vecTrunks r' ! j) = 1"
    by (rule getNextTrunk_full [OF inv full j_def])
  have j: "j < length ?keys" and pos: "\<forall>x \<in> set ?keys. 0 < snd x"
    using inv unat_pos by (auto simp: route_inv_def trunk_key_def j_def advanceTrunk_def)
  have "expand snd ?keys ! offset snd ?keys j = ?keys ! j"
    using nth_expand [of j ?keys 0 snd] j pos by (auto simp: all_set_conv_all_nth)
  then have "route_schedule r ! (route_pos r mod length (route_schedule r)) = trunk_text (m_vecTrunks r ! j)"
    using route_pos_full [OF inv full] offset_less [OF j pos] j
    by (simp add: j_def [symmetric] route_schedule_def trunk_key_def)
  moreover have "route_pos r' mod length (route_schedule r) = Suc (route_pos r) mod length (route_schedule r)"
    using r'(3,5,6) route_pos_full [OF inv full, symmetric]
    by (simp add: route_pos_def [of r'] j_def mod_Suc_eq)
  ultimately show ?thesis using r' by auto
qed

lemma getNextTrunk_refines:
  assumes "route_inv r"
  obtains r' where
    "getNextTrunk r = Ret ((route_schedule r ! (route_pos r mod length (route_schedule r)), m_chargeNumber r), r')"
    "route_inv r'" "map trunk_key (m_vecTrunks r') = map trunk_key (m_vecTrunks r)"
    "m_chargeNumber r' = m_chargeNumber r"
    "route_pos r' mod length (route_schedule r) = Suc (route_pos r) mod length (route_schedule r)"
  using getNextTrunk_stay [OF assms] getNextTrunk_advance [OF assms] by blast

lemma route_schedule_cong:
  "map trunk_key (m_vecTrunks r') = map trunk_key (m_vecTrunks r) \<Longrightarrow> route_schedule r' = route_schedule r"
  by (simp add: route_schedule_def)

lemma route_schedule_nonempty: "route_inv r \<Longrightarrow> route_schedule r \<noteq> []"
  using offset_less [of "m_currentTrunk r" "map trunk_key (m_vecTrunks r)" snd] unat_pos
  by (fastforce simp: route_inv_def route_schedule_def trunk_key_def)

interpretation trunks: cyclic_scheduler next_trunk route_inv route_schedule route_pos
proof
  fix r
  assume inv: "route_inv r"
  show "route_schedule r \<noteq> []"
    using inv by (rule route_schedule_nonempty)
  from inv obtain r' where
    "getNextTrunk r = Ret ((route_schedule r ! (route_pos r mod length (route_schedule r)), m_chargeNumber r), r')"
    "route_inv r'" "map trunk_key (m_vecTrunks r') = map trunk_key (m_vecTrunks r)"
    "route_pos r' mod length (route_schedule r) = Suc (route_pos r) mod length (route_schedule r)"
    by (rule getNextTrunk_refines)
  then show "route_inv (snd (next_trunk r))"
    and "route_schedule (snd (next_trunk r)) = route_schedule r"
    and "fst (next_trunk r) = route_schedule r ! (route_pos r mod length (route_schedule r))"
    and "route_pos (snd (next_trunk r)) mod length (route_schedule r) =
      Suc (route_pos r) mod length (route_schedule r)"
    using route_schedule_cong [of r' r] by (simp_all add: next_trunk_def)
qed

lemma TerminationRoute_inv:
  assumes "trunks \<noteq> []" and "\<forall>t \<in> set trunks. 0 < m_qty t \<and> m_selectCount t = 0"
  shows "route_inv (TerminationRoute trunks charge)" "route_pos (TerminationRoute trunks charge) = 0"
  using assms by (auto simp: route_inv_def route_pos_def TerminationRoute_def)

lemma iterate_charge:
  "route_inv r \<Longrightarrow> m_chargeNumber (snd (iterate_step next_trunk k r)) = m_chargeNumber r"
proof (induction k arbitrary: r)
  case 0
  then show ?case by simp
next
  case (Suc k)
  have "m_chargeNumber (snd (next_trunk r)) = m_chargeNumber r"
    using getNextTrunk_refines [OF Suc.prems] by (metis (no_types, lifting) next_trunk_def
        outcome.simps(8) split_conv snd_conv)
  then show ?case
    using Suc.IH [OF trunks.select_inv [OF Suc.prems]] by (simp add: split_beta Let_def)
qed

section \<open>Well-formed configurations\<close>

text \<open>
  What loading a file establishes and every routing operation keeps: the carriers of the
  rotation are known by name, no known carrier is without trunks, all indices are in range.
\<close>

definition route_ok :: "TerminationRoute_t \<Rightarrow> bool" where
  "route_ok r \<longleftrightarrow> m_currentTrunk r < length (m_vecTrunks r)"

definition config_wf :: "ssp_config \<Rightarrow> bool" where
  "config_wf c \<longleftrightarrow>
     assoc_wf (m_mapTerminationCarrierByName c) \<and>
     (\<forall>n \<in> set (m_vecTerminationCarrier c). n \<in> fst ` set (m_mapTerminationCarrierByName c)) \<and>
     (\<forall>n r. map_of (m_mapTerminationCarrierByName c) n = Some r \<longrightarrow> route_ok r) \<and>
     (m_vecTerminationCarrier c \<noteq> [] \<longrightarrow>
        m_nCurrentTerminationCarrier c < length (m_vecTerminationCarrier c))"

definition carrier_trunks :: "ssp_config \<Rightarrow> string \<Rightarrow> string set" where
  "carrier_trunks c carrier =
     (case map_of (m_mapTerminationCarrierByName c) carrier of
        None \<Rightarrow> {} | Some r \<Rightarrow> trunk_text ` set (m_vecTrunks r))"

text \<open>
  A route that a routing operation may hand out: a configured carrier, one of its own trunks
  and its own charge number.
\<close>

definition valid_route :: "ssp_config \<Rightarrow> route \<Rightarrow> bool" where
  "valid_route c rt \<longleftrightarrow>
     (case rt of (trunk, carrier, charge) \<Rightarrow>
        (\<exists>r. map_of (m_mapTerminationCarrierByName c) carrier = Some r \<and>
             trunk \<in> trunk_text ` set (m_vecTrunks r) \<and> charge = m_chargeNumber r))"

text \<open>The part of the configuration that no routing operation changes.\<close>

definition same_setup :: "ssp_config \<Rightarrow> ssp_config \<Rightarrow> bool" where
  "same_setup c c' \<longleftrightarrow>
     c'\<lparr>m_mapTerminationCarrierByName := [], m_nCurrentTerminationCarrier := 0\<rparr> =
     c\<lparr>m_mapTerminationCarrierByName := [], m_nCurrentTerminationCarrier := 0\<rparr> \<and>
     map fst (m_mapTerminationCarrierByName c') = map fst (m_mapTerminationCarrierByName c) \<and>
     (\<forall>n. map_option (\<lambda>r. (map trunk_key (m_vecTrunks r), m_chargeNumber r)) (map_of (m_mapTerminationCarrierByName c') n) =
          map_option (\<lambda>r. (map trunk_key (m_vecTrunks r), m_chargeNumber r)) (map_of (m_mapTerminationCarrierByName c) n))"

lemma same_setup_refl [simp]: "same_setup c c"
  by (simp add: same_setup_def)

lemma same_setup_trans: "same_setup a b \<Longrightarrow> same_setup b c \<Longrightarrow> same_setup a c"
  by (simp add: same_setup_def)

lemma same_setup_vec: "same_setup c c' \<Longrightarrow> m_vecTerminationCarrier c' = m_vecTerminationCarrier c"
  unfolding same_setup_def
  by (drule conjunct1, drule arg_cong [where f = m_vecTerminationCarrier]) simp

lemma haveAdvancedToEnd_key [simp]: "trunk_key (snd (haveAdvancedToEnd t)) = trunk_key t"
  by (simp add: haveAdvancedToEnd_def)

lemma trunk_text_of_key: "trunk_key t = trunk_key u \<Longrightarrow> trunk_text t = trunk_text u"
  by (simp add: trunk_key_def)

lemma keys_update_end [simp]:
  "map trunk_key (ts[i := snd (haveAdvancedToEnd (ts ! i))]) = map trunk_key ts"
  by (simp add: map_list_update_same)

text \<open>The trunk \<open>getNextTrunk\<close> ends on, and the route with that trunk counted.\<close>

lemma getNextTrunk_ok:
  assumes ok: "route_ok r"
  obtains trunk r' where "getNextTrunk r = Ret ((trunk, m_chargeNumber r), r')"
    "trunk \<in> trunk_text ` set (m_vecTrunks r)" "route_ok r'"
    "map trunk_key (m_vecTrunks r') = map trunk_key (m_vecTrunks r)"
    "m_chargeNumber r' = m_chargeNumber r"
proof -
  let ?ts = "m_vecTrunks r" and ?i = "m_currentTrunk r"
  let ?r1 = "r\<lparr>m_vecTrunks := ?ts[?i := snd (haveAdvancedToEnd (?ts ! ?i))]\<rparr>"
  define r2 where "r2 = (if fst (haveAdvancedToEnd (?ts ! ?i)) then advanceTrunk ?r1 else r)"
  let ?j = "m_currentTrunk r2"
  let ?d = "snd (haveAdvancedToEnd (m_vecTrunks r2 ! ?j))"
  let ?r3 = "r2\<lparr>m_vecTrunks := (m_vecTrunks r2)[?j := ?d]\<rparr>"
  have i: "?i < length ?ts" using ok by (simp add: route_ok_def)
  then have r2: "?j < length (m_vecTrunks r2)" "map trunk_key (m_vecTrunks r2) = map trunk_key ?ts"
    "m_chargeNumber r2 = m_chargeNumber r"
    by (auto simp: r2_def advanceTrunk_def)
  then have j: "?j < length ?ts" by (metis length_map)
  have res: "getNextTrunk r = Ret ((trunk_text ?d, m_chargeNumber r), ?r3)"
    using i r2 by (auto simp: getNextTrunk_def r2_def split_beta Let_def)
  have "trunk_key ?d = trunk_key (?ts ! ?j)"
    using r2(1,2) j by (metis haveAdvancedToEnd_key nth_map)
  then have mem: "trunk_text ?d \<in> trunk_text ` set ?ts" using j by (metis trunk_text_of_key image_eqI nth_mem)
  show thesis
    by (rule that [OF res mem]) (use r2 in \<open>simp_all add: route_ok_def\<close>)
qed

lemma map_of_update_same_keys:
  "k \<in> fst ` set m \<Longrightarrow> map fst (AList.update k v m) = map fst m"
  by (induction m) auto

lemma use_route_ok:
  assumes wf: "config_wf c" and r: "map_of (m_mapTerminationCarrierByName c) n = Some r"
  obtains trunk c' where "use_route c n = Some (Ret (Some (trunk, n, m_chargeNumber r), c'))"
    "config_wf c'" "same_setup c c'" "valid_route c (trunk, n, m_chargeNumber r)"
    "m_nCurrentTerminationCarrier c' = m_nCurrentTerminationCarrier c"
proof -
  have "route_ok r" using wf r by (auto simp: config_wf_def)
  then obtain trunk r' where nt: "getNextTrunk r = Ret ((trunk, m_chargeNumber r), r')"
    "trunk \<in> trunk_text ` set (m_vecTrunks r)" "route_ok r'"
    "map trunk_key (m_vecTrunks r') = map trunk_key (m_vecTrunks r)"
    "m_chargeNumber r' = m_chargeNumber r"
    by (rule getNextTrunk_ok)
  let ?m = "m_mapTerminationCarrierByName c"
  let ?c' = "c\<lparr>m_mapTerminationCarrierByName := AList.update n r' ?m\<rparr>"
  have mem: "n \<in> fst ` set ?m" using r by (metis map_of_eq_None_iff option.distinct(1))
  have keys: "map fst (AList.update n r' ?m) = map fst ?m"
    using mem by (rule map_of_update_same_keys)
  then have "fst ` set (AList.update n r' ?m) = fst ` set ?m"
    by (metis list.set_map)
  with wf nt(3) have "config_wf ?c'"
    by (auto simp: config_wf_def split: if_splits)
  moreover have "same_setup c ?c'"
    using keys r nt(4,5) by (auto simp: same_setup_def)
  ultimately show thesis
    using nt(1,2) r by (intro that [of trunk ?c']) (auto simp: use_route_def valid_route_def)
qed

lemma getTerminationRoute_ok:
  assumes wf: "config_wf c" and ne: "m_vecTerminationCarrier c \<noteq> []"
  obtains trunk charge c' where
    "getTerminationRoute c =
       Ret (Some (trunk, m_vecTerminationCarrier c ! m_nCurrentTerminationCarrier c, charge), c')"
    "config_wf c'" "same_setup c c'"
    "valid_route c (trunk, m_vecTerminationCarrier c ! m_nCurrentTerminationCarrier c, charge)"
    "m_nCurrentTerminationCarrier c' =
       Suc (m_nCurrentTerminationCarrier c) mod length (m_vecTerminationCarrier c)"
proof -
  let ?v = "m_vecTerminationCarrier c" and ?k = "m_nCurrentTerminationCarrier c"
  have k: "?k < length ?v" using wf ne by (simp add: config_wf_def)
  then have "?v ! ?k \<in> fst ` set (m_mapTerminationCarrierByName c)"
    using wf by (auto simp: config_wf_def)
  then obtain r where r: "map_of (m_mapTerminationCarrierByName c) (?v ! ?k) = Some r"
    by (metis map_of_eq_None_iff not_None_eq)
  obtain trunk c' where u: "use_route c (?v ! ?k) = Some (Ret (Some (trunk, ?v ! ?k, m_chargeNumber r), c'))"
    "config_wf c'" "same_setup c c'" "valid_route c (trunk, ?v ! ?k, m_chargeNumber r)"
    using use_route_ok [OF wf r] by metis
  let ?n = "if Suc ?k \<ge> length ?v then 0 else Suc ?k"
  let ?c' = "c'\<lparr>m_nCurrentTerminationCarrier := ?n\<rparr>"
  have "m_vecTerminationCarrier c' = ?v" using u(3) by (rule same_setup_vec)
  then have "config_wf ?c'"
    using u(2) k by (auto simp: config_wf_def)
  moreover have "same_setup c ?c'"
    using u(3) by (simp add: same_setup_def)
  moreover have "?n = Suc ?k mod length ?v"
    using k by (auto simp: le_Suc_eq)
  ultimately show thesis
    using u(1,4) k ne by (intro that [of trunk "m_chargeNumber r" ?c']) (simp_all add: getTerminationRoute_def)
qed

definition next_carrier :: "ssp_config \<Rightarrow> string \<times> ssp_config" where
  "next_carrier c =
     (case getTerminationRoute c of
        Ret (Some (trunk, carrier, charge), c') \<Rightarrow> (carrier, c') | _ \<Rightarrow> ([], c))"

definition routable :: "ssp_config \<Rightarrow> bool" where
  "routable c \<longleftrightarrow> config_wf c \<and> m_vecTerminationCarrier c \<noteq> []"

interpretation carriers: cyclic_scheduler next_carrier routable m_vecTerminationCarrier m_nCurrentTerminationCarrier
proof
  fix c
  assume r: "routable c"
  then have wf: "config_wf c" and ne: "m_vecTerminationCarrier c \<noteq> []"
    by (simp_all add: routable_def)
  show "m_vecTerminationCarrier c \<noteq> []" by (rule ne)
  have k: "m_nCurrentTerminationCarrier c < length (m_vecTerminationCarrier c)"
    using wf ne by (simp add: config_wf_def)
  obtain trunk charge c' where s:
    "getTerminationRoute c =
       Ret (Some (trunk, m_vecTerminationCarrier c ! m_nCurrentTerminationCarrier c, charge), c')"
    "config_wf c'" "same_setup c c'"
    "m_nCurrentTerminationCarrier c' =
       Suc (m_nCurrentTerminationCarrier c) mod length (m_vecTerminationCarrier c)"
    using getTerminationRoute_ok [OF wf ne] by metis
  then show "routable (snd (next_carrier c))"
    and "m_vecTerminationCarrier (snd (next_carrier c)) = m_vecTerminationCarrier c"
    and "fst (next_carrier c) = m_vecTerminationCarrier c !
      (m_nCurrentTerminationCarrier c mod length (m_vecTerminationCarrier c))"
    and "m_nCurrentTerminationCarrier (snd (next_carrier c)) mod length (m_vecTerminationCarrier c) =
      Suc (m_nCurrentTerminationCarrier c) mod length (m_vecTerminationCarrier c)"
    using same_setup_vec [OF s(3)] ne k by (simp_all add: next_carrier_def routable_def)
qed

lemma find_other_carrier:
  assumes wf: "config_wf c" and f: "find (\<lambda>(carrier, r). carrier \<noteq> failed) (m_mapTerminationCarrierByName c) = Some (n, r)"
  shows "n \<noteq> failed" and "map_of (m_mapTerminationCarrierByName c) n = Some r"
proof -
  from f have "(n, r) \<in> set (m_mapTerminationCarrierByName c)" and ne: "n \<noteq> failed"
    by (auto simp: find_Some_iff in_set_conv_nth)
  then show "n \<noteq> failed" and "map_of (m_mapTerminationCarrierByName c) n = Some r"
    using wf by (auto simp: config_wf_def assoc_wf_def)
qed

lemma getTerminationRouteForAltCarrier_ok:
  assumes "routable c"
  obtains rt c' where "getTerminationRouteForAltCarrier c failed = Ret (Some rt, c')"
    "routable c'" "same_setup c c'" "valid_route c rt"
    "(\<exists>n \<in> fst ` set (m_mapTerminationCarrierByName c). n \<noteq> failed) \<longrightarrow> fst (snd rt) \<noteq> failed"
proof (cases "find (\<lambda>(carrier, r). carrier \<noteq> failed) (m_mapTerminationCarrierByName c)")
  case None
  then have "\<forall>n \<in> fst ` set (m_mapTerminationCarrierByName c). n = failed"
    by (auto simp: find_None_iff)
  moreover have "getTerminationRouteForAltCarrier c failed = getTerminationRoute c"
    using None by (simp add: getTerminationRouteForAltCarrier_def)
  ultimately show thesis
    using assms that getTerminationRoute_ok [of c thesis] same_setup_vec [of c]
    by (metis routable_def)
next
  case (Some p)
  obtain n r where p: "p = (n, r)" by fastforce
  have wf: "config_wf c" using assms by (simp add: routable_def)
  note n = find_other_carrier [OF wf Some [unfolded p]]
  obtain trunk c' where u: "use_route c n = Some (Ret (Some (trunk, n, m_chargeNumber r), c'))"
    "config_wf c'" "same_setup c c'" "valid_route c (trunk, n, m_chargeNumber r)"
    using use_route_ok [OF wf n(2)] by metis
  show thesis
    using u n(1) Some p assms same_setup_vec [OF u(3)]
    by (intro that [of "(trunk, n, m_chargeNumber r)" c'])
      (simp_all add: getTerminationRouteForAltCarrier_def routable_def)
qed

lemma getTerminationRouteForCarrier_ok:
  assumes "routable c"
  obtains rt c' where "getTerminationRouteForCarrier c n = Ret (rt, c')"
    "routable c'" "same_setup c c'"
    "(rt = None) = (n \<notin> fst ` set (m_mapTerminationCarrierByName c))"
    "\<forall>x. rt = Some x \<longrightarrow> valid_route c x \<and> fst (snd x) = n"
proof (cases "map_of (m_mapTerminationCarrierByName c) n")
  case None
  then show thesis
    using assms map_of_eq_None_iff [of "m_mapTerminationCarrierByName c" n]
    by (intro that [of None c]) (simp_all add: getTerminationRouteForCarrier_def use_route_def)
next
  case (Some r)
  have wf: "config_wf c" using assms by (simp add: routable_def)
  have mem: "n \<in> fst ` set (m_mapTerminationCarrierByName c)"
    using Some by (metis map_of_eq_None_iff option.distinct(1))
  obtain trunk c' where u: "use_route c n = Some (Ret (Some (trunk, n, m_chargeNumber r), c'))"
    "config_wf c'" "same_setup c c'" "valid_route c (trunk, n, m_chargeNumber r)"
    using use_route_ok [OF wf Some] by metis
  show thesis
    using u mem assms same_setup_vec [OF u(3)]
    by (intro that [of "Some (trunk, n, m_chargeNumber r)" c'])
      (simp_all add: getTerminationRouteForCarrier_def routable_def)
qed

section \<open>Number ranges\<close>

lemma digits_val_bound: "digits_val acc s < (acc + 1) * 10 ^ length s"
proof (induction acc s rule: digits_val.induct)
  case (1 acc)
  then show ?case by simp
next
  case (2 acc c cs)
  show ?case
  proof (cases "is_digit c")
    case True
    then have "digit_val c \<le> 9" unfolding is_digit_def digit_val_def by linarith
    then have le: "(10 * acc + digit_val c + 1) * 10 ^ length cs \<le> (10 * (acc + 1)) * 10 ^ length cs"
      by (intro mult_right_mono) simp_all
    have "digits_val acc (c # cs) < (10 * (acc + 1)) * 10 ^ length cs"
      unfolding digits_val.simps if_P [OF True] by (rule less_le_trans [OF "2.IH" [OF True] le])
    then show ?thesis by (simp add: algebra_simps)
  next
    case False
    have "(acc + 1) * 1 \<le> (acc + 1) * 10 ^ length (c # cs)"
      by (intro mult_left_mono) simp_all
    then have "acc < (acc + 1) * 10 ^ length (c # cs)" by (simp del: power_Suc)
    with False show ?thesis by simp
  qed
qed

lemma atoi_digits_bound:
  assumes "\<forall>c \<in> set s. is_digit c" and "length s \<le> 4"
  shows "atoi s < 10000"
proof -
  have "digits_val 0 s < 10000"
  proof -
    have "digits_val 0 s < 10 ^ length s" using digits_val_bound [of 0 s] by simp
    also have "(10::nat) ^ length s \<le> 10 ^ 4" using assms(2) by (intro power_increasing) simp_all
    finally show ?thesis by simp
  qed
  moreover have "strtol s = int (digits_val 0 s)"
  proof (cases s)
    case Nil
    then show ?thesis by (simp add: strtol_def)
  next
    case (Cons c cs)
    with assms(1) have "is_digit c" by simp
    with is_digit_not_space [of c] Cons calculation show ?thesis by (simp add: strtol_def)
  qed
  ultimately show ?thesis
    by (simp add: atoi_def word_less_nat_alt unat_of_nat)
qed

lemma xxxx_bound:
  "\<forall>c \<in> set s. is_digit c \<Longrightarrow> m_xxxx (Dnis_single s) < 10000"
  by (auto simp: Dnis_single_def dnis_init_def Let_def intro!: atoi_digits_bound dest: in_set_dropD)

lemma block_count_range:
  assumes "(f :: u32) < l" and "l < 10000"
  shows "f < e \<and> e < f + (l - f + 1) \<longleftrightarrow> f < e \<and> e \<le> l"
proof -
  have "f + (l - f + 1) = l + 1" by (simp add: algebra_simps)
  moreover have "unat (l + 1) = Suc (unat l)" using assms(2) by (rule unat_Suc_less)
  then have "e < l + 1 \<longleftrightarrow> e \<le> l" by (simp add: word_less_nat_alt word_le_nat_alt less_Suc_eq_le)
  ultimately show ?thesis by simp
qed

section \<open>Properties\<close>

text \<open>
  C22. A carrier's trunks are used in weighted rotation: for trunks with positive quantities, the
  call number \<open>k\<close> (counted from 0) of \<open>getNextTrunk\<close> on a new \<open>TerminationRoute_t\<close> returns, and
  returns the trunk text at position \<open>k\<close>, cyclically, of the sequence that lists every trunk as
  often as its quantity says, together with the carrier's charge number.
\<close>

theorem trunk_rotation:
  assumes "trunks \<noteq> []" and "\<forall>t \<in> set trunks. 0 < m_qty t \<and> m_selectCount t = 0"
  shows "\<exists>r'. getNextTrunk (snd (iterate_step next_trunk k (TerminationRoute trunks charge))) =
    Ret ((map trunk_text (expand trunk_weight trunks) ! (k mod sum_list (map trunk_weight trunks)), charge), r')"
proof -
  let ?new = "TerminationRoute trunks charge"
  let ?r = "snd (iterate_step next_trunk k ?new)"
  note init = TerminationRoute_inv [OF assms, of charge]
  have inv: "route_inv ?r" and sched: "route_schedule ?r = route_schedule ?new"
    by (simp_all add: init(1) trunks.iterate_inv trunks.iterate_schedule)
  have pos: "route_pos ?r mod length (route_schedule ?new) = k mod length (route_schedule ?new)"
    using trunks.iterate_pos [OF init(1), of k] init(2) by simp
  have s0: "route_schedule ?new = map trunk_text (expand trunk_weight trunks)"
    by (simp add: route_schedule_def TerminationRoute_def expand_def map_concat comp_def trunk_key_def)
  have charge: "m_chargeNumber ?r = charge"
    using iterate_charge [OF init(1)] by (simp add: TerminationRoute_def)
  show ?thesis
    using getNextTrunk_refines [OF inv] pos sched s0 charge by (metis length_expand length_map)
qed

theorem trunk_rotation_witness:
  "\<exists>r'. getNextTrunk (snd (iterate_step next_trunk 2
      (TerminationRoute [CarrierAddressSpace ''intermetro'' ''10.10.10.1'' 5060 ''255.255.255.255'' 2,
                         CarrierAddressSpace ''intermetro'' ''10.10.10.2'' 5061 ''255.255.255.255'' 1] ''617''))) =
    Ret ((''10.10.10.2:5061'', ''617''), r')"
proof -
  let ?ts = "[CarrierAddressSpace ''intermetro'' ''10.10.10.1'' 5060 ''255.255.255.255'' 2,
              CarrierAddressSpace ''intermetro'' ''10.10.10.2'' 5061 ''255.255.255.255'' 1]"
  have e: "map trunk_text (expand trunk_weight ?ts) ! (2 mod sum_list (map trunk_weight ?ts)) = ''10.10.10.2:5061''"
    by (simp add: CarrierAddressSpace_def trunk_text_def expand_def nth_append string_eval)
  have "\<forall>t \<in> set ?ts. 0 < m_qty t \<and> m_selectCount t = 0"
    by (simp add: CarrierAddressSpace_def)
  then show ?thesis
    using trunk_rotation [of ?ts 2 "''617''"] unfolding e by simp
qed

text \<open>A small configuration for concrete instances: two carriers, the second one used twice in a turn.\<close>

definition two_carriers :: ssp_config where
  "two_carriers = initial_config\<lparr>
     m_mapTerminationCarrierByName :=
       [(''intermetro'', TerminationRoute
           [CarrierAddressSpace ''intermetro'' ''10.10.10.1'' 5060 ''255.255.255.255'' 2,
            CarrierAddressSpace ''intermetro'' ''10.10.10.2'' 5060 ''255.255.255.255'' 1] ''6172375089''),
        (''level3'', TerminationRoute
           [CarrierAddressSpace ''level3'' ''172.21.3.96'' 5060 ''255.255.255.255'' 1] [])],
     m_vecTerminationCarrier := [''level3'', ''intermetro'', ''intermetro''],
     m_nMaxTerminationAttempts := 3\<rparr>"

lemma two_carriers_wf: "config_wf two_carriers" "m_vecTerminationCarrier two_carriers \<noteq> []"
  by (auto simp: config_wf_def two_carriers_def initial_config_def assoc_wf_def route_ok_def
      TerminationRoute_def split: if_splits)

text \<open>
  The carriers are used in the configured rotation: in a loaded configuration with at least
  one termination carrier, call number \<open>k\<close> (from 0) of \<open>getTerminationRoute\<close> returns a route over
  the carrier at position \<open>k\<close> after the current one, cyclically, in the list in which every
  carrier occurs as often as its quantity says; the trunk is one of that carrier's trunks.
\<close>

theorem carrier_rotation:
  assumes "config_wf c" and "m_vecTerminationCarrier c \<noteq> []"
  shows "\<exists>trunk charge c'.
    getTerminationRoute (snd (iterate_step next_carrier k c)) =
      Ret (Some (trunk,
                 m_vecTerminationCarrier c !
                   ((m_nCurrentTerminationCarrier c + k) mod length (m_vecTerminationCarrier c)),
                 charge), c') \<and>
    trunk \<in> carrier_trunks (snd (iterate_step next_carrier k c))
      (m_vecTerminationCarrier c !
         ((m_nCurrentTerminationCarrier c + k) mod length (m_vecTerminationCarrier c)))"
proof -
  let ?c = "snd (iterate_step next_carrier k c)"
  have r: "routable c" using assms by (simp add: routable_def)
  have rk: "routable ?c" and vec: "m_vecTerminationCarrier ?c = m_vecTerminationCarrier c"
    by (simp_all add: r carriers.iterate_inv carriers.iterate_schedule)
  have "m_nCurrentTerminationCarrier ?c < length (m_vecTerminationCarrier c)"
    using rk vec by (simp add: routable_def config_wf_def)
  then have pos: "m_nCurrentTerminationCarrier ?c =
      (m_nCurrentTerminationCarrier c + k) mod length (m_vecTerminationCarrier c)"
    using carriers.iterate_pos [OF r, of k] by simp
  obtain trunk charge c' where
    "getTerminationRoute ?c =
       Ret (Some (trunk, m_vecTerminationCarrier ?c ! m_nCurrentTerminationCarrier ?c, charge), c')"
    "valid_route ?c (trunk, m_vecTerminationCarrier ?c ! m_nCurrentTerminationCarrier ?c, charge)"
    using getTerminationRoute_ok rk unfolding routable_def by metis
  then show ?thesis
    using pos vec by (auto simp: valid_route_def carrier_trunks_def)
qed

theorem carrier_rotation_witness:
  "\<exists>trunk charge c'.
    getTerminationRoute (snd (iterate_step next_carrier 4 two_carriers)) =
      Ret (Some (trunk, ''intermetro'', charge), c') \<and>
    trunk \<in> carrier_trunks (snd (iterate_step next_carrier 4 two_carriers)) ''intermetro''"
  using carrier_rotation [OF two_carriers_wf, of 4]
  by (simp add: two_carriers_def initial_config_def)

text \<open>
  C23. Routing never fails on a loaded configuration: with at least one termination carrier, each of
  the three routing operations returns without a failed assertion or an index out of range,
  keeps the configuration well formed and its set-up unchanged, and hands out only routes that
  belong to a configured carrier; only a lookup for an unknown carrier finds none.
\<close>

theorem routing_total:
  assumes "config_wf c" and "m_vecTerminationCarrier c \<noteq> []"
  shows "\<exists>rt1 c1 rt2 c2 rt3 c3.
    getTerminationRoute c = Ret (Some rt1, c1) \<and> valid_route c rt1 \<and> config_wf c1 \<and> same_setup c c1 \<and>
    getTerminationRouteForAltCarrier c failed = Ret (Some rt2, c2) \<and> valid_route c rt2 \<and> config_wf c2 \<and> same_setup c c2 \<and>
    getTerminationRouteForCarrier c n = Ret (rt3, c3) \<and> config_wf c3 \<and> same_setup c c3 \<and>
    (rt3 = None \<longleftrightarrow> n \<notin> fst ` set (m_mapTerminationCarrierByName c)) \<and>
    (\<forall>x. rt3 = Some x \<longrightarrow> valid_route c x \<and> fst (snd x) = n)"
proof -
  have r: "routable c" using assms by (simp add: routable_def)
  obtain rt1 c1 where 1: "getTerminationRoute c = Ret (Some rt1, c1)" "valid_route c rt1"
    "config_wf c1" "same_setup c c1"
    using getTerminationRoute_ok [OF assms] by metis
  obtain rt2 c2 where 2: "getTerminationRouteForAltCarrier c failed = Ret (Some rt2, c2)"
    "valid_route c rt2" "config_wf c2" "same_setup c c2"
    using getTerminationRouteForAltCarrier_ok [OF r] unfolding routable_def by metis
  obtain rt3 c3 where 3: "getTerminationRouteForCarrier c n = Ret (rt3, c3)"
    "routable c3" "same_setup c c3"
    "(rt3 = None) = (n \<notin> fst ` set (m_mapTerminationCarrierByName c))"
    "\<forall>x. rt3 = Some x \<longrightarrow> valid_route c x \<and> fst (snd x) = n"
    by (rule getTerminationRouteForCarrier_ok [OF r])
  from 1 2 3 show ?thesis unfolding routable_def by blast
qed

theorem routing_total_witness:
  "\<exists>rt1 c1. getTerminationRoute two_carriers = Ret (Some rt1, c1) \<and>
     valid_route two_carriers rt1 \<and> config_wf c1"
  using routing_total [OF two_carriers_wf, of "''level3''" "''level3''"] by blast

text \<open>
  A failed termination attempt is retried over another carrier whenever there is one:
  \<open>getTerminationRouteForAltCarrier\<close> returns a route whose carrier differs from the failed one.
\<close>

theorem alt_carrier_differs:
  assumes "config_wf c" and "m_vecTerminationCarrier c \<noteq> []"
    and "n \<in> fst ` set (m_mapTerminationCarrierByName c)" and "n \<noteq> failed"
  shows "\<exists>trunk carrier charge c'.
    getTerminationRouteForAltCarrier c failed = Ret (Some (trunk, carrier, charge), c') \<and> carrier \<noteq> failed"
proof -
  have r: "routable c" using assms by (simp add: routable_def)
  obtain rt c' where "getTerminationRouteForAltCarrier c failed = Ret (Some rt, c')"
    "(\<exists>n \<in> fst ` set (m_mapTerminationCarrierByName c). n \<noteq> failed) \<longrightarrow> fst (snd rt) \<noteq> failed"
    using getTerminationRouteForAltCarrier_ok [OF r] by metis
  then show ?thesis using assms(3,4) by (cases rt) auto
qed

theorem alt_carrier_differs_witness:
  "\<exists>trunk carrier charge c'.
    getTerminationRouteForAltCarrier two_carriers ''level3'' = Ret (Some (trunk, carrier, charge), c') \<and>
    carrier \<noteq> ''level3''"
proof -
  have "''intermetro'' \<in> fst ` set (m_mapTerminationCarrierByName two_carriers)"
    by (simp add: two_carriers_def initial_config_def)
  then show ?thesis
    using alt_carrier_differs [OF two_carriers_wf, of "''intermetro''" "''level3''"] by simp
qed

text \<open>
  A block of numbers contains exactly its range: for numbers of digits, the block from
  \<open>firstDnis\<close> to \<open>lastDnis\<close> matches a number if and only if the number has the area code and the
  exchange of \<open>firstDnis\<close> and its last four digits lie between those of \<open>firstDnis\<close> and those of
  \<open>lastDnis\<close> (only those of \<open>firstDnis\<close> itself when the range is empty).
\<close>

theorem dnis_block_range:
  assumes "\<forall>c \<in> set lastDnis. is_digit c"
  shows "dnis_matchesOrContains (Dnis_block firstDnis lastDnis) e \<longleftrightarrow>
    m_npa e = m_npa (Dnis_single firstDnis) \<and> m_nxx e = m_nxx (Dnis_single firstDnis) \<and>
    m_xxxx (Dnis_single firstDnis) \<le> m_xxxx e \<and>
    m_xxxx e \<le> max (m_xxxx (Dnis_single firstDnis)) (m_xxxx (Dnis_single lastDnis))"
proof -
  let ?f = "m_xxxx (Dnis_single firstDnis)" and ?l = "m_xxxx (Dnis_single lastDnis)"
  have l: "?l < 10000" using assms by (rule xxxx_bound)
  show ?thesis
  proof (cases "?f < ?l")
    case True
    then have "?f < m_xxxx e \<and> m_xxxx e < ?f + (?l - ?f + 1) \<longleftrightarrow> ?f < m_xxxx e \<and> m_xxxx e \<le> ?l"
      using l by (rule block_count_range)
    with True show ?thesis
      by (auto simp: dnis_matchesOrContains_def Dnis_block_def Dnis_single_def Let_def)
  next
    case False
    have "\<not> (?f < m_xxxx e \<and> m_xxxx e < ?f + 1)"
      by (metis inc_le not_le)
    with False show ?thesis
      by (auto simp: dnis_matchesOrContains_def Dnis_block_def Dnis_single_def Let_def max_def dnis_init_def)
  qed
qed

theorem dnis_block_range_witness:
  "dnis_matchesOrContains (Dnis_block ''8005551000'' ''8005551999'') (Dnis_single ''18005551234'')"
proof -
  have "\<forall>c \<in> set ''8005551999''. is_digit c" by (simp add: string_eval)
  from dnis_block_range [OF this, of "''8005551000''" "Dnis_single ''18005551234''"] show ?thesis
    by (simp add: Dnis_single_def dnis_init_def string_eval)
qed

end
