(* ===== verification/Config_Load.thy ===== *)
theory Config_Load
  imports Ssp_Config
begin

text \<open>
  The constructor of \<open>SspConfig::Impl\<close> (\<open>ssp-config.cpp\<close>): the configuration object from the XML
  file. Reading the file and parsing XML is done by \<open>boost::property_tree\<close>; what it delivers is
  the argument. A section of the constructor that can end it early, by a \<open>return\<close> or an
  exception that the outer handler catches, returns \<open>False\<close> with the object as it is then.
\<close>

section \<open>Property trees\<close>

datatype ptree = PTree (tree_data: string) (tree_children: "(string \<times> ptree) list")

datatype config_file = CannotOpen | Malformed | Parsed ptree

text \<open>A path is the list of its components; a component selects the first child of that name.\<close>

fun get_child :: "ptree \<Rightarrow> string list \<Rightarrow> ptree option" where
  "get_child t [] = Some t"
| "get_child t (k # ks) =
     (case map_of (tree_children t) k of None \<Rightarrow> None | Some u \<Rightarrow> get_child u ks)"

text \<open>
  Extraction with a default: the default is taken when there is no such path or the text does not
  convert. A number converts by \<open>istream >>\<close> and must be followed by white space only; an unsigned
  number may carry a minus sign, and then it is negated in its width.
\<close>

definition get_string :: "ptree \<Rightarrow> string list \<Rightarrow> string \<Rightarrow> string" where
  "get_string t path dflt = (case get_child t path of None \<Rightarrow> dflt | Some u \<Rightarrow> tree_data u)"

definition scan_digits :: "string \<Rightarrow> nat option" where
  "scan_digits s =
     (let ds = takeWhile is_digit s; rest = dropWhile is_digit s
      in if ds \<noteq> [] \<and> list_all is_space rest then Some (digits_val 0 ds) else None)"

definition scan_number :: "string \<Rightarrow> (bool \<times> nat) option" where
  "scan_number s =
     (case dropWhile is_space s of
        [] \<Rightarrow> None
      | c # cs \<Rightarrow>
          if c = CHR ''-'' then map_option (Pair True) (scan_digits cs)
          else if c = CHR ''+'' then map_option (Pair False) (scan_digits cs)
          else map_option (Pair False) (scan_digits (c # cs)))"

definition read_unsigned :: "string \<Rightarrow> 'a::len word option" where
  "read_unsigned s =
     (case scan_number s of
        None \<Rightarrow> None
      | Some (neg, n) \<Rightarrow>
          if n < 2 ^ LENGTH('a) then Some (if neg then - word_of_nat n else word_of_nat n) else None)"

definition read_int :: "string \<Rightarrow> u32 option" where
  "read_int s =
     (case scan_number s of
        None \<Rightarrow> None
      | Some (neg, n) \<Rightarrow>
          if neg then (if n \<le> 2 ^ 31 then Some (- word_of_nat n) else None)
          else if n < 2 ^ 31 then Some (word_of_nat n) else None)"

definition get_unsigned :: "ptree \<Rightarrow> string list \<Rightarrow> 'a::len word \<Rightarrow> 'a word" where
  "get_unsigned t path dflt =
     (case get_child t path of
        None \<Rightarrow> dflt
      | Some u \<Rightarrow> (case read_unsigned (tree_data u) of None \<Rightarrow> dflt | Some n \<Rightarrow> n))"

definition get_int :: "ptree \<Rightarrow> string list \<Rightarrow> u32 \<Rightarrow> u32" where
  "get_int t path dflt =
     (case get_child t path of
        None \<Rightarrow> dflt
      | Some u \<Rightarrow> (case read_int (tree_data u) of None \<Rightarrow> dflt | Some n \<Rightarrow> n))"

definition getXmlAttribute :: "ptree \<Rightarrow> string \<Rightarrow> string option" where
  "getXmlAttribute v attrName =
     (case get_child v [''<xmlattr>'', attrName] of
        None \<Rightarrow> None
      | Some u \<Rightarrow> if tree_data u = [] then None else Some (tree_data u))"

section \<open>Scalar settings\<close>

definition load_stats :: "ptree \<Rightarrow> ssp_config \<Rightarrow> ssp_config" where
  "load_stats pt c =
     (case get_child pt [''ssp'', ''stats''] of
        None \<Rightarrow> c
      | Some t \<Rightarrow>
          c\<lparr>m_statsPort := get_unsigned pt [''ssp'', ''stats'', ''<xmlattr>'', ''port''] 8022,
            m_statsAddress := tree_data t\<rparr>)"

definition String2Loglevel :: "string \<Rightarrow> severity_levels" where
  "String2Loglevel s =
     (if s = ''notice'' then log_notice
      else if s = ''error'' then log_error
      else if s = ''warning'' then log_warning
      else if s = ''info'' then log_info
      else if s = ''debug'' then log_debug
      else log_info)"

definition load_logging :: "ptree \<Rightarrow> ssp_config \<Rightarrow> ssp_config" where
  "load_logging pt c =
     c\<lparr>m_syslogAddress := get_string pt [''ssp'', ''logging'', ''syslog'', ''address''] ''localhost'',
       m_sysLogPort := get_unsigned pt [''ssp'', ''logging'', ''syslog'', ''address''] 516,
       m_syslogFacility := get_string pt [''ssp'', ''logging'', ''syslog'', ''facility''] ''local7'',
       m_nSofiaLogLevel := get_unsigned pt [''ssp'', ''logging'', ''sofia-loglevel''] 1,
       m_loglevel := String2Loglevel (get_string pt [''ssp'', ''logging'', ''loglevel''] ''info'')\<rparr>"

definition load_cdr :: "ptree \<Rightarrow> ssp_config \<Rightarrow> ssp_config" where
  "load_cdr pt c =
     c\<lparr>m_cdrUser := get_string pt [''ssp'', ''cdr'', ''user''] [],
       m_cdrPassword := get_string pt [''ssp'', ''cdr'', ''password''] [],
       m_cdrHost := get_string pt [''ssp'', ''cdr'', ''host''] [],
       m_cdrPort := get_string pt [''ssp'', ''cdr'', ''port''] ''3306'',
       m_cdrSchema := get_string pt [''ssp'', ''cdr'', ''schema''] ''ssp''\<rparr>"

definition load_sip :: "ptree \<Rightarrow> ssp_config \<Rightarrow> ssp_config" where
  "load_sip pt c =
     c\<lparr>m_sipUrl := get_string pt [''ssp'', ''sip'', ''contact''] ''sip:*'',
       m_agent_mode :=
         (if get_string pt [''ssp'', ''sip'', ''agent-mode''] ''stateful'' = ''stateful''
          then agent_mode_stateful else m_agent_mode c),
       m_bIsActive :=
         (if get_string pt [''ssp'', ''sip'', ''<xmlattr>'', ''status''] ''active'' = ''inactive''
          then False else m_bIsActive c),
       m_nOriginationSessionTimer := get_unsigned pt [''ssp'', ''inbound'', ''session-timer''] 0,
       m_nMaxRoundRobins := get_unsigned pt [''ssp'', ''inbound'', ''max-round-robins''] 0,
       m_nMaxTerminationAttempts :=
         get_unsigned pt [''ssp'', ''outbound'', ''max-termination-attempts''] 1,
       m_strAnonymousCallRoutingCarrier :=
         get_string pt [''ssp'', ''outbound'', ''anonymous-call-routing''] [],
       m_nFSTimerMsecs :=
         get_unsigned pt [''ssp'', ''inbound'', ''freeswitch-health-check-interval''] 5000\<rparr>"

section \<open>Application servers\<close>

definition load_appserver :: "ptree \<Rightarrow> ssp_config \<Rightarrow> bool \<times> ssp_config" where
  "load_appserver v c =
     (let appserverName = (case getXmlAttribute v ''name'' of None \<Rightarrow> tree_data v | Some n \<Rightarrow> n);
          as = \<lparr>as_address = tree_data v, as_eventSocketPort = get_int v [''event-socket-port''] 8021\<rparr>
      in if map_of (m_mapAppserver c) appserverName = None
         then (True, c\<lparr>m_mapAppserver := assoc_insert appserverName as (m_mapAppserver c)\<rparr>)
         else (False, c))"

fun group_members ::
  "(string, Appserver_t) assoc \<Rightarrow> (string \<times> ptree) list \<Rightarrow> Appserver_t list \<Rightarrow> Appserver_t list option" where
  "group_members servers [] s = Some s"
| "group_members servers ((k, v2) # vs) s =
     (if k = ''appserver'' then
        (case map_of servers (tree_data v2) of
           None \<Rightarrow> None
         | Some as \<Rightarrow> group_members servers vs (List.insert as s))
      else group_members servers vs s)"

definition load_appserver_group :: "ptree \<Rightarrow> ssp_config \<Rightarrow> bool \<times> ssp_config" where
  "load_appserver_group v c =
     (case getXmlAttribute v ''name'' of
        None \<Rightarrow> (False, c)
      | Some name \<Rightarrow>
          (case group_members (m_mapAppserver c) (tree_children v) [] of
             None \<Rightarrow> (False, c)
           | Some s \<Rightarrow>
               if map_of (m_mapAppserverGroup c) name = None
               then (True, c\<lparr>m_mapAppserverGroup :=
                 assoc_insert name \<lparr>asg_name = name, asg_setAppserver = s\<rparr> (m_mapAppserverGroup c)\<rparr>)
               else (False, c)))"

fun load_inbound :: "(string \<times> ptree) list \<Rightarrow> ssp_config \<Rightarrow> bool \<times> ssp_config" where
  "load_inbound [] c = (True, c)"
| "load_inbound ((k, v) # vs) c =
     (let (fine, c1) =
        (if k = ''appserver'' then load_appserver v c
         else if k = ''appserver-group'' then load_appserver_group v c
         else (True, c))
      in if fine then load_inbound vs c1 else (False, c1))"

section \<open>Customers and carriers\<close>

text \<open>An \<open>unordered_set\<close> of number ranges keeps the first of two equal ones.\<close>

definition dnis_insert :: "Dnis_t \<Rightarrow> Dnis_t list \<Rightarrow> Dnis_t list" where
  "dnis_insert d ds = (if list_ex (dnis_eq d) ds then ds else ds @ [d])"

fun dnis_members :: "(string \<times> ptree) list \<Rightarrow> Dnis_t list \<Rightarrow> Dnis_t list option" where
  "dnis_members [] ds = Some ds"
| "dnis_members ((k, v2) # vs) ds =
     (if k = ''dnis'' then dnis_members vs (dnis_insert (Dnis_single (tree_data v2)) ds)
      else if k = ''dnis-block'' then
        (case (get_child v2 [''first''], get_child v2 [''last'']) of
           (Some f, Some l) \<Rightarrow> dnis_members vs (dnis_insert (Dnis_block (tree_data f) (tree_data l)) ds)
         | _ \<Rightarrow> None)
      else dnis_members vs ds)"

definition load_dnis_list :: "ptree \<Rightarrow> ssp_config \<Rightarrow> bool \<times> ssp_config" where
  "load_dnis_list v c =
     (case getXmlAttribute v ''name'' of
        None \<Rightarrow> (False, c)
      | Some name \<Rightarrow>
          (case dnis_members (tree_children v) [] of
             None \<Rightarrow> (False, c)
           | Some ds \<Rightarrow>
               if map_of (m_mapCustomerDnis c) name = None
               then (True, c\<lparr>m_mapCustomerDnis := assoc_insert name ds (m_mapCustomerDnis c)\<rparr>)
               else (False, c)))"

fun load_carrier_addresses :: "string \<Rightarrow> (string \<times> ptree) list \<Rightarrow> ssp_config \<Rightarrow> bool \<times> ssp_config" where
  "load_carrier_addresses name [] c = (True, c)"
| "load_carrier_addresses name ((k, v2) # vs) c =
     (if k = ''address'' then
        let a = CarrierAddressSpace name (tree_data v2) (get_int v2 [''<xmlattr>'', ''port''] 5060)
              (get_string v2 [''<xmlattr>'', ''netmask''] ''255.255.255.255'') 1
        in if map_of (m_mapInboundCarrier c) (m_address a) = None
           then load_carrier_addresses name vs
             (c\<lparr>m_mapInboundCarrier := assoc_insert (m_address a) a (m_mapInboundCarrier c)\<rparr>)
           else (False, c)
      else load_carrier_addresses name vs c)"

definition load_carrier_inbound :: "string \<Rightarrow> ptree \<Rightarrow> ssp_config \<Rightarrow> bool \<times> ssp_config" where
  "load_carrier_inbound name v c =
     (case get_child v [''inbound''] of
        None \<Rightarrow> (True, c)
      | Some t \<Rightarrow> load_carrier_addresses name (tree_children t) c)"

text \<open>The trunks of the outbound section, without those marked inactive.\<close>

fun outbound_trunks :: "string \<Rightarrow> (string \<times> ptree) list \<Rightarrow> CarrierAddressSpace_t list" where
  "outbound_trunks name [] = []"
| "outbound_trunks name ((k, v2) # vs) =
     (if k = ''address'' \<and> get_string v2 [''<xmlattr>'', ''status''] ''active'' \<noteq> ''inactive''
      then CarrierAddressSpace name (tree_data v2) (get_int v2 [''<xmlattr>'', ''port''] 5060)
             ''255.255.255.255'' (get_unsigned v2 [''<xmlattr>'', ''qty''] 1) # outbound_trunks name vs
      else outbound_trunks name vs)"

text \<open>\<open>std::map::insert\<close>: the map stays sorted by key and an existing key keeps its value.\<close>

fun map_insert :: "'k::linorder \<Rightarrow> 'v \<Rightarrow> ('k, 'v) assoc \<Rightarrow> ('k, 'v) assoc" where
  "map_insert k v [] = [(k, v)]"
| "map_insert k v ((k', v') # m) =
     (if k < k' then (k, v) # (k', v') # m
      else if k = k' then (k', v') # m
      else (k', v') # map_insert k v m)"

definition load_carrier_outbound :: "string \<Rightarrow> ptree \<Rightarrow> ssp_config \<Rightarrow> ssp_config" where
  "load_carrier_outbound name v c =
     (if get_string v [''outbound'', ''<xmlattr>'', ''status''] ''active'' = ''active'' then
        let qty = (get_unsigned v [''outbound'', ''<xmlattr>'', ''qty''] 1 :: u32);
            chargeNumber = get_string v [''outbound'', ''<xmlattr>'', ''charge-number''] []
        in case get_child v [''outbound''] of
             None \<Rightarrow> c
           | Some t \<Rightarrow>
               (case outbound_trunks name (tree_children t) of
                  [] \<Rightarrow> c
                | vecTrunks \<Rightarrow>
                    c\<lparr>m_mapTerminationCarrierByName :=
                        map_insert name (TerminationRoute vecTrunks chargeNumber)
                          (m_mapTerminationCarrierByName c),
                      m_vecTerminationCarrier :=
                        m_vecTerminationCarrier c @ replicate (unat qty) name\<rparr>)
      else c)"

definition load_carrier :: "ptree \<Rightarrow> ssp_config \<Rightarrow> bool \<times> ssp_config" where
  "load_carrier v c =
     (case getXmlAttribute v ''name'' of
        None \<Rightarrow> (False, c)
      | Some name \<Rightarrow>
          (let (fine, c1) = load_carrier_inbound name v c
           in if fine then (True, load_carrier_outbound name v c1) else (False, c1)))"

fun load_ssp :: "(string \<times> ptree) list \<Rightarrow> ssp_config \<Rightarrow> bool \<times> ssp_config" where
  "load_ssp [] c = (True, c)"
| "load_ssp ((k, v) # vs) c =
     (let (fine, c1) =
        (if k = ''dnis-list'' then load_dnis_list v c
         else if k = ''carrier'' then load_carrier v c
         else (True, c))
      in if fine then load_ssp vs c1 else (False, c1))"

section \<open>The constructor\<close>

definition check_loaded :: "ssp_config \<Rightarrow> ssp_config" where
  "check_loaded c =
     (if length (m_vecTerminationCarrier c) = 0 then c
      else if length (m_mapAppserver c) = 0 then c
      else c\<lparr>m_bIsValid := True\<rparr>)"

definition Impl :: "config_file \<Rightarrow> ssp_config" where
  "Impl file =
     (case file of
        CannotOpen \<Rightarrow> initial_config
      | Malformed \<Rightarrow> initial_config
      | Parsed pt \<Rightarrow>
          let c = load_sip pt (load_cdr pt (load_logging pt (load_stats pt initial_config)))
          in case get_child pt [''ssp'', ''inbound''] of
               None \<Rightarrow> c
             | Some inbound \<Rightarrow>
                 (let (fine, c1) = load_inbound (tree_children inbound) c
                  in if \<not> fine then c1
                     else case get_child pt [''ssp''] of
                       None \<Rightarrow> c1
                     | Some ssp \<Rightarrow>
                         (let (fine, c2) = load_ssp (tree_children ssp) c1
                          in if fine then check_loaded c2 else c2)))"

section \<open>What every step of the loading keeps\<close>

lemma map_of_map_insert: "map_of (map_insert k v m) =
    (if k \<in> fst ` set m then map_of m else (map_of m)(k \<mapsto> v))" if "sorted (map fst m)"
  using that
proof (induction k v m rule: map_insert.induct)
  case (2 k v k' v' m)
  show ?case
  proof (cases "k < k'")
    case True
    with "2.prems" have "k \<notin> fst ` set ((k', v') # m)" by (auto dest: leD)
    with True show ?thesis by simp
  next
    case False
    with 2 show ?thesis by (auto simp: fun_upd_twist)
  qed
qed simp

lemma keys_map_insert [simp]: "fst ` set (map_insert k v m) = insert k (fst ` set m)"
  by (induction k v m rule: map_insert.induct) auto

lemma map_insert_sorted:
  "sorted (map fst m) \<and> distinct (map fst m) \<Longrightarrow>
   sorted (map fst (map_insert k v m)) \<and> distinct (map fst (map_insert k v m))"
proof (induction k v m rule: map_insert.induct)
  case (2 k v k' v' m)
  moreover have "set (map fst (map_insert k v m)) = insert k (fst ` set m)"
    by (simp add: image_set [symmetric] del: image_set)
  ultimately show ?case by (auto simp: less_imp_le dest: leD)
qed simp

definition carriers_wf :: "ssp_config \<Rightarrow> bool" where
  "carriers_wf c \<longleftrightarrow>
     sorted (map fst (m_mapTerminationCarrierByName c)) \<and>
     distinct (map fst (m_mapTerminationCarrierByName c)) \<and>
     set (m_vecTerminationCarrier c) \<subseteq> fst ` set (m_mapTerminationCarrierByName c) \<and>
     (\<forall>n r. map_of (m_mapTerminationCarrierByName c) n = Some r \<longrightarrow> route_ok r) \<and>
     m_nCurrentTerminationCarrier c = 0"

lemma carriers_wf_config: "carriers_wf c \<Longrightarrow> m_vecTerminationCarrier c \<noteq> [] \<Longrightarrow> config_wf c"
  by (auto simp: carriers_wf_def config_wf_def assoc_wf_def)

text \<open>The part of the object that only the carrier section writes.\<close>

definition same_carriers :: "ssp_config \<Rightarrow> ssp_config \<Rightarrow> bool" where
  "same_carriers c c' \<longleftrightarrow>
     m_mapTerminationCarrierByName c' = m_mapTerminationCarrierByName c \<and>
     m_vecTerminationCarrier c' = m_vecTerminationCarrier c \<and>
     m_nCurrentTerminationCarrier c' = m_nCurrentTerminationCarrier c"

lemma carriers_wf_same: "same_carriers c c' \<Longrightarrow> carriers_wf c \<Longrightarrow> carriers_wf c'"
  by (simp add: same_carriers_def carriers_wf_def)

lemma same_carriers_trans: "same_carriers a b \<Longrightarrow> same_carriers b c \<Longrightarrow> same_carriers a c"
  by (simp add: same_carriers_def)

lemma load_scalars_same:
  "same_carriers initial_config (load_sip pt (load_cdr pt (load_logging pt (load_stats pt initial_config))))"
  by (simp add: same_carriers_def load_sip_def load_cdr_def load_logging_def load_stats_def
      split: option.splits)

lemma load_inbound_same: "same_carriers c (snd (load_inbound vs c))"
proof (induction vs arbitrary: c)
  case (Cons kv vs)
  have step: "same_carriers c (snd (load_appserver v c))"
    "same_carriers c (snd (load_appserver_group v c))" "same_carriers c c" for v
    by (simp_all add: same_carriers_def load_appserver_def load_appserver_group_def Let_def
        split: option.splits)
  show ?case
    by (cases kv) (auto simp: Let_def split_beta step intro: same_carriers_trans [OF step(1) Cons.IH]
        same_carriers_trans [OF step(2) Cons.IH] Cons.IH)
qed (simp add: same_carriers_def)

lemma load_dnis_list_same: "same_carriers c (snd (load_dnis_list v c))"
  by (simp add: same_carriers_def load_dnis_list_def split: option.splits)

lemma load_carrier_inbound_same: "same_carriers c (snd (load_carrier_inbound name v c))"
proof -
  have "same_carriers c (snd (load_carrier_addresses name vs c))" for vs
    by (induction name vs c rule: load_carrier_addresses.induct)
      (auto simp: same_carriers_def Let_def)
  then show ?thesis
    by (simp add: load_carrier_inbound_def same_carriers_def split: option.splits)
qed

lemma route_ok_new: "ts \<noteq> [] \<Longrightarrow> route_ok (TerminationRoute ts charge)"
  by (simp add: route_ok_def TerminationRoute_def)

lemma load_carrier_outbound_wf:
  assumes wf: "carriers_wf c"
  shows "carriers_wf (load_carrier_outbound name v c)"
proof -
  have "carriers_wf (c\<lparr>m_mapTerminationCarrierByName :=
        map_insert name (TerminationRoute ts charge) (m_mapTerminationCarrierByName c),
      m_vecTerminationCarrier := m_vecTerminationCarrier c @ replicate q name\<rparr>)"
    if "ts \<noteq> []" for ts charge q
    using wf that map_insert_sorted [of "m_mapTerminationCarrierByName c" name "TerminationRoute ts charge"]
    by (auto simp: carriers_wf_def map_of_map_insert route_ok_new split: if_splits)
  with wf show ?thesis
    by (auto simp: load_carrier_outbound_def Let_def split: option.splits list.splits)
qed

lemma load_carrier_wf: "carriers_wf c \<Longrightarrow> carriers_wf (snd (load_carrier v c))"
  using carriers_wf_same [OF load_carrier_inbound_same]
  by (auto simp: load_carrier_def Let_def split_beta load_carrier_outbound_wf split: option.splits)

lemma load_ssp_wf: "carriers_wf c \<Longrightarrow> carriers_wf (snd (load_ssp vs c))"
proof (induction vs arbitrary: c)
  case (Cons kv vs)
  from Cons.prems have "carriers_wf (snd (load_dnis_list v c))" "carriers_wf (snd (load_carrier v c))" for v
    by (rule carriers_wf_same [OF load_dnis_list_same], rule load_carrier_wf)
  with Cons show ?case by (cases kv) (simp add: Let_def split_beta)
qed simp

lemma carriers_wf_initial: "carriers_wf initial_config"
  by (simp add: carriers_wf_def initial_config_def)

lemma carriers_wf_scalars:
  "carriers_wf (load_sip pt (load_cdr pt (load_logging pt (load_stats pt initial_config))))"
  by (rule carriers_wf_same [OF load_scalars_same carriers_wf_initial])

lemma carriers_wf_inbound: "carriers_wf c \<Longrightarrow> carriers_wf (snd (load_inbound vs c))"
  by (rule carriers_wf_same [OF load_inbound_same])

lemma carriers_wf_check [simp]: "carriers_wf (check_loaded c) \<longleftrightarrow> carriers_wf c"
  by (simp add: check_loaded_def carriers_wf_def)

lemma Impl_wf: "carriers_wf (Impl file)"
  unfolding Impl_def Let_def split_beta
  by (simp add: carriers_wf_initial carriers_wf_scalars carriers_wf_inbound load_ssp_wf
      split: config_file.split option.split)

text \<open>The settings outside the tables, which the sections of the tables do not touch.\<close>

definition settings :: "ssp_config \<Rightarrow> ssp_config" where
  "settings c = c\<lparr>m_mapCustomerDnis := [], m_mapInboundCarrier := [],
     m_mapTerminationCarrierByName := [], m_vecTerminationCarrier := [],
     m_mapAppserver := [], m_mapAppserverGroup := []\<rparr>"

lemma settings_fields:
  assumes "settings c' = settings c"
  shows "m_bIsValid c' = m_bIsValid c" "m_syslogAddress c' = m_syslogAddress c"
    "m_sysLogPort c' = m_sysLogPort c"
  using arg_cong [OF assms, of m_bIsValid] arg_cong [OF assms, of m_syslogAddress]
    arg_cong [OF assms, of m_sysLogPort]
  by (simp_all add: settings_def)

lemma load_inbound_settings: "settings (snd (load_inbound vs c)) = settings c"
proof (induction vs arbitrary: c)
  case (Cons kv vs)
  have "settings (snd (load_appserver v c)) = settings c"
    "settings (snd (load_appserver_group v c)) = settings c" for v
    by (auto simp: settings_def load_appserver_def load_appserver_group_def Let_def split: option.splits)
  with Cons show ?case by (cases kv) (simp add: Let_def split_beta)
qed simp

lemma load_carrier_addresses_settings:
  "settings (snd (load_carrier_addresses name vs c)) = settings c"
  by (induction name vs c rule: load_carrier_addresses.induct) (auto simp: Let_def settings_def)

lemma load_carrier_outbound_settings: "settings (load_carrier_outbound name v c) = settings c"
  by (auto simp: load_carrier_outbound_def settings_def Let_def split: option.splits list.splits)

lemma load_ssp_settings: "settings (snd (load_ssp vs c)) = settings c"
proof (induction vs arbitrary: c)
  case (Cons kv vs)
  have "settings (snd (load_carrier v c)) = settings c" for v
    by (auto simp: load_carrier_def load_carrier_inbound_def load_carrier_outbound_settings
        load_carrier_addresses_settings Let_def split_beta split: option.splits)
  moreover have "settings (snd (load_dnis_list v c)) = settings c" for v
    by (auto simp: load_dnis_list_def settings_def split: option.splits)
  ultimately show ?case using Cons by (cases kv) (simp add: Let_def split_beta)
qed simp

text \<open>A file that is accepted runs through every section.\<close>

lemma Impl_valid:
  assumes "m_bIsValid (Impl file)"
  obtains pt inbound ssp c1 c2 where "file = Parsed pt"
    "get_child pt [''ssp'', ''inbound''] = Some inbound" "get_child pt [''ssp''] = Some ssp"
    "load_inbound (tree_children inbound)
       (load_sip pt (load_cdr pt (load_logging pt (load_stats pt initial_config)))) = (True, c1)"
    "load_ssp (tree_children ssp) c1 = (True, c2)"
    "m_vecTerminationCarrier c2 \<noteq> []" "m_mapAppserver c2 \<noteq> []" "Impl file = c2\<lparr>m_bIsValid := True\<rparr>"
proof -
  have init: "\<not> m_bIsValid (load_sip pt (load_cdr pt (load_logging pt (load_stats pt initial_config))))" for pt
    by (simp add: load_sip_def load_cdr_def load_logging_def load_stats_def initial_config_def
        split: option.splits)
  obtain pt where pt: "file = Parsed pt"
    using assms by (cases "file") (simp_all add: Impl_def initial_config_def)
  define c where "c = load_sip pt (load_cdr pt (load_logging pt (load_stats pt initial_config)))"
  have c: "\<not> m_bIsValid c" using init by (simp add: c_def)
  from assms c obtain inbound where i: "get_child pt [''ssp'', ''inbound''] = Some inbound"
    unfolding Impl_def pt by (auto simp: Let_def c_def simp del: get_child.simps split: option.splits)
  obtain f1 c1 where 1: "load_inbound (tree_children inbound) c = (f1, c1)" by fastforce
  have c1: "\<not> m_bIsValid c1" using settings_fields(1) [OF load_inbound_settings, of "tree_children inbound" c] 1 c by simp
  from assms i 1 c1 obtain ssp where s: "f1" "get_child pt [''ssp''] = Some ssp"
    unfolding Impl_def pt
    by (auto simp: Let_def c_def simp del: get_child.simps split: option.splits if_splits)
  obtain f2 c2 where 2: "load_ssp (tree_children ssp) c1 = (f2, c2)" by fastforce
  have "\<not> m_bIsValid c2" using settings_fields(1) [OF load_ssp_settings, of "tree_children ssp" c1] 2 c1 by simp
  moreover have "Impl file = (if f2 then check_loaded c2 else c2)"
    unfolding Impl_def pt using i 1 s 2 by (simp add: Let_def c_def del: get_child.simps)
  ultimately show thesis
    using that [OF pt i s(2), of c1 c2] assms 1 2 s(1)
    by (auto simp: c_def check_loaded_def split: if_splits)
qed

section \<open>The order of the carriers\<close>

text \<open>The entries a carrier element adds to the rotation: its name, as often as its quantity.\<close>

definition carrier_entries :: "ptree \<Rightarrow> string list" where
  "carrier_entries v =
     (case (getXmlAttribute v ''name'', get_child v [''outbound'']) of
        (Some name, Some t) \<Rightarrow>
          if get_string v [''outbound'', ''<xmlattr>'', ''status''] ''active'' = ''active'' \<and>
             outbound_trunks name (tree_children t) \<noteq> []
          then replicate (unat (get_unsigned v [''outbound'', ''<xmlattr>'', ''qty''] 1 :: u32)) name
          else []
      | _ \<Rightarrow> [])"

lemma load_carrier_entries:
  assumes "load_carrier v c = (True, c')"
  shows "m_vecTerminationCarrier c' = m_vecTerminationCarrier c @ carrier_entries v"
proof -
  obtain name where name: "getXmlAttribute v ''name'' = Some name"
    using assms by (auto simp: load_carrier_def split: option.splits)
  let ?c1 = "snd (load_carrier_inbound name v c)"
  have "c' = load_carrier_outbound name v ?c1"
    using assms name by (auto simp: load_carrier_def Let_def split_beta split: if_splits)
  moreover have "m_vecTerminationCarrier ?c1 = m_vecTerminationCarrier c"
    using load_carrier_inbound_same by (simp add: same_carriers_def)
  ultimately show ?thesis
    using name
    by (simp add: load_carrier_outbound_def carrier_entries_def Let_def split: option.splits list.splits)
qed

lemma load_ssp_entries:
  "load_ssp vs c = (True, c') \<Longrightarrow>
   m_vecTerminationCarrier c' = m_vecTerminationCarrier c @
     concat (map (\<lambda>(k, v). if k = ''carrier'' then carrier_entries v else []) vs)"
proof (induction vs arbitrary: c)
  case (Cons kv vs)
  obtain k v where kv: "kv = (k, v)" by (cases kv)
  obtain f1 c1 where 1: "(if k = ''dnis-list'' then load_dnis_list v c
      else if k = ''carrier'' then load_carrier v c else (True, c)) = (f1, c1)" by fastforce
  with Cons.prems kv have "f1" "load_ssp vs c1 = (True, c')" by (auto split: if_splits)
  moreover have "m_vecTerminationCarrier (snd (load_dnis_list v c)) = m_vecTerminationCarrier c"
    using load_dnis_list_same by (simp add: same_carriers_def)
  ultimately show ?case
    using Cons.IH [of c1] 1 kv load_carrier_entries [of v c c1] by (auto split: if_splits)
qed simp

section \<open>Properties\<close>

text \<open>
  C24. A configuration file that is accepted can be routed with: it names at least one application
  server and one termination carrier, the routing tables are well formed, and the first call that
  leaves finds a route that belongs to a configured carrier.
\<close>

theorem accepted_file_routes:
  assumes "m_bIsValid (Impl file)"
  shows "config_wf (Impl file) \<and> m_mapAppserver (Impl file) \<noteq> [] \<and>
    (\<exists>rt c'. getTerminationRoute (Impl file) = Ret (Some rt, c') \<and>
       valid_route (Impl file) rt \<and> config_wf c')"
proof -
  from assms obtain c2 where ne: "m_vecTerminationCarrier (Impl file) \<noteq> []"
    and servers: "m_mapAppserver (Impl file) \<noteq> []"
    by (rule Impl_valid) simp
  have wf: "config_wf (Impl file)" by (rule carriers_wf_config [OF Impl_wf ne])
  obtain rt c' where "getTerminationRoute (Impl file) = Ret (Some rt, c')"
    "valid_route (Impl file) rt" "config_wf c'"
    using getTerminationRoute_ok [OF wf ne] by metis
  with wf servers show ?thesis by blast
qed

text \<open>A small configuration file.\<close>

definition leaf :: "string \<Rightarrow> ptree" where
  "leaf s = PTree s []"

definition attrs :: "(string \<times> string) list \<Rightarrow> string \<times> ptree" where
  "attrs as = (''<xmlattr>'', PTree [] (map (\<lambda>(k, v). (k, leaf v)) as))"

definition example_carrier :: "string \<Rightarrow> string \<Rightarrow> string \<Rightarrow> ptree" where
  "example_carrier name address qty = PTree []
     [attrs [(''name'', name)],
      (''outbound'', PTree [] [attrs [(''qty'', qty)], (''address'', leaf address)])]"

definition example_file :: ptree where
  "example_file = PTree [] [(''ssp'', PTree []
     [(''logging'', PTree [] [(''syslog'', PTree []
         [(''address'', leaf ''10.1.1.1''), (''port'', leaf ''514'')])]),
      (''inbound'', PTree [] [(''appserver'', leaf ''10.10.10.5'')]),
      (''carrier'', example_carrier ''level3'' ''172.21.3.96'' ''1''),
      (''carrier'', example_carrier ''intermetro'' ''10.10.10.1'' ''2'')])]"

lemmas load_eval = Impl_def load_stats_def load_logging_def load_cdr_def load_sip_def
  load_appserver_def load_appserver_group_def load_carrier_def load_carrier_inbound_def
  load_carrier_outbound_def load_dnis_list_def check_loaded_def get_string_def get_unsigned_def
  get_int_def getXmlAttribute_def read_unsigned_def read_int_def scan_number_def scan_digits_def
  example_file_def example_carrier_def attrs_def leaf_def initial_config_def assoc_insert_def
  CarrierAddressSpace_def Let_def

lemma example_file_valid: "m_bIsValid (Impl (Parsed example_file))"
  by (simp add: load_eval string_eval)

theorem accepted_file_routes_witness:
  "\<exists>rt c'. getTerminationRoute (Impl (Parsed example_file)) = Ret (Some rt, c') \<and>
     valid_route (Impl (Parsed example_file)) rt"
  using accepted_file_routes [OF example_file_valid] by blast

text \<open>
  The rotation of an accepted file is the list of its carriers in the order of the file: each
  carrier with an active outbound section and at least one active address stands there as many
  times as its \<open>qty\<close> says, one after the other, and no other carrier does.
\<close>

theorem rotation_from_file:
  assumes "m_bIsValid (Impl (Parsed pt))" and "get_child pt [''ssp''] = Some ssp"
  shows "m_vecTerminationCarrier (Impl (Parsed pt)) =
    concat (map (\<lambda>(k, v). if k = ''carrier'' then carrier_entries v else []) (tree_children ssp))"
proof -
  from assms(1) obtain inbound c1 c2 where 1: "load_inbound (tree_children inbound)
      (load_sip pt (load_cdr pt (load_logging pt (load_stats pt initial_config)))) = (True, c1)"
    and 2: "load_ssp (tree_children ssp) c1 = (True, c2)"
    and impl: "Impl (Parsed pt) = c2\<lparr>m_bIsValid := True\<rparr>"
    using assms(2) by (elim Impl_valid) (auto simp del: get_child.simps)
  have "same_carriers initial_config c1"
    using same_carriers_trans [OF load_scalars_same load_inbound_same] 1 by (metis snd_conv)
  then have "m_vecTerminationCarrier c1 = []"
    by (simp add: same_carriers_def initial_config_def)
  with load_ssp_entries [OF 2] impl show ?thesis by simp
qed

theorem rotation_from_file_witness:
  "m_vecTerminationCarrier (Impl (Parsed example_file)) = [''level3'', ''intermetro'', ''intermetro'']"
proof -
  have "get_child example_file [''ssp''] = Some (PTree []
     [(''logging'', PTree [] [(''syslog'', PTree []
         [(''address'', leaf ''10.1.1.1''), (''port'', leaf ''514'')])]),
      (''inbound'', PTree [] [(''appserver'', leaf ''10.10.10.5'')]),
      (''carrier'', example_carrier ''level3'' ''172.21.3.96'' ''1''),
      (''carrier'', example_carrier ''intermetro'' ''10.10.10.1'' ''2'')])"
    by (simp add: example_file_def)
  from rotation_from_file [OF example_file_valid this] show ?thesis
    by (simp add: carrier_entries_def load_eval string_eval) (simp add: numeral_2_eq_2)
qed

text \<open>
  The port of the syslog server cannot be configured: it is read from the address element, so
  an address that is no number always leaves port 516, whatever the file says.
\<close>

theorem syslog_port_from_address:
  assumes "m_bIsValid (Impl (Parsed pt))"
    and "read_unsigned (m_syslogAddress (Impl (Parsed pt))) = (None :: u32 option)"
  shows "m_sysLogPort (Impl (Parsed pt)) = 516"
proof -
  let ?c = "load_sip pt (load_cdr pt (load_logging pt (load_stats pt initial_config)))"
  from assms(1) obtain inbound ssp c1 c2 where 1: "load_inbound (tree_children inbound) ?c = (True, c1)"
    and 2: "load_ssp (tree_children ssp) c1 = (True, c2)"
    and impl: "Impl (Parsed pt) = c2\<lparr>m_bIsValid := True\<rparr>"
    by (elim Impl_valid) auto
  have "settings c2 = settings ?c"
    using load_inbound_settings [of "tree_children inbound" ?c] load_ssp_settings [of "tree_children ssp" c1] 1 2
    by simp
  note same = settings_fields(2,3) [OF this]
  have "m_syslogAddress ?c = get_string pt [''ssp'', ''logging'', ''syslog'', ''address''] ''localhost''"
    "m_sysLogPort ?c = get_unsigned pt [''ssp'', ''logging'', ''syslog'', ''address''] 516"
    by (simp_all add: load_sip_def load_cdr_def load_logging_def)
  with same impl assms(2) show ?thesis
    by (auto simp: get_unsigned_def get_string_def split: option.splits)
qed

theorem syslog_port_from_address_witness:
  "m_sysLogPort (Impl (Parsed example_file)) = 516"
proof -
  have "read_unsigned (m_syslogAddress (Impl (Parsed example_file))) = (None :: u32 option)"
    by (simp add: load_eval string_eval)
  with syslog_port_from_address [OF example_file_valid] show ?thesis by simp
qed

end
