(* ===== verification/Cdr_Info.thy ===== *)
theory Cdr_Info
  imports Prelude
begin

text \<open>
  \<open>CdrInfo\<close> (\<open>cdr-writer.h\<close>, \<open>cdr-writer.cpp\<close>): one call detail record event with its setters, and
  the text of its times. The setters are unfolded by \<open>cdr_set\<close>.
\<close>

named_theorems cdr_set "setters of a call detail record"

datatype CdrEvent_t =
  origination_request | origination_final_response | origination_cancel | termination_attempt
  | call_cleared

datatype ReleaseCause_t =
  unknown_release_cause | calling_party_release | called_party_release | call_canceled
  | call_rejected_due_to_termination_carriers | call_rejected_due_to_system_error
  | call_rejected_due_to_unauthorized_peer | call_rejected_due_to_being_offline

text \<open>The number an enumerator has, as it is stored in the database.\<close>

fun release_code :: "ReleaseCause_t \<Rightarrow> int" where
  "release_code unknown_release_cause = 0"
| "release_code calling_party_release = 1"
| "release_code called_party_release = 2"
| "release_code call_canceled = 3"
| "release_code call_rejected_due_to_termination_carriers = 4"
| "release_code call_rejected_due_to_system_error = 5"
| "release_code call_rejected_due_to_unauthorized_peer = 6"
| "release_code call_rejected_due_to_being_offline = 7"

record CdrInfo =
  cdr_cdrType :: CdrEvent_t
  cdr_uuid :: string
  cdr_sipStatus :: u32
  cdr_originatingCarrier :: string
  cdr_terminatingCarrier :: string
  cdr_originatingCarrierAddress :: string
  cdr_terminatingCarrierAddress :: string
  cdr_originatingEdgeServerAddress :: string
  cdr_terminatingEdgeServerAddress :: string
  cdr_fsAddress :: string
  cdr_callingPartyNumber :: string
  cdr_calledPartyNumberIn :: string
  cdr_calledPartyNumberOut :: string
  cdr_customerName :: string
  cdr_avokeCallId :: string
  cdr_alegCallId :: string
  cdr_blegCallId :: string
  cdr_clegCallId :: string
  cdr_dlegCallId :: string
  cdr_releaseCause :: ReleaseCause_t
  cdr_tmStart :: time_t
  cdr_tmConnect :: time_t
  cdr_tmEnd :: time_t
  cdr_strSipHdrFrom :: string
  cdr_strSipHdrPAssertedIdentity :: string
  cdr_strSipHdrRemotePartyId :: string

definition CdrInfo_new :: "CdrEvent_t \<Rightarrow> CdrInfo" where
  "CdrInfo_new cdrType =
     \<lparr>cdr_cdrType = cdrType, cdr_uuid = [],
      cdr_sipStatus = 0, cdr_originatingCarrier = [], cdr_terminatingCarrier = [],
      cdr_originatingCarrierAddress = [], cdr_terminatingCarrierAddress = [],
      cdr_originatingEdgeServerAddress = [], cdr_terminatingEdgeServerAddress = [],
      cdr_fsAddress = [], cdr_callingPartyNumber = [], cdr_calledPartyNumberIn = [],
      cdr_calledPartyNumberOut = [], cdr_customerName = [], cdr_avokeCallId = [],
      cdr_alegCallId = [], cdr_blegCallId = [], cdr_clegCallId = [], cdr_dlegCallId = [],
      cdr_releaseCause = unknown_release_cause, cdr_tmStart = 0, cdr_tmConnect = 0,
      cdr_tmEnd = 0, cdr_strSipHdrFrom = [], cdr_strSipHdrPAssertedIdentity = [],
      cdr_strSipHdrRemotePartyId = []\<rparr>"

section \<open>Setters\<close>

definition setCdrType :: "CdrEvent_t \<Rightarrow> CdrInfo \<Rightarrow> CdrInfo" where
  [cdr_set]: "setCdrType ty c = c\<lparr>cdr_cdrType := ty\<rparr>"

definition setUuid :: "string \<Rightarrow> CdrInfo \<Rightarrow> CdrInfo" where
  [cdr_set]: "setUuid str c = c\<lparr>cdr_uuid := str\<rparr>"

definition setOriginatingCarrier :: "string \<Rightarrow> CdrInfo \<Rightarrow> CdrInfo" where
  [cdr_set]: "setOriginatingCarrier str c = c\<lparr>cdr_originatingCarrier := str\<rparr>"

definition setTerminatingCarrier :: "string \<Rightarrow> CdrInfo \<Rightarrow> CdrInfo" where
  [cdr_set]: "setTerminatingCarrier str c = c\<lparr>cdr_terminatingCarrier := str\<rparr>"

definition setOriginatingEdgeServerAddress :: "string \<Rightarrow> CdrInfo \<Rightarrow> CdrInfo" where
  [cdr_set]: "setOriginatingEdgeServerAddress str c = c\<lparr>cdr_originatingEdgeServerAddress := str\<rparr>"

definition setTerminatingEdgeServerAddress :: "string \<Rightarrow> CdrInfo \<Rightarrow> CdrInfo" where
  [cdr_set]: "setTerminatingEdgeServerAddress str c = c\<lparr>cdr_terminatingEdgeServerAddress := str\<rparr>"

definition setFsAddress :: "string \<Rightarrow> CdrInfo \<Rightarrow> CdrInfo" where
  [cdr_set]: "setFsAddress str c = c\<lparr>cdr_fsAddress := str\<rparr>"

definition setOriginatingCarrierAddress :: "string \<Rightarrow> CdrInfo \<Rightarrow> CdrInfo" where
  [cdr_set]: "setOriginatingCarrierAddress str c = c\<lparr>cdr_originatingCarrierAddress := str\<rparr>"

definition setTerminatingCarrierAddress :: "string \<Rightarrow> CdrInfo \<Rightarrow> CdrInfo" where
  [cdr_set]: "setTerminatingCarrierAddress str c = c\<lparr>cdr_terminatingCarrierAddress := str\<rparr>"

definition setCallingPartyNumber :: "string \<Rightarrow> CdrInfo \<Rightarrow> CdrInfo" where
  [cdr_set]: "setCallingPartyNumber str c = c\<lparr>cdr_callingPartyNumber := str\<rparr>"

definition setCalledPartyNumberIn :: "string \<Rightarrow> CdrInfo \<Rightarrow> CdrInfo" where
  [cdr_set]: "setCalledPartyNumberIn str c = c\<lparr>cdr_calledPartyNumberIn := str\<rparr>"

definition setCalledPartyNumberOut :: "string \<Rightarrow> CdrInfo \<Rightarrow> CdrInfo" where
  [cdr_set]: "setCalledPartyNumberOut str c = c\<lparr>cdr_calledPartyNumberOut := str\<rparr>"

definition setCustomerName :: "string \<Rightarrow> CdrInfo \<Rightarrow> CdrInfo" where
  [cdr_set]: "setCustomerName str c = c\<lparr>cdr_customerName := str\<rparr>"

definition setAvokeCallId :: "string \<Rightarrow> CdrInfo \<Rightarrow> CdrInfo" where
  [cdr_set]: "setAvokeCallId str c = c\<lparr>cdr_avokeCallId := str\<rparr>"

definition setALegCallId :: "string \<Rightarrow> CdrInfo \<Rightarrow> CdrInfo" where
  [cdr_set]: "setALegCallId str c = c\<lparr>cdr_alegCallId := str\<rparr>"

definition setBLegCallId :: "string \<Rightarrow> CdrInfo \<Rightarrow> CdrInfo" where
  [cdr_set]: "setBLegCallId str c = c\<lparr>cdr_blegCallId := str\<rparr>"

definition setCLegCallId :: "string \<Rightarrow> CdrInfo \<Rightarrow> CdrInfo" where
  [cdr_set]: "setCLegCallId str c = c\<lparr>cdr_clegCallId := str\<rparr>"

definition setDLegCallId :: "string \<Rightarrow> CdrInfo \<Rightarrow> CdrInfo" where
  [cdr_set]: "setDLegCallId str c = c\<lparr>cdr_dlegCallId := str\<rparr>"

definition setReleaseCause :: "ReleaseCause_t \<Rightarrow> CdrInfo \<Rightarrow> CdrInfo" where
  [cdr_set]: "setReleaseCause cause c = c\<lparr>cdr_releaseCause := cause\<rparr>"

definition setSipStatus :: "u32 \<Rightarrow> CdrInfo \<Rightarrow> CdrInfo" where
  [cdr_set]: "setSipStatus nStatus c = c\<lparr>cdr_sipStatus := nStatus\<rparr>"

definition setTimeStart :: "time_t \<Rightarrow> CdrInfo \<Rightarrow> CdrInfo" where
  [cdr_set]: "setTimeStart t c = c\<lparr>cdr_tmStart := t\<rparr>"

definition setTimeConnect :: "time_t \<Rightarrow> CdrInfo \<Rightarrow> CdrInfo" where
  [cdr_set]: "setTimeConnect t c = c\<lparr>cdr_tmConnect := t\<rparr>"

definition setTimeEnd :: "time_t \<Rightarrow> CdrInfo \<Rightarrow> CdrInfo" where
  [cdr_set]: "setTimeEnd t c = c\<lparr>cdr_tmEnd := t\<rparr>"

definition setSipHdrFrom :: "string \<Rightarrow> CdrInfo \<Rightarrow> CdrInfo" where
  [cdr_set]: "setSipHdrFrom str c = c\<lparr>cdr_strSipHdrFrom := str\<rparr>"

definition setSipHdrPAssertedIdentity :: "string \<Rightarrow> CdrInfo \<Rightarrow> CdrInfo" where
  [cdr_set]: "setSipHdrPAssertedIdentity str c = c\<lparr>cdr_strSipHdrPAssertedIdentity := str\<rparr>"

definition setSipHdrRemotePartyId :: "string \<Rightarrow> CdrInfo \<Rightarrow> CdrInfo" where
  [cdr_set]: "setSipHdrRemotePartyId str c = c\<lparr>cdr_strSipHdrRemotePartyId := str\<rparr>"

section \<open>Times\<close>

text \<open>
  \<open>gmtime\<close> and \<open>strftime\<close> with \<open>%F %T\<close>: the date in the proleptic Gregorian calendar, from the number
  of days counted in eras of 400 years that begin on the first of March, and the time of day.
\<close>

definition civil_from_days :: "int \<Rightarrow> int \<times> int \<times> int" where
  "civil_from_days days =
     (let z = days + 719468;
          era = z div 146097;
          doe = z mod 146097;
          yoe = (doe - doe div 1460 + doe div 36524 - doe div 146096) div 365;
          doy = doe - (365 * yoe + yoe div 4 - yoe div 100);
          mp = (5 * doy + 2) div 153;
          d = doy - (153 * mp + 2) div 5 + 1;
          m = (if mp < 10 then mp + 3 else mp - 9);
          y = yoe + era * 400 + (if m \<le> 2 then 1 else 0)
      in (y, m, d))"

definition pad2 :: "int \<Rightarrow> string" where
  "pad2 n = (if n < 10 then ''0'' else []) @ show_nat (nat n)"

definition strftime :: "time_t \<Rightarrow> string" where
  "strftime t =
     (let (y, m, d) = civil_from_days (t div 86400); s = t mod 86400
      in show_nat (nat y) @ ''-'' @ pad2 m @ ''-'' @ pad2 d @ '' '' @
         pad2 (s div 3600) @ '':'' @ pad2 (s div 60 mod 60) @ '':'' @ pad2 (s mod 60))"

text \<open>The formatted times; the string stays empty when the time was not set.\<close>

definition getTimeStartFormatted :: "CdrInfo \<Rightarrow> string" where
  "getTimeStartFormatted c = (if cdr_tmStart c = 0 then [] else strftime (cdr_tmStart c))"

definition getTimeConnectFormatted :: "CdrInfo \<Rightarrow> string" where
  "getTimeConnectFormatted c = (if cdr_tmConnect c = 0 then [] else strftime (cdr_tmConnect c))"

definition getTimeEndFormatted :: "CdrInfo \<Rightarrow> string" where
  "getTimeEndFormatted c = (if cdr_tmEnd c = 0 then [] else strftime (cdr_tmEnd c))"

end
