(* ===== verification/Sip.thy ===== *)
theory Sip
  imports Cdr_Info
begin

text \<open>
  SIP messages as the controller sees them through the \<open>sip_t\<close> of sofia-sip, and the operations of
  \<open>SipLbController\<close> on messages alone (\<open>ssp-controller.cpp\<close>): validation, the test for anonymous
  calls, custom headers, the outgoing From, To and Contact, and filling in call detail records. A
  pointer that may be \<open>NULL\<close> is an option, and using a \<open>NULL\<close> pointer is \<open>Undefined\<close>. Headers that
  are only copied from one message to another are not listed: an action that copies them carries
  the message they come from.
\<close>

section \<open>Messages\<close>

datatype sip_method =
  sip_method_invite | sip_method_ack | sip_method_cancel | sip_method_bye | sip_method_options
  | sip_method_other string

record sip_url =
  url_user :: "string option"
  url_host :: "string option"
  url_port :: "string option"

record sip_addr =
  a_display :: "string option"
  a_url :: sip_url
  a_tag :: "string option"

record sip_t =
  sip_request :: "sip_method option"
  sip_status :: "(int \<times> string) option"
  sip_cseq :: "sip_method option"
  sip_call_id :: "string option"
  sip_contact :: "sip_addr option"
  sip_to :: "sip_addr option"
  sip_from :: "sip_addr option"
  sip_payload :: "string option"
  sip_session_expires :: bool
  sip_min_se :: "u64 option"
  sip_unknown :: "(string \<times> string) list"
  sip_p_asserted_identity :: "sip_url option"
  sip_remote_party_id :: "sip_url option"

abbreviation X_SESSION_UUID :: string where
  "X_SESSION_UUID \<equiv> ''X-Session-uuid''"

abbreviation X_AVOKE_BROWSER :: string where
  "X_AVOKE_BROWSER \<equiv> ''X-Avoke-Browser''"

abbreviation X_AVOKE_CALL_ID :: string where
  "X_AVOKE_CALL_ID \<equiv> ''X-Avoke-Call-ID''"

text \<open>\<open>sip->sip_contact->m_url[0].url_host\<close> and the like, each with its dereferences.\<close>

definition contact_host :: "sip_t \<Rightarrow> string outcome" where
  "contact_host sip = deref (sip_contact sip) (\<lambda>m. deref (url_host (a_url m)) Ret)"

definition to_user :: "sip_t \<Rightarrow> string outcome" where
  "to_user sip = deref (sip_to sip) (\<lambda>a. deref (url_user (a_url a)) Ret)"

definition call_id :: "sip_t \<Rightarrow> string outcome" where
  "call_id sip = deref (sip_call_id sip) Ret"

section \<open>Validation and classification\<close>

definition validateSipMessage :: "sip_t \<Rightarrow> int" where
  "validateSipMessage sip =
     (if sip_request sip = Some sip_method_invite \<and>
         (case sip_contact sip of None \<Rightarrow> True | Some m \<Rightarrow> url_host (a_url m) = None) then 400
      else if sip_call_id sip = None then 400
      else if sip_request sip = Some sip_method_invite \<and>
         (case sip_to sip of None \<Rightarrow> True | Some a \<Rightarrow> url_user (a_url a) = None) then 400
      else if sip_request sip = Some sip_method_invite \<and>
         (case sip_from sip of None \<Rightarrow> True | Some a \<Rightarrow> a_tag a = None) then 400
      else 0)"

text \<open>A user part that is not empty and consists of digits and plus signs only.\<close>

definition phone_number :: "string option \<Rightarrow> bool" where
  "phone_number user =
     (case user of
        None \<Rightarrow> False
      | Some u \<Rightarrow> u \<noteq> [] \<and> list_all (\<lambda>c. c \<in> set ''+0123456789'') u)"

definition isAnonymousCall :: "sip_t \<Rightarrow> bool" where
  "isAnonymousCall sip =
     (if (case sip_p_asserted_identity sip of None \<Rightarrow> False | Some u \<Rightarrow> phone_number (url_user u)) then False
      else if (case sip_remote_party_id sip of None \<Rightarrow> False | Some u \<Rightarrow> phone_number (url_user u)) then False
      else if (case sip_from sip of None \<Rightarrow> False | Some a \<Rightarrow> phone_number (url_user (a_url a))) then False
      else True)"

definition findCustomHeaderValue :: "sip_t \<Rightarrow> string \<Rightarrow> string option" where
  "findCustomHeaderValue sip szHeaderName = map_of (sip_unknown sip) szHeaderName"

section \<open>Outgoing headers\<close>

text \<open>The agent's own contact: its host and, if it has one, its port.\<close>

record agent_contact =
  my_host :: string
  my_port :: "string option"

definition outgoing_addr :: "agent_contact \<Rightarrow> sip_addr \<Rightarrow> string" where
  "outgoing_addr my a =
     (case a_display a of None \<Rightarrow> [] | Some d \<Rightarrow> d) @ ''<sip:'' @
     (case url_user (a_url a) of None \<Rightarrow> [] | Some u \<Rightarrow> u @ ''@'') @ my_host my @
     (case my_port my of None \<Rightarrow> [] | Some p \<Rightarrow> if p = [] then [] else '':'' @ p) @ ''>''"

definition generateOutgoingFrom :: "agent_contact \<Rightarrow> sip_t \<Rightarrow> string outcome" where
  "generateOutgoingFrom my sip = deref (sip_from sip) (\<lambda>a. Ret (outgoing_addr my a))"

definition generateOutgoingTo :: "agent_contact \<Rightarrow> sip_t \<Rightarrow> string outcome" where
  "generateOutgoingTo my sip = deref (sip_to sip) (\<lambda>a. Ret (outgoing_addr my a))"

definition generateOutgoingContact :: "agent_contact \<Rightarrow> sip_t \<Rightarrow> string outcome" where
  "generateOutgoingContact my sip = deref (sip_contact sip) (\<lambda>a. Ret (outgoing_addr my a))"

section \<open>Call detail records\<close>

definition populateOriginationCdr ::
  "agent_contact \<Rightarrow> string \<Rightarrow> time_t \<Rightarrow> sip_t \<Rightarrow> string \<Rightarrow> CdrInfo \<Rightarrow> CdrInfo outcome" where
  "populateOriginationCdr my uuid now sip carrier c =
     (let c1 = setOriginatingCarrier carrier (setTimeStart now
                 (setCdrType origination_request (setUuid uuid c)))
      in deref (sip_contact sip) (\<lambda>contact.
           let c2 = (case url_host (a_url contact) of None \<Rightarrow> c1 | Some h \<Rightarrow> setOriginatingCarrierAddress h c1)
           in deref (sip_call_id sip) (\<lambda>i.
             let c3 = setOriginatingEdgeServerAddress (my_host my) (setALegCallId i c2)
             in deref (sip_to sip) (\<lambda>a.
               let c4 = (case url_user (a_url a) of None \<Rightarrow> c3 | Some u \<Rightarrow> setCalledPartyNumberIn u c3)
               in deref (sip_from sip) (\<lambda>f.
                 let c5 = (case url_user (a_url f) of None \<Rightarrow> c4 | Some u \<Rightarrow> setCallingPartyNumber u c4)
                 in Ret (if cdr_sipStatus c5 \<noteq> 0
                         then setReleaseCause call_rejected_due_to_system_error c5 else c5))))))"

definition populateTerminationCdr ::
  "agent_contact \<Rightarrow> time_t \<Rightarrow> sip_t \<Rightarrow> string \<Rightarrow> string \<Rightarrow> string \<Rightarrow> string \<Rightarrow> string \<Rightarrow> CdrInfo \<Rightarrow>
   CdrInfo outcome" where
  "populateTerminationCdr my now sip carrier carrierAddress avokeBrowser avokeCallId uuid c =
     obind (call_id sip) (\<lambda>i. obind (to_user sip) (\<lambda>u.
       let c1 = setTerminatingCarrierAddress carrierAddress (setTerminatingCarrier carrier
                  (setTimeStart now (setCdrType termination_attempt (setUuid uuid c))));
           c2 = setCalledPartyNumberOut u (setTerminatingEdgeServerAddress (my_host my)
                  (setCLegCallId i c1));
           c3 = (if avokeBrowser \<noteq> [] then setCustomerName avokeBrowser c2 else c2)
       in Ret (if avokeCallId \<noteq> [] then setAvokeCallId avokeCallId c3 else c3)))"

definition populateFinalResponseCdr :: "time_t \<Rightarrow> u32 \<Rightarrow> CdrInfo \<Rightarrow> CdrInfo" where
  "populateFinalResponseCdr now status c =
     (let c1 = setSipStatus status (setCdrType origination_final_response c)
      in if status = 200 then setTimeConnect now c1
         else setReleaseCause call_rejected_due_to_termination_carriers (setTimeEnd now c1))"

definition populateCancelCdr :: "time_t \<Rightarrow> CdrInfo \<Rightarrow> CdrInfo" where
  "populateCancelCdr now c =
     setReleaseCause call_canceled (setTimeEnd now (setCdrType origination_cancel c))"

definition populateByeCdr :: "time_t \<Rightarrow> bool \<Rightarrow> CdrInfo \<Rightarrow> CdrInfo" where
  "populateByeCdr now callingPartyRelease c =
     setTimeEnd now (setReleaseCause
       (if callingPartyRelease then calling_party_release else called_party_release)
       (setCdrType call_cleared c))"

section \<open>A valid INVITE\<close>

text \<open>What the validation guarantees: every pointer the handlers of an INVITE follow is there.\<close>

lemma valid_invite:
  assumes "validateSipMessage sip = 0" "sip_request sip = Some sip_method_invite"
  obtains contact host i a user f where "sip_contact sip = Some contact" "url_host (a_url contact) = Some host"
    "sip_call_id sip = Some i" "sip_to sip = Some a" "url_user (a_url a) = Some user" "sip_from sip = Some f"
  using assms by (auto simp: validateSipMessage_def split: if_splits option.splits)

end
