(* ===== verification/Bimap.thy ===== *)
theory Bimap
  imports Prelude
begin

text \<open>
  \<open>boost::bimap\<close> with the default set views, as the controller uses it for pairs of transactions
  and pairs of dialogs: the contract as a locale, and association lists as an instance. An
  insertion is refused when either side is already there.
\<close>

locale bimap =
  fixes left_find :: "'m \<Rightarrow> 'a \<Rightarrow> 'b option"
    and right_find :: "'m \<Rightarrow> 'b \<Rightarrow> 'a option"
    and insert :: "'a \<Rightarrow> 'b \<Rightarrow> 'm \<Rightarrow> 'm"
    and left_erase :: "'a \<Rightarrow> 'm \<Rightarrow> 'm"
    and right_erase :: "'b \<Rightarrow> 'm \<Rightarrow> 'm"
    and wf :: "'m \<Rightarrow> bool"
  assumes agree: "wf m \<Longrightarrow> left_find m a = Some b \<longleftrightarrow> right_find m b = Some a"
    and insert_new: "wf m \<Longrightarrow> left_find m a = None \<Longrightarrow> right_find m b = None \<Longrightarrow>
      wf (insert a b m) \<and> left_find (insert a b m) = (left_find m)(a \<mapsto> b)"
    and insert_old: "left_find m a \<noteq> None \<or> right_find m b \<noteq> None \<Longrightarrow> insert a b m = m"
    and left_erase: "wf m \<Longrightarrow> wf (left_erase a m) \<and> left_find (left_erase a m) = (left_find m)(a := None)"
    and right_erase: "wf m \<Longrightarrow> wf (right_erase b m) \<and>
      left_find (right_erase b m) = (\<lambda>a. if left_find m a = Some b then None else left_find m a)"
begin

lemma left_inj: "wf m \<Longrightarrow> left_find m a = Some b \<Longrightarrow> left_find m a' = Some b \<Longrightarrow> a = a'"
  using agree by (metis option.inject)

lemma right_inj: "wf m \<Longrightarrow> right_find m b = Some a \<Longrightarrow> right_find m b' = Some a \<Longrightarrow> b = b'"
  using agree by (metis option.inject)

lemma right_find_insert:
  assumes "wf m" "left_find m a = None" "right_find m b = None"
  shows "right_find (insert a b m) = (right_find m)(b \<mapsto> a)"
proof
  fix b'
  note ins = insert_new [OF assms]
  have "right_find (insert a b m) b' = Some a' \<longleftrightarrow> ((right_find m)(b \<mapsto> a)) b' = Some a'" for a'
    using ins agree [of "insert a b m" a' b'] agree [OF assms(1), of a' b'] agree [OF assms(1), of a b']
      assms(2,3) by (auto split: if_splits)
  then show "right_find (insert a b m) b' = ((right_find m)(b \<mapsto> a)) b'"
    by (metis not_None_eq)
qed

lemma right_find_right_erase:
  assumes "wf m"
  shows "right_find (right_erase b m) = (right_find m)(b := None)"
proof
  fix b'
  note er = right_erase [OF assms, of b]
  have "right_find (right_erase b m) b' = Some a' \<longleftrightarrow> ((right_find m)(b := None)) b' = Some a'" for a'
    using er agree [of "right_erase b m" a' b'] agree [OF assms, of a' b'] by (auto split: if_splits)
  then show "right_find (right_erase b m) b' = ((right_find m)(b := None)) b'"
    by (metis not_None_eq)
qed

lemma right_find_left_erase:
  assumes "wf m"
  shows "right_find (left_erase a m) = (\<lambda>b. if right_find m b = Some a then None else right_find m b)"
proof
  fix b
  note er = left_erase [OF assms, of a]
  have "right_find (left_erase a m) b = Some a' \<longleftrightarrow>
      (if right_find m b = Some a then None else right_find m b) = Some a'" for a'
    using er agree [of "left_erase a m" a' b] agree [OF assms, of a' b] by (auto split: if_splits)
  then show "right_find (left_erase a m) b = (if right_find m b = Some a then None else right_find m b)"
    by (metis (no_types, lifting) not_None_eq)
qed

end

section \<open>Lists of pairs\<close>

type_synonym ('a, 'b) pairs = "('a \<times> 'b) list"

definition bm_left :: "('a, 'b) pairs \<Rightarrow> 'a \<Rightarrow> 'b option" where
  "bm_left m a = map_of m a"

definition bm_right :: "('a, 'b) pairs \<Rightarrow> 'b \<Rightarrow> 'a option" where
  "bm_right m b = map_of (map prod.swap m) b"

definition bm_insert :: "'a \<Rightarrow> 'b \<Rightarrow> ('a, 'b) pairs \<Rightarrow> ('a, 'b) pairs" where
  "bm_insert a b m = (if bm_left m a \<noteq> None \<or> bm_right m b \<noteq> None then m else m @ [(a, b)])"

definition bm_left_erase :: "'a \<Rightarrow> ('a, 'b) pairs \<Rightarrow> ('a, 'b) pairs" where
  "bm_left_erase a m = filter (\<lambda>(x, y). x \<noteq> a) m"

definition bm_right_erase :: "'b \<Rightarrow> ('a, 'b) pairs \<Rightarrow> ('a, 'b) pairs" where
  "bm_right_erase b m = filter (\<lambda>(x, y). y \<noteq> b) m"

definition bm_wf :: "('a, 'b) pairs \<Rightarrow> bool" where
  "bm_wf m \<longleftrightarrow> distinct (map fst m) \<and> distinct (map snd m)"

lemma bm_left_iff: "bm_wf m \<Longrightarrow> bm_left m a = Some b \<longleftrightarrow> (a, b) \<in> set m"
  by (auto simp: bm_left_def bm_wf_def)

lemma bm_right_iff: "bm_wf m \<Longrightarrow> bm_right m b = Some a \<longleftrightarrow> (a, b) \<in> set m"
proof -
  assume "bm_wf m"
  then have "distinct (map fst (map prod.swap m))" by (simp add: bm_wf_def comp_def)
  then have "bm_right m b = Some a \<longleftrightarrow> (b, a) \<in> set (map prod.swap m)"
    by (auto simp: bm_right_def simp del: map_map)
  then show ?thesis by auto
qed

lemma bm_wf_filter: "bm_wf m \<Longrightarrow> bm_wf (filter P m)"
  by (auto simp: bm_wf_def distinct_map_filter)

lemma option_eqI: "(\<And>x. (p = Some x) = (q = Some x)) \<Longrightarrow> p = q"
  by (metis not_None_eq)

interpretation bm: bimap bm_left bm_right bm_insert bm_left_erase bm_right_erase bm_wf
proof unfold_locales
  fix m :: "('a, 'b) pairs" and a b
  assume wf: "bm_wf m"
  show "(bm_left m a = Some b) = (bm_right m b = Some a)" using wf by (simp add: bm_left_iff bm_right_iff)
  have le: "bm_wf (bm_left_erase a m)" "bm_wf (bm_right_erase b m)"
    using wf by (simp_all add: bm_left_erase_def bm_right_erase_def bm_wf_filter)
  have key: "y = z" if "(x, y) \<in> set m" "(x, z) \<in> set m" for x y z
    using wf that by (metis bm_left_iff option.inject)
  have "bm_left (bm_left_erase a m) x = ((bm_left m)(a := None)) x" for x
  proof (rule option_eqI)
    show "(bm_left (bm_left_erase a m) x = Some y) = (((bm_left m)(a := None)) x = Some y)" for y
      using bm_left_iff [OF le(1), of x y] bm_left_iff [OF wf, of x y] by (simp add: bm_left_erase_def)
  qed
  with le show "bm_wf (bm_left_erase a m) \<and> bm_left (bm_left_erase a m) = (bm_left m)(a := None)"
    by blast
  have "bm_left (bm_right_erase b m) x = (if bm_left m x = Some b then None else bm_left m x)" for x
  proof (rule option_eqI)
    show "(bm_left (bm_right_erase b m) x = Some y) =
        ((if bm_left m x = Some b then None else bm_left m x) = Some y)" for y
      using bm_left_iff [OF le(2), of x y] bm_left_iff [OF wf, of x y] bm_left_iff [OF wf, of x b] key [of x y b]
      by (auto simp: bm_right_erase_def)
  qed
  with le show "bm_wf (bm_right_erase b m) \<and>
      bm_left (bm_right_erase b m) = (\<lambda>a. if bm_left m a = Some b then None else bm_left m a)"
    by blast
  assume new: "bm_left m a = None" "bm_right m b = None"
  then have "a \<notin> fst ` set m" "b \<notin> snd ` set m"
    by (auto simp: bm_left_def bm_right_def map_of_eq_None_iff image_comp comp_def)
  then have "bm_wf (bm_insert a b m)" using wf new by (auto simp: bm_insert_def bm_wf_def)
  moreover have "map_of (m @ [(a, b)]) = (map_of m)(a \<mapsto> b)"
    using new(1) by (auto simp: bm_left_def map_add_def fun_eq_iff split: option.splits)
  ultimately show "bm_wf (bm_insert a b m) \<and> bm_left (bm_insert a b m) = (bm_left m)(a \<mapsto> b)"
    using new by (simp add: bm_insert_def) (simp add: bm_left_def fun_eq_iff)
next
  fix m :: "('a, 'b) pairs" and a b
  assume "bm_left m a \<noteq> None \<or> bm_right m b \<noteq> None"
  then show "bm_insert a b m = m" by (auto simp: bm_insert_def)
qed

end
