(* ===== verification/Fs_Message.thy ===== *)
theory Fs_Message
  imports Prelude
begin

text \<open>
  \<open>FsMessage\<close> (\<open>fs-message.h\<close>, \<open>fs-message.cpp\<close>): the incremental parser for messages of the
  FreeSWITCH event socket and the two extractors for the replies the load balancer asks for. An
  exception (a thrown \<open>string\<close>) ends the parse and keeps what was stored before it; \<open>append\<close>
  catches it. A tokenizer iterator that is read or advanced at its end fails its
  \<open>BOOST_ASSERT\<close>.
\<close>

section \<open>Data\<close>

datatype FS_MSG_CATEGORY = unknown_category | api | auth | command | text_category

datatype FS_MSG_TYPE = unknown_type | request | reply | response | disconnect_notice

datatype FS_REPLY_STATUS = undefined_status | ok | err

record FsMessage =
  m_category :: FS_MSG_CATEGORY
  m_type :: FS_MSG_TYPE
  m_replyStatus :: FS_REPLY_STATUS
  m_strReplyText :: string
  m_nContentLength :: u32
  m_strContent :: string
  m_rawMsg :: string
  m_bValid :: bool
  m_bComplete :: bool

definition fsmsg_reset :: FsMessage where
  "fsmsg_reset =
     \<lparr>m_category = unknown_category, m_type = unknown_type, m_replyStatus = undefined_status,
      m_strReplyText = [], m_nContentLength = 0, m_strContent = [], m_rawMsg = [],
      m_bValid = False, m_bComplete = False\<rparr>"

section \<open>Parsing\<close>

text \<open>
  Each step returns whether it completed (\<open>False\<close>: it threw) and the message as it is then.
\<close>

definition parse_category :: "string \<Rightarrow> FS_MSG_CATEGORY option" where
  "parse_category s =
     (if s = ''api'' then Some api
      else if s = ''auth'' then Some auth
      else if s = ''command'' then Some command
      else if s = ''text'' then Some text_category
      else None)"

definition parse_type :: "string \<Rightarrow> FS_MSG_TYPE option" where
  "parse_type s =
     (if s = ''reply'' then Some reply
      else if s = ''request'' then Some request
      else if s = ''response'' then Some response
      else if s = ''disconnect-notice'' then Some disconnect_notice
      else None)"

definition parse_content_type :: "FsMessage \<Rightarrow> string \<Rightarrow> bool \<times> FsMessage" where
  "parse_content_type m line =
     (if \<not> starts_with ''Content-Type: '' line then (False, m)
      else case tokenize ''/'' (drop 14 line) of
        [c, t] \<Rightarrow>
          (case parse_category c of
             None \<Rightarrow> (False, m)
           | Some cat \<Rightarrow>
               (case parse_type t of
                  None \<Rightarrow> (False, m\<lparr>m_category := cat\<rparr>)
                | Some ty \<Rightarrow> (True, m\<lparr>m_category := cat, m_type := ty\<rparr>)))
      | _ \<Rightarrow> (False, m))"

definition parse_reply_text :: "FsMessage \<Rightarrow> string \<Rightarrow> bool \<times> FsMessage" where
  "parse_reply_text m line =
     (if m_replyStatus m \<noteq> undefined_status then (False, m)
      else if \<not> starts_with ''Reply-Text: '' line then (False, m)
      else let m1 = m\<lparr>m_strReplyText := line\<rparr>; s = drop 12 line
        in if starts_with ''+OK'' s then (True, m1\<lparr>m_replyStatus := ok\<rparr>)
           else if starts_with ''+ERR'' s then (True, m1\<lparr>m_replyStatus := err\<rparr>)
           else (False, m1))"

definition parse_content :: "FsMessage \<Rightarrow> string \<Rightarrow> bool \<times> FsMessage" where
  "parse_content m line =
     (if m_nContentLength m = 0 then
        if \<not> starts_with ''Content-Length: '' line then (False, m)
        else (True, m\<lparr>m_nContentLength := atoi (drop 16 line)\<rparr>)
      else (True, m\<lparr>m_strContent := m_strContent m @ line @ ''\<newline>''\<rparr>))"

definition parse_line :: "FsMessage \<Rightarrow> string \<Rightarrow> bool \<times> FsMessage" where
  "parse_line m line =
     (if m_category m = unknown_category then parse_content_type m line
      else if m_category m = command \<and> m_type m = reply then parse_reply_text m line
      else if m_category m = api \<and> m_type m = response \<or> m_category m = text_category then
        parse_content m line
      else (True, m))"

fun parse_lines :: "FsMessage \<Rightarrow> string list \<Rightarrow> bool \<times> FsMessage" where
  "parse_lines m [] = (True, m)"
| "parse_lines m (l # ls) =
     (let (fine, m1) = parse_line m l in if fine then parse_lines m1 ls else (False, m1))"

definition fsmsg_finished :: "FsMessage \<Rightarrow> bool" where
  "fsmsg_finished m \<longleftrightarrow>
     m_type m = request \<or>
     m_type m = reply \<and> m_replyStatus m \<noteq> undefined_status \<or>
     m_nContentLength m > 0 \<and> length (m_strContent m) = unat (m_nContentLength m)"

definition parse :: "FsMessage \<Rightarrow> string \<Rightarrow> bool \<times> FsMessage" where
  "parse m data =
     (let (fine, m1) =
        (if m_nContentLength m > 0 then (True, m\<lparr>m_strContent := m_strContent m @ data\<rparr>)
         else parse_lines m (tokenize ''\<newline>'' (m_rawMsg m)))
      in if \<not> fine then (False, m1)
         else if fsmsg_finished m1 then (True, m1\<lparr>m_bComplete := True\<rparr>)
         else (True, m1))"

definition append_data :: "FsMessage \<Rightarrow> string \<Rightarrow> FsMessage" where
  "append_data m data =
     (let (fine, m1) = parse (m\<lparr>m_rawMsg := m_rawMsg m @ data\<rparr>) data
      in if fine then m1\<lparr>m_bValid := True\<rparr> else m1)"

definition getReplyText :: "FsMessage \<Rightarrow> string option" where
  "getReplyText m = (if m_strReplyText m = [] then None else Some (m_strReplyText m))"

definition getContent :: "FsMessage \<Rightarrow> string option" where
  "getContent m = (if m_nContentLength m = 0 then None else Some (m_strContent m))"

section \<open>Extractors\<close>

text \<open>Reading token number \<open>i\<close> through an iterator advanced \<open>i\<close> times.\<close>

definition token_at :: "string list \<Rightarrow> nat \<Rightarrow> string outcome" where
  "token_at ts i = (if i < length ts then Ret (ts ! i) else Aborted)"

text \<open>
  \<open>getSipProfile\<close>: the address and port of the first line whose first word is the profile's
  name; the third word is a contact such as \<open>sip:mod_sofia@10.10.2.35:5060\<close>.
\<close>

fun sip_profile_lines :: "string \<Rightarrow> string list \<Rightarrow> (string \<times> u32) option outcome" where
  "sip_profile_lines profile [] = Ret None"
| "sip_profile_lines profile (l # ls) =
     (let ts = tokenize ('' '' @ [CHR 0x09]) l
      in obind (token_at ts 0) (\<lambda>w.
           if w = profile then
             obind (token_at ts 2) (\<lambda>contact.
               let us = tokenize ''@:'' contact
               in obind (token_at us 2) (\<lambda>address.
                    Ret (Some (address, if 3 < length us then atoi (us ! 3) else 5060))))
           else sip_profile_lines profile ls))"

definition getSipProfile :: "FsMessage \<Rightarrow> string \<Rightarrow> (string \<times> u32) option outcome" where
  "getSipProfile m profile = sip_profile_lines profile (tokenize ''\<newline>'' (m_strContent m))"

definition parseLeadingInteger :: "string \<Rightarrow> u32 option outcome" where
  "parseLeadingInteger str =
     obind (token_at (tokenize '' '' str) 0) (\<lambda>s.
       Ret (if s \<noteq> [] \<and> list_ex is_digit s then Some (atoi s) else None))"

text \<open>
  \<open>getFsStatus\<close> writes the two session counts through references: the result carries both, with
  the first one already written when only the second line is unreadable.
\<close>

definition getFsStatus :: "FsMessage \<Rightarrow> u32 \<Rightarrow> u32 \<Rightarrow> (bool \<times> u32 \<times> u32) outcome" where
  "getFsStatus m nCurrentSessions nMaxSessions =
     (let ls = tokenize ''\<newline>'' (m_strContent m)
      in if length ls < 5 then Ret (False, nCurrentSessions, nMaxSessions)
         else obind (parseLeadingInteger (ls ! 3)) (\<lambda>c.
           case c of
             None \<Rightarrow> Ret (False, nCurrentSessions, nMaxSessions)
           | Some cur \<Rightarrow>
               obind (parseLeadingInteger (ls ! 4)) (\<lambda>x.
                 case x of
                   None \<Rightarrow> Ret (False, cur, nMaxSessions)
                 | Some mx \<Rightarrow> Ret (True, cur, mx))))"

section \<open>Lines of a message\<close>

abbreviation newline :: string where
  "newline \<equiv> ''\<newline>''"

text \<open>A body of complete, non-empty lines.\<close>

definition is_line :: "string \<Rightarrow> bool" where
  "is_line l \<longleftrightarrow> l \<noteq> [] \<and> CHR 0x0A \<notin> set l"

definition unlines :: "string list \<Rightarrow> string" where
  "unlines ls = concat (map (\<lambda>l. l @ newline) ls)"

lemma tokenize_line: "is_line l \<Longrightarrow> tokenize newline (l @ newline @ s) = l # tokenize newline s"
  by (simp add: is_line_def tokenize_token)

lemma tokenize_unlines:
  "\<forall>l \<in> set ls. is_line l \<Longrightarrow> tokenize newline (unlines ls @ s) = ls @ tokenize newline s"
  by (simp add: unlines_def is_line_def tokenize_terminated)

lemma show_u32_line: "is_line (show_u32 n)"
proof -
  have "CHR 0x0A \<notin> set (show_nat k)" for k
    using show_nat_digits [of "CHR 0x0A" k] by (auto simp: is_digit_def)
  then show ?thesis by (simp add: is_line_def show_u32_def)
qed

lemma append_line: "is_line l \<Longrightarrow> CHR 0x0A \<notin> set p \<Longrightarrow> is_line (p @ l)"
  by (simp add: is_line_def)

section \<open>Messages with content\<close>

text \<open>The header of a reply with a content of \<open>n\<close> characters, as FreeSWITCH sends it.\<close>

definition api_header :: "u32 \<Rightarrow> string" where
  "api_header n = ''Content-Type: api/response\<newline>'' @ ''Content-Length: '' @ show_u32 n @ ''\<newline>\<newline>''"

lemma content_type_api:
  "parse_line fsmsg_reset ''Content-Type: api/response'' =
     (True, fsmsg_reset\<lparr>m_category := api, m_type := response\<rparr>)"
  by (simp add: parse_line_def parse_content_type_def fsmsg_reset_def parse_category_def
      parse_type_def string_eval)

lemma parse_line_raw:
  "parse_line (m\<lparr>m_rawMsg := r\<rparr>) l = (let (f, m1) = parse_line m l in (f, m1\<lparr>m_rawMsg := r\<rparr>))"
  by (simp add: parse_line_def parse_content_type_def parse_reply_text_def parse_content_def
      Let_def split: list.splits option.splits)

lemma parse_lines_content:
  assumes "m_category m = api" "m_type m = response" "m_nContentLength m \<noteq> 0"
  shows "parse_lines m ls = (True, m\<lparr>m_strContent := m_strContent m @ unlines ls\<rparr>)"
  using assms
  by (induction ls arbitrary: m) (simp_all add: parse_line_def parse_content_def unlines_def)

lemma parse_lines_api:
  assumes "n \<noteq> 0"
  shows "parse_lines (fsmsg_reset\<lparr>m_rawMsg := r\<rparr>)
      (''Content-Type: api/response'' # (''Content-Length: '' @ show_u32 n) # ls) =
    (True, fsmsg_reset\<lparr>m_category := api, m_type := response, m_nContentLength := n,
       m_strContent := unlines ls, m_rawMsg := r\<rparr>)"
proof -
  let ?m = "fsmsg_reset\<lparr>m_category := api, m_type := response\<rparr>"
  have 1: "parse_line (fsmsg_reset\<lparr>m_rawMsg := r\<rparr>) ''Content-Type: api/response'' = (True, ?m\<lparr>m_rawMsg := r\<rparr>)"
    by (simp add: parse_line_raw content_type_api)
  have 2: "parse_line (?m\<lparr>m_rawMsg := r\<rparr>) (''Content-Length: '' @ show_u32 n) =
      (True, ?m\<lparr>m_rawMsg := r, m_nContentLength := n\<rparr>)"
    by (simp add: parse_line_def parse_content_def fsmsg_reset_def starts_with_def)
  have 3: "parse_lines (?m\<lparr>m_rawMsg := r, m_nContentLength := n\<rparr>) ls =
      (True, ?m\<lparr>m_rawMsg := r, m_nContentLength := n, m_strContent := unlines ls\<rparr>)"
    using assms by (subst parse_lines_content) (simp_all add: fsmsg_reset_def)
  show ?thesis using 1 2 3 by simp
qed

lemma api_header_tokens:
  "tokenize newline (api_header n @ s) =
     ''Content-Type: api/response'' # (''Content-Length: '' @ show_u32 n) # tokenize newline s"
proof -
  have "is_line ''Content-Type: api/response''" by (simp add: is_line_def)
  moreover have "is_line (''Content-Length: '' @ show_u32 n)"
    using show_u32_line by (rule append_line) simp
  ultimately show ?thesis
    using tokenize_line [of "''Content-Type: api/response''"]
      tokenize_line [of "''Content-Length: '' @ show_u32 n"]
    by (simp add: api_header_def)
qed

text \<open>What the first read of a reply leaves, and what each later read adds.\<close>

lemma append_api_first:
  assumes "n \<noteq> 0" and "\<forall>l \<in> set ls. is_line l" and "tokenize newline s = []"
  shows "append_data fsmsg_reset (api_header n @ unlines ls @ s) =
    fsmsg_reset\<lparr>m_category := api, m_type := response, m_nContentLength := n,
      m_strContent := unlines ls, m_rawMsg := api_header n @ unlines ls @ s, m_bValid := True,
      m_bComplete := (length (unlines ls) = unat n)\<rparr>"
proof -
  let ?raw = "api_header n @ unlines ls @ s"
  have "tokenize newline ?raw =
      ''Content-Type: api/response'' # (''Content-Length: '' @ show_u32 n) # ls"
    using assms(2,3) by (simp add: api_header_tokens tokenize_unlines)
  then show ?thesis
    using assms(1) parse_lines_api [OF assms(1), of ?raw ls]
    by (simp add: append_data_def parse_def fsmsg_finished_def fsmsg_reset_def word_gt_0)
qed

lemma append_content:
  assumes "m_category m = api" "m_type m = response" "m_nContentLength m \<noteq> 0" "\<not> m_bComplete m"
  shows "append_data m data = m\<lparr>m_rawMsg := m_rawMsg m @ data, m_strContent := m_strContent m @ data,
    m_bValid := True, m_bComplete := (length (m_strContent m @ data) = unat (m_nContentLength m))\<rparr>"
  using assms by (simp add: append_data_def parse_def fsmsg_finished_def word_gt_0)

lemma append_chunks:
  assumes "m_category m = api" "m_type m = response" "m_nContentLength m \<noteq> 0" "m_bValid m"
    and "m_bComplete m \<longleftrightarrow> length (m_strContent m) = unat (m_nContentLength m)"
    and "\<forall>c \<in> set cs. c \<noteq> []"
    and "length (m_strContent m) + length (concat cs) = unat (m_nContentLength m)"
  shows "foldl append_data m cs = m\<lparr>m_rawMsg := m_rawMsg m @ concat cs,
    m_strContent := m_strContent m @ concat cs, m_bComplete := True\<rparr>"
  using assms
proof (induction cs arbitrary: m)
  case Nil
  then show ?case by simp
next
  case (Cons c cs)
  from Cons.prems(6,7) have "\<not> m_bComplete m"
    using Cons.prems(5) by (cases c) auto
  note step = append_content [OF Cons.prems(1,2,3) this, of c]
  show ?case
    using Cons.prems by (simp add: step) (subst Cons.IH; auto simp: add.assoc)
qed

section \<open>A header that is split between two reads\<close>

text \<open>
  What holds from then on when the first read ended right after the \<open>Content-Type\<close> line.
\<close>

definition header_lost :: "FsMessage \<Rightarrow> bool" where
  "header_lost m \<longleftrightarrow>
     m_category m = api \<and> m_type m = response \<and> m_nContentLength m = 0 \<and> \<not> m_bComplete m \<and>
     starts_with ''Content-Type: api/response\<newline>'' (m_rawMsg m)"

lemma header_lost_first: "header_lost (append_data fsmsg_reset ''Content-Type: api/response\<newline>'')"
  by (simp add: header_lost_def append_data_def parse_def fsmsg_reset_def parse_line_def
      parse_content_type_def parse_category_def parse_type_def fsmsg_finished_def string_eval)

lemma header_lost_append:
  assumes "header_lost m"
  shows "header_lost (append_data m data)"
proof -
  let ?m = "m\<lparr>m_rawMsg := m_rawMsg m @ data\<rparr>"
  obtain t where raw: "m_rawMsg m = ''Content-Type: api/response'' @ newline @ t"
    using assms by (auto simp: header_lost_def starts_with_iff)
  have "tokenize newline (m_rawMsg ?m) = ''Content-Type: api/response'' # tokenize newline (t @ data)"
    using tokenize_line [of "''Content-Type: api/response''" "t @ data"] raw
    by (simp add: is_line_def)
  moreover have "parse_line ?m ''Content-Type: api/response'' = (False, ?m)"
    using assms by (simp add: header_lost_def parse_line_def parse_content_def starts_with_def)
  ultimately have "parse ?m data = (False, ?m)"
    using assms by (simp add: parse_def header_lost_def)
  then show ?thesis
    using assms raw by (simp add: append_data_def header_lost_def starts_with_iff)
qed

lemma header_lost_chunks: "header_lost m \<Longrightarrow> header_lost (foldl append_data m cs)"
  by (induction cs arbitrary: m) (simp_all add: header_lost_append)

section \<open>Properties\<close>



text \<open>
  C28. A reply whose header is split between two reads is lost: if the first read ends right after
  the \<open>Content-Type\<close> line, then no later reads, whatever they bring, ever complete the message,
  because every parse starts again at the first line and takes it for the \<open>Content-Length\<close> line.
\<close>

theorem split_header_never_completes:
  "\<not> m_bComplete (foldl append_data fsmsg_reset (''Content-Type: api/response\<newline>'' # cs))"
  using header_lost_chunks [OF header_lost_first, of cs] by (simp add: header_lost_def)

end
