(* ===== verification/Fs_Instance.thy ===== *)
theory Fs_Instance
  imports Fs_Message
begin

text \<open>
  \<open>FsInstance\<close> (\<open>fs-instance.h\<close>, \<open>fs-instance.cpp\<close>): the connection to the event socket of one
  FreeSWITCH server, a state machine driven by completion handlers of \<open>boost::asio\<close>. A handler
  takes the instance and what the completed operation delivered, and returns the operations it
  starts and the instance afterwards. \<open>fs_step\<close> puts the handlers together with the operations
  that are outstanding; the contract used of \<open>boost::asio\<close> is that a handler runs once for
  each operation started, that setting a timer again replaces the earlier wait, and that the
  operations outstanding on a socket that is closed deliver no data.
\<close>

section \<open>Data\<close>

datatype CONNECTION_STATE =
  starting | resolving | resolve_failed | connecting | connect_failed | waiting_for_greeting
  | authenticating | authentication_failed | obtaining_sip_configuration
  | obtaining_sip_configuration_failed | querying_status | disconnecting

type_synonym endpoint = string

record FsInstance =
  fs_strAddress :: string
  fs_nEventSocketPort :: u32
  fs_lastCheck :: time_t
  fs_bDisconnected :: bool
  fs_bConnected :: bool
  fs_bReloadingXml :: bool
  fs_nMaxSessions :: u32
  fs_nCurrentSessions :: u32
  fs_strSipAddress :: string
  fs_nSipPort :: u32
  fs_bBusyOut :: bool
  fs_state :: CONNECTION_STATE
  fs_fsMsg :: FsMessage

definition FsInstance_new :: "string \<Rightarrow> u32 \<Rightarrow> bool \<Rightarrow> FsInstance" where
  "FsInstance_new address port busyOut =
     \<lparr>fs_strAddress = address, fs_nEventSocketPort = port, fs_lastCheck = 0,
      fs_bDisconnected = False, fs_bConnected = False, fs_bReloadingXml = False,
      fs_nMaxSessions = 0, fs_nCurrentSessions = 0, fs_strSipAddress = [], fs_nSipPort = 0,
      fs_bBusyOut = busyOut, fs_state = starting, fs_fsMsg = fsmsg_reset\<rparr>"

definition fs_same_server :: "FsInstance \<Rightarrow> FsInstance \<Rightarrow> bool" where
  "fs_same_server a b \<longleftrightarrow>
     fs_strAddress a = fs_strAddress b \<and> fs_nEventSocketPort a = fs_nEventSocketPort b"

definition getAvailableSessions :: "FsInstance \<Rightarrow> u32" where
  "getAvailableSessions fs = fs_nMaxSessions fs - fs_nCurrentSessions fs"

definition isOnline :: "FsInstance \<Rightarrow> bool" where
  "isOnline fs \<longleftrightarrow> fs_state fs = querying_status"

definition isAvailable :: "FsInstance \<Rightarrow> bool" where
  "isAvailable fs \<longleftrightarrow>
     fs_state fs = querying_status \<and> fs_nCurrentSessions fs < fs_nMaxSessions fs - 2"

definition fs_description :: "FsInstance \<Rightarrow> string" where
  "fs_description fs =
     fs_strSipAddress fs @ (if fs_nSipPort fs \<noteq> 0 then '':'' @ show_u32 (fs_nSipPort fs) else []) @
     ''{'' @ show_u32 (fs_nMaxSessions fs) @ '','' @ show_u32 (fs_nCurrentSessions fs) @ '','' @
     show_u32 (fs_nMaxSessions fs - fs_nCurrentSessions fs) @ ''}''"

section \<open>Completion handlers\<close>

datatype fs_action =
  AsyncResolve string string
  | AsyncConnect endpoint "endpoint list"
  | AsyncRead
  | WriteSocket string
  | CloseSocket
  | StartTimer u64
  | NotifySipServerAddress string string u32
  | ThrowDisconnect
  | ThrowReconnect

type_synonym fs_result = "(fs_action list \<times> FsInstance) outcome"

abbreviation crlf :: string where
  "crlf \<equiv> [CHR 0x0D, CHR 0x0A]"

definition fs_start :: "FsInstance \<Rightarrow> fs_action list \<times> FsInstance" where
  "fs_start fs =
     ([AsyncResolve (fs_strAddress fs) (show_u32 (fs_nEventSocketPort fs))],
      fs\<lparr>fs_state := resolving, fs_fsMsg := fsmsg_reset\<rparr>)"

text \<open>\<open>resolve_handler\<close>: \<open>None\<close> is an error code, \<open>Some\<close> the list the iterator runs through.\<close>

definition resolve_handler :: "FsInstance \<Rightarrow> endpoint list option \<Rightarrow> fs_result" where
  "resolve_handler fs res =
     (case res of
        Some eps \<Rightarrow>
          (case eps of
             [] \<Rightarrow> Undefined
           | e # it \<Rightarrow> Ret ([AsyncConnect e it], fs\<lparr>fs_state := connecting\<rparr>))
      | None \<Rightarrow> Ret ([StartTimer 5000], fs\<lparr>fs_state := resolve_failed\<rparr>))"

definition connect_handler :: "FsInstance \<Rightarrow> bool \<Rightarrow> endpoint list \<Rightarrow> fs_result" where
  "connect_handler fs success it =
     (if success then Ret ([AsyncRead], fs\<lparr>fs_state := waiting_for_greeting\<rparr>)
      else case it of
        e # it' \<Rightarrow> Ret ([CloseSocket, AsyncConnect e it'], fs)
      | [] \<Rightarrow> Ret ([StartTimer 5000], fs\<lparr>fs_state := connect_failed\<rparr>))"

text \<open>
  What the switch of \<open>read_handler\<close> decides for a complete message: the text to write, whether to
  read again, to set the timer and to report a reconnect, and the instance.
\<close>

record fs_decision =
  d_out :: string
  d_readAgain :: bool
  d_setTimer :: bool
  d_notifyReconnect :: bool
  d_notify :: "fs_action list"
  d_fs :: FsInstance

definition nothing_decided :: "FsInstance \<Rightarrow> fs_decision" where
  "nothing_decided fs =
     \<lparr>d_out = [], d_readAgain = False, d_setTimer = False, d_notifyReconnect = False,
      d_notify = [], d_fs = fs\<rparr>"

definition decide :: "FsInstance \<Rightarrow> fs_decision outcome" where
  "decide fs =
     (let m = fs_fsMsg fs; d = nothing_decided fs in
      case fs_state fs of
        waiting_for_greeting \<Rightarrow>
          (if m_category m \<noteq> auth then Ret (d\<lparr>d_setTimer := True\<rparr>)
           else Ret (d\<lparr>d_out := ''auth ClueCon'' @ crlf @ crlf, d_readAgain := True,
                      d_fs := fs\<lparr>fs_state := authenticating\<rparr>\<rparr>))
      | authenticating \<Rightarrow>
          (if m_replyStatus m \<noteq> ok then
             Ret (d\<lparr>d_setTimer := True, d_fs := fs\<lparr>fs_state := authentication_failed\<rparr>\<rparr>)
           else Ret (d\<lparr>d_out := ''api sofia status'' @ crlf @ crlf, d_readAgain := True,
                      d_fs := fs\<lparr>fs_state := obtaining_sip_configuration\<rparr>\<rparr>))
      | obtaining_sip_configuration \<Rightarrow>
          (if m_category m = api \<and> m_type m = response then
             obind (getSipProfile m ''internal'') (\<lambda>p.
               case p of
                 None \<Rightarrow>
                   Ret (d\<lparr>d_setTimer := True,
                          d_fs := fs\<lparr>fs_state := obtaining_sip_configuration_failed\<rparr>\<rparr>)
               | Some (address, port) \<Rightarrow>
                   Ret (d\<lparr>d_out := ''api status'' @ crlf @ crlf, d_readAgain := True,
                          d_notify := [NotifySipServerAddress (fs_strAddress fs) address port],
                          d_fs := fs\<lparr>fs_strSipAddress := address, fs_nSipPort := port,
                                     fs_state := querying_status\<rparr>\<rparr>))
           else Ret d)
      | querying_status \<Rightarrow>
          (if m_category m = api \<and> m_type m = response then
             if fs_bReloadingXml fs then Ret (d\<lparr>d_fs := fs\<lparr>fs_bReloadingXml := False\<rparr>\<rparr>)
             else obind (getFsStatus m (fs_nCurrentSessions fs) (fs_nMaxSessions fs))
               (\<lambda>(success, cur, mx).
                 let fs1 = fs\<lparr>fs_nCurrentSessions := cur, fs_nMaxSessions := mx\<rparr>
                 in if \<not> success then Ret (d\<lparr>d_setTimer := True, d_fs := fs1\<rparr>)
                    else if fs_bDisconnected fs then
                      Ret (d\<lparr>d_setTimer := True, d_notifyReconnect := True,
                             d_fs := fs1\<lparr>fs_bDisconnected := False\<rparr>\<rparr>)
                    else Ret (d\<lparr>d_setTimer := True, d_fs := fs1\<rparr>))
           else Ret d)
      | _ \<Rightarrow> Ret d)"

text \<open>What follows the switch: write, reset the message, read again, set the timer, report.\<close>

definition carry_out :: "u64 \<Rightarrow> fs_decision \<Rightarrow> fs_action list \<times> FsInstance" where
  "carry_out healthMs d =
     (d_notify d @
      (if d_out d \<noteq> [] then [WriteSocket (d_out d)] else []) @
      (if d_readAgain d then [AsyncRead] else []) @
      (if d_setTimer d
       then [StartTimer (if fs_state (d_fs d) = querying_status then healthMs else 5000)]
       else []) @
      (if d_notifyReconnect d then [ThrowReconnect] else []),
      (d_fs d)\<lparr>fs_fsMsg := fsmsg_reset\<rparr>)"

text \<open>\<open>read_handler\<close>: \<open>None\<close> is an error code, \<open>Some\<close> the characters read.\<close>

definition read_handler :: "u64 \<Rightarrow> FsInstance \<Rightarrow> string option \<Rightarrow> fs_result" where
  "read_handler healthMs fs res =
     (case res of
        None \<Rightarrow> Ret ([], fs)
      | Some data \<Rightarrow>
          let fs1 = fs\<lparr>fs_fsMsg := append_data (fs_fsMsg fs) data\<rparr>; m = fs_fsMsg fs1 in
          if \<not> m_bComplete m then Ret ([AsyncRead], fs1)
          else if m_category m = text_category \<and> m_type m = disconnect_notice then
            Ret ([CloseSocket, StartTimer 1000, ThrowDisconnect],
                 fs1\<lparr>fs_bDisconnected := True, fs_state := starting\<rparr>)
          else obind (decide fs1) (\<lambda>d. Ret (carry_out healthMs d)))"

text \<open>\<open>timer_handler\<close>: an aborted wait (an error code) does nothing.\<close>

definition timer_handler :: "FsInstance \<Rightarrow> bool \<Rightarrow> fs_result" where
  "timer_handler fs success =
     (if \<not> success then Ret ([], fs)
      else case fs_state fs of
        starting \<Rightarrow> Ret (fs_start fs)
      | resolve_failed \<Rightarrow> Ret ([], fs)
      | connect_failed \<Rightarrow>
          (let (acts, fs1) = fs_start (fs\<lparr>fs_state := starting\<rparr>) in Ret (CloseSocket # acts, fs1))
      | waiting_for_greeting \<Rightarrow> Ret ([], fs)
      | authentication_failed \<Rightarrow> Ret ([], fs)
      | obtaining_sip_configuration_failed \<Rightarrow> Ret ([], fs)
      | _ \<Rightarrow> Ret ([WriteSocket (''api status'' @ crlf @ crlf), AsyncRead], fs))"

definition reloadxml :: "FsInstance \<Rightarrow> fs_action list \<times> FsInstance" where
  "reloadxml fs =
     (if fs_state fs \<noteq> querying_status then ([], fs)
      else ([WriteSocket (''api reloadxml'' @ crlf @ crlf), AsyncRead], fs\<lparr>fs_bReloadingXml := True\<rparr>))"

section \<open>The connection as a state machine\<close>

record fs_conn =
  conn_fs :: FsInstance
  conn_resolve :: bool
  conn_connect :: "endpoint list option"
  conn_reads :: nat
  conn_timer :: bool

fun apply_action :: "fs_action \<Rightarrow> fs_conn \<Rightarrow> fs_conn" where
  "apply_action (AsyncResolve a p) s = s\<lparr>conn_resolve := True\<rparr>"
| "apply_action (AsyncConnect e it) s = s\<lparr>conn_connect := Some it\<rparr>"
| "apply_action AsyncRead s = s\<lparr>conn_reads := Suc (conn_reads s)\<rparr>"
| "apply_action CloseSocket s = s\<lparr>conn_reads := 0, conn_connect := None\<rparr>"
| "apply_action (StartTimer ms) s = s\<lparr>conn_timer := True\<rparr>"
| "apply_action _ s = s"

definition apply_result :: "fs_action list \<times> FsInstance \<Rightarrow> fs_conn \<Rightarrow> fs_conn" where
  "apply_result r s = fold apply_action (fst r) (s\<lparr>conn_fs := snd r\<rparr>)"

definition fs_initial :: "string \<Rightarrow> u32 \<Rightarrow> fs_conn" where
  "fs_initial address port =
     apply_result (fs_start (FsInstance_new address port False))
       \<lparr>conn_fs = FsInstance_new address port False, conn_resolve = False, conn_connect = None,
        conn_reads = 0, conn_timer = False\<rparr>"

inductive fs_step :: "u64 \<Rightarrow> fs_conn \<Rightarrow> fs_conn \<Rightarrow> bool" for healthMs where
  resolved: "conn_resolve s \<Longrightarrow> resolve_handler (conn_fs s) res = Ret r \<Longrightarrow>
    fs_step healthMs s (apply_result r (s\<lparr>conn_resolve := False\<rparr>))"
| connected: "conn_connect s = Some it \<Longrightarrow> connect_handler (conn_fs s) success it = Ret r \<Longrightarrow>
    fs_step healthMs s (apply_result r (s\<lparr>conn_connect := None\<rparr>))"
| have_read: "0 < conn_reads s \<Longrightarrow> read_handler healthMs (conn_fs s) res = Ret r \<Longrightarrow>
    fs_step healthMs s (apply_result r (s\<lparr>conn_reads := conn_reads s - 1\<rparr>))"
| timed_out: "conn_timer s \<Longrightarrow> timer_handler (conn_fs s) True = Ret r \<Longrightarrow>
    fs_step healthMs s (apply_result r (s\<lparr>conn_timer := False\<rparr>))"
| reload: "fs_step healthMs s (apply_result (reloadxml (conn_fs s)) s)"

inductive fs_reachable :: "u64 \<Rightarrow> string \<Rightarrow> u32 \<Rightarrow> fs_conn \<Rightarrow> bool" for healthMs address port where
  initial: "fs_reachable healthMs address port (fs_initial address port)"
| step: "fs_reachable healthMs address port s \<Longrightarrow> fs_step healthMs s t \<Longrightarrow>
    fs_reachable healthMs address port t"

section \<open>Invariant\<close>

text \<open>
  Which operations can be outstanding in which state, and that a server that is online has
  reported its SIP address.
\<close>

definition fs_inv :: "fs_conn \<Rightarrow> bool" where
  "fs_inv s \<longleftrightarrow>
     (let st = fs_state (conn_fs s) in
      (conn_resolve s \<longrightarrow> st = resolving) \<and>
      (conn_connect s \<noteq> None \<longrightarrow> st = connecting) \<and>
      (0 < conn_reads s \<longrightarrow>
         st \<in> {waiting_for_greeting, authenticating, obtaining_sip_configuration, querying_status}) \<and>
      (st \<noteq> querying_status \<longrightarrow> conn_reads s \<le> 1) \<and>
      (conn_timer s \<longrightarrow>
         st \<in> {starting, resolve_failed, connect_failed, waiting_for_greeting, authentication_failed,
                obtaining_sip_configuration_failed, querying_status} \<and>
         (st = waiting_for_greeting \<longrightarrow> conn_reads s = 0)) \<and>
      (st = querying_status \<longrightarrow> fs_strSipAddress (conn_fs s) \<noteq> []))"

lemma third_token_nonempty: "2 < length (tokenize d s) \<Longrightarrow> tokenize d s ! 2 \<noteq> []"
  by (rule tokenize_nonempty) (rule nth_mem)

lemma sip_profile_nonempty:
  "sip_profile_lines p ls = Ret (Some (a, port)) \<Longrightarrow> a \<noteq> []"
proof (induction p ls rule: sip_profile_lines.induct)
  case (1 p)
  then show ?case by simp
next
  case (2 p l ls)
  then show ?case
    by (auto simp: Let_def obind_Ret_iff token_at_def third_token_nonempty split: if_splits)
qed

lemma getSipProfile_nonempty: "getSipProfile m p = Ret (Some (a, port)) \<Longrightarrow> a \<noteq> []"
  unfolding getSipProfile_def by (rule sip_profile_nonempty)

lemma decide_cases:
  assumes "decide fs = Ret d"
  obtains
    (greeting_wrong) "fs_state fs = waiting_for_greeting" "d = (nothing_decided fs)\<lparr>d_setTimer := True\<rparr>"
  | (advance) st out where "(fs_state fs, st) \<in>
        {(waiting_for_greeting, authenticating), (authenticating, obtaining_sip_configuration)}"
      "d = (nothing_decided fs)\<lparr>d_out := out, d_readAgain := True, d_fs := fs\<lparr>fs_state := st\<rparr>\<rparr>"
  | (failed) st where "(fs_state fs, st) \<in>
        {(authenticating, authentication_failed),
         (obtaining_sip_configuration, obtaining_sip_configuration_failed)}"
      "d = (nothing_decided fs)\<lparr>d_setTimer := True, d_fs := fs\<lparr>fs_state := st\<rparr>\<rparr>"
  | (online) address port out where "fs_state fs = obtaining_sip_configuration" "address \<noteq> []"
      "d = (nothing_decided fs)\<lparr>d_out := out, d_readAgain := True,
         d_notify := [NotifySipServerAddress (fs_strAddress fs) address port],
         d_fs := fs\<lparr>fs_strSipAddress := address, fs_nSipPort := port, fs_state := querying_status\<rparr>\<rparr>"
  | (polled) "fs_state fs = querying_status" "d_readAgain d = False" "d_notify d = []"
      "fs_state (d_fs d) = querying_status" "fs_strSipAddress (d_fs d) = fs_strSipAddress fs"
  | (ignored) "d = nothing_decided fs"
proof (cases "fs_state fs")
  case waiting_for_greeting
  with assms show thesis
    using greeting_wrong advance by (auto simp: decide_def Let_def split: if_splits)
next
  case authenticating
  with assms show thesis
    using advance failed by (auto simp: decide_def Let_def split: if_splits)
next
  case obtaining_sip_configuration
  note state = this
  show thesis
  proof (cases "m_category (fs_fsMsg fs) = api \<and> m_type (fs_fsMsg fs) = response")
    case True
    with assms state obtain p where p: "getSipProfile (fs_fsMsg fs) ''internal'' = Ret p"
      by (auto simp: decide_def Let_def obind_Ret_iff)
    show thesis
    proof (cases p)
      case None
      with assms state True p show thesis using failed by (simp add: decide_def Let_def)
    next
      case (Some ap)
      moreover obtain address port where "ap = (address, port)" by (cases ap)
      moreover from p calculation have "address \<noteq> []" by (simp add: getSipProfile_nonempty)
      ultimately show thesis
        using assms state True p
        by (intro online [of address port "''api status'' @ crlf @ crlf"]) (simp_all add: decide_def Let_def)
    qed
  next
    case False
    with assms state show thesis using ignored by (auto simp: decide_def Let_def)
  qed
next
  case querying_status
  with assms show thesis
    using polled ignored
    by (auto simp: decide_def obind_Ret_iff nothing_decided_def Let_def split: if_splits)
qed (use assms ignored in \<open>auto simp: decide_def Let_def\<close>)


lemma fold_apply_action_fs [simp]: "conn_fs (fold apply_action acts s) = conn_fs s"
proof (induction acts arbitrary: s)
  case (Cons a acts)
  moreover have "conn_fs (apply_action a s) = conn_fs s" by (cases a) simp_all
  ultimately show ?case by simp
qed simp

lemma apply_result_fs [simp]: "conn_fs (apply_result r s) = snd r"
  by (simp add: apply_result_def)

lemma fs_inv_initial: "fs_inv (fs_initial address port)"
  by (simp add: fs_inv_def fs_initial_def apply_result_def fs_start_def)

lemma resolve_keeps_inv:
  assumes "fs_inv s" "conn_resolve s" "resolve_handler (conn_fs s) res = Ret r"
  shows "fs_inv (apply_result r (s\<lparr>conn_resolve := False\<rparr>))"
  using assms
  by (auto simp: resolve_handler_def fs_inv_def apply_result_def Let_def split: option.splits list.splits)

lemma connect_keeps_inv:
  assumes "fs_inv s" "conn_connect s = Some it" "connect_handler (conn_fs s) success it = Ret r"
  shows "fs_inv (apply_result r (s\<lparr>conn_connect := None\<rparr>))"
  using assms
  by (auto simp: connect_handler_def fs_inv_def apply_result_def Let_def split: if_splits list.splits)

lemma timer_keeps_inv:
  assumes "fs_inv s" "conn_timer s" "timer_handler (conn_fs s) True = Ret r"
  shows "fs_inv (apply_result r (s\<lparr>conn_timer := False\<rparr>))"
  using assms
  by (cases "fs_state (conn_fs s)")
    (auto simp: timer_handler_def fs_start_def fs_inv_def apply_result_def)

lemma reloadxml_keeps_inv: "fs_inv s \<Longrightarrow> fs_inv (apply_result (reloadxml (conn_fs s)) s)"
proof (cases "fs_state (conn_fs s) = querying_status")
  case True
  then show "fs_inv s \<Longrightarrow> ?thesis" by (simp add: reloadxml_def fs_inv_def apply_result_def)
next
  case False
  then show "fs_inv s \<Longrightarrow> ?thesis" by (simp add: reloadxml_def apply_result_def)
qed

text \<open>The three ways \<open>read_handler\<close> goes on after data has arrived.\<close>

lemma read_handler_cases:
  assumes "read_handler healthMs fs res = Ret r"
  obtains
    (error) "res = None" "r = ([], fs)"
  | (incomplete) m where "r = ([AsyncRead], fs\<lparr>fs_fsMsg := m\<rparr>)"
  | (disconnect) m where
      "r = ([CloseSocket, StartTimer 1000, ThrowDisconnect],
            fs\<lparr>fs_fsMsg := m, fs_bDisconnected := True, fs_state := starting\<rparr>)"
  | (complete) m d where "decide (fs\<lparr>fs_fsMsg := m\<rparr>) = Ret d"
      "r = carry_out healthMs d"
proof (cases res)
  case None
  with assms show thesis by (intro error) (simp_all add: read_handler_def)
next
  case (Some data)
  define m where "m = append_data (fs_fsMsg fs) data"
  show thesis
  proof (cases "\<not> m_bComplete m \<or> m_category m = text_category \<and> m_type m = disconnect_notice")
    case True
    with assms Some incomplete [of m] disconnect [of m] show thesis
      by (auto simp: read_handler_def Let_def m_def split: if_splits)
  next
    case False
    with assms Some obtain d where "decide (fs\<lparr>fs_fsMsg := m\<rparr>) = Ret d"
      by (auto simp: read_handler_def Let_def m_def obind_Ret_iff)
    moreover from this False assms Some have "r = carry_out healthMs d"
      by (auto simp: read_handler_def Let_def m_def split: if_splits)
    ultimately show thesis by (rule complete)
  qed
qed

text \<open>A decision starts at most one read and one timer; notifications touch neither.\<close>

lemma apply_carry_out:
  assumes "\<And>t. fold apply_action (d_notify d) t = t"
  shows "apply_result (carry_out healthMs d) s =
    s\<lparr>conn_fs := (d_fs d)\<lparr>fs_fsMsg := fsmsg_reset\<rparr>,
      conn_reads := conn_reads s + (if d_readAgain d then 1 else 0),
      conn_timer := conn_timer s \<or> d_setTimer d\<rparr>"
  using assms by (simp add: apply_result_def carry_out_def)

lemma complete_keeps_inv:
  assumes inv: "fs_inv s" and reads: "0 < conn_reads s"
    and d: "decide ((conn_fs s)\<lparr>fs_fsMsg := m\<rparr>) = Ret d"
  shows "fs_inv (apply_result (carry_out healthMs d) (s\<lparr>conn_reads := conn_reads s - 1\<rparr>))"
  using d
proof (cases rule: decide_cases)
  case polled
  then show ?thesis using inv reads by (simp add: apply_carry_out fs_inv_def)
next
  case ignored
  then show ?thesis using inv reads
    by (auto simp: apply_carry_out fs_inv_def nothing_decided_def Let_def)
qed (use inv reads in \<open>auto simp: apply_carry_out fs_inv_def nothing_decided_def\<close>)

lemma read_keeps_inv:
  assumes inv: "fs_inv s" and reads: "0 < conn_reads s"
    and r: "read_handler healthMs (conn_fs s) res = Ret r"
  shows "fs_inv (apply_result r (s\<lparr>conn_reads := conn_reads s - 1\<rparr>))"
  using r
proof (cases rule: read_handler_cases)
  case (complete m d)
  with inv reads show ?thesis by (simp only: complete_keeps_inv)
qed (use inv reads in \<open>auto simp: fs_inv_def apply_result_def Let_def\<close>)

lemma fs_step_keeps_inv: "fs_step healthMs s t \<Longrightarrow> fs_inv s \<Longrightarrow> fs_inv t"
  by (induction rule: fs_step.induct)
    (simp_all only: resolve_keeps_inv connect_keeps_inv read_keeps_inv timer_keeps_inv
      reloadxml_keeps_inv)

lemma fs_reachable_inv: "fs_reachable healthMs address port s \<Longrightarrow> fs_inv s"
  by (induction rule: fs_reachable.induct) (blast intro: fs_inv_initial fs_step_keeps_inv)+

section \<open>Running the handlers\<close>

text \<open>The events of a run, each one a rule of \<open>fs_step\<close> with what the operation delivers.\<close>

datatype fs_event =
  Resolved "endpoint list option" | Connected bool | HaveRead "string option" | TimedOut | Reload

fun fs_event_step :: "u64 \<Rightarrow> fs_conn \<Rightarrow> fs_event \<Rightarrow> fs_conn option" where
  "fs_event_step h s (Resolved res) =
     (if conn_resolve s then
        case resolve_handler (conn_fs s) res of
          Ret r \<Rightarrow> Some (apply_result r (s\<lparr>conn_resolve := False\<rparr>)) | _ \<Rightarrow> None
      else None)"
| "fs_event_step h s (Connected success) =
     (case conn_connect s of
        None \<Rightarrow> None
      | Some it \<Rightarrow>
          (case connect_handler (conn_fs s) success it of
             Ret r \<Rightarrow> Some (apply_result r (s\<lparr>conn_connect := None\<rparr>)) | _ \<Rightarrow> None))"
| "fs_event_step h s (HaveRead res) =
     (if 0 < conn_reads s then
        case read_handler h (conn_fs s) res of
          Ret r \<Rightarrow> Some (apply_result r (s\<lparr>conn_reads := conn_reads s - 1\<rparr>)) | _ \<Rightarrow> None
      else None)"
| "fs_event_step h s TimedOut =
     (if conn_timer s then
        case timer_handler (conn_fs s) True of
          Ret r \<Rightarrow> Some (apply_result r (s\<lparr>conn_timer := False\<rparr>)) | _ \<Rightarrow> None
      else None)"
| "fs_event_step h s Reload = Some (apply_result (reloadxml (conn_fs s)) s)"

fun fs_run :: "u64 \<Rightarrow> fs_conn \<Rightarrow> fs_event list \<Rightarrow> fs_conn option" where
  "fs_run h s [] = Some s"
| "fs_run h s (e # es) = (case fs_event_step h s e of None \<Rightarrow> None | Some t \<Rightarrow> fs_run h t es)"

lemma fs_event_step_sound: "fs_event_step h s e = Some t \<Longrightarrow> fs_step h s t"
  by (cases e) (auto split: if_splits outcome.splits option.splits intro: fs_step.intros
      have_read [unfolded One_nat_def])

lemma fs_run_reachable:
  "fs_run h s es = Some t \<Longrightarrow> fs_reachable h a p s \<Longrightarrow> fs_reachable h a p t"
proof (induction es arbitrary: s)
  case Nil
  then show ?case by simp
next
  case (Cons e es)
  from Cons.prems(1) obtain u where "fs_event_step h s e = Some u" "fs_run h u es = Some t"
    by (auto split: option.splits)
  with Cons.IH Cons.prems(2) show ?case
    by (blast intro: fs_reachable.step fs_event_step_sound)
qed

section \<open>Status replies\<close>

text \<open>A line such as \<open>39 session(s) since startup\<close>.\<close>

definition count_line :: "u32 \<Rightarrow> string \<Rightarrow> string" where
  "count_line n rest = show_u32 n @ '' '' @ rest"

lemma parseLeadingInteger_count_line: "parseLeadingInteger (count_line n rest) = Ret (Some n)"
proof -
  have d: "is_digit c" if "c \<in> set (show_u32 n)" for c
    using that show_nat_digits by (simp add: show_u32_def)
  have "set (show_u32 n) \<inter> set '' '' = {}"
    using d [of "CHR '' ''"] by (auto simp: is_digit_def)
  then have "tokenize '' '' (count_line n rest) = show_u32 n # tokenize '' '' rest"
    using tokenize_token [of "show_u32 n" "'' ''" "CHR '' ''" rest]
    by (simp add: count_line_def show_u32_def)
  moreover have "list_ex is_digit (show_u32 n)"
    using d by (cases "show_u32 n") (auto simp: show_u32_def)
  ultimately show ?thesis
    by (simp add: parseLeadingInteger_def token_at_def show_u32_def) (simp flip: show_u32_def)
qed

lemma getFsStatus_counts:
  assumes "\<forall>l \<in> set ls. is_line l" and "5 \<le> length ls"
    and "ls ! 3 = count_line cur r" and "ls ! 4 = count_line mx r'"
    and "m_strContent m = unlines ls"
  shows "getFsStatus m c x = Ret (True, cur, mx)"
proof -
  have "tokenize newline (m_strContent m) = ls"
    using tokenize_unlines [OF assms(1), of "[]"] assms(5) by simp
  with assms(2-4) show ?thesis by (simp add: getFsStatus_def parseLeadingInteger_count_line)
qed

section \<open>A run\<close>

text \<open>The exchanges that bring a server online, with a short profile listing.\<close>

definition example_online :: "fs_event list" where
  "example_online =
     [Resolved (Some [''10.0.0.1'']), Connected True,
      HaveRead (Some ''Content-Type: auth/request\<newline>\<newline>''),
      HaveRead (Some ''Content-Type: command/reply\<newline>Reply-Text: +OK accepted\<newline>\<newline>''),
      HaveRead (Some ''Content-Type: api/response\<newline>Content-Length: 23\<newline>\<newline>internal profile s:u@x\<newline>'')]"

lemma example_online_state:
  "\<exists>s. fs_run 1000 (fs_initial ''fs1'' 8021) example_online = Some s \<and>
     fs_state (conn_fs s) = querying_status \<and> fs_strSipAddress (conn_fs s) = ''x'' \<and>
     fs_nSipPort (conn_fs s) = 5060 \<and> fs_nMaxSessions (conn_fs s) = 0 \<and>
     fs_nCurrentSessions (conn_fs s) = 0 \<and> conn_reads s = 1 \<and> \<not> conn_timer s"
  by (simp add: example_online_def fs_initial_def apply_result_def fs_start_def
      FsInstance_new_def resolve_handler_def connect_handler_def read_handler_def append_data_def
      parse_def parse_line_def parse_content_type_def parse_reply_text_def parse_content_def
      fsmsg_finished_def fsmsg_reset_def parse_category_def parse_type_def decide_def
      nothing_decided_def carry_out_def getSipProfile_def token_at_def string_eval)

lemma isAvailable_no_limit:
  "fs_state fs = querying_status \<Longrightarrow> fs_nMaxSessions fs = 0 \<Longrightarrow> fs_nCurrentSessions fs = 0 \<Longrightarrow>
   isAvailable fs"
  by (simp add: isAvailable_def word_gt_0)

section \<open>States without a way out\<close>

definition gave_up :: "CONNECTION_STATE \<Rightarrow> bool" where
  "gave_up st \<longleftrightarrow>
     st \<in> {resolve_failed, authentication_failed, obtaining_sip_configuration_failed}"

lemma gave_up_idle:
  "fs_inv s \<Longrightarrow> gave_up (fs_state (conn_fs s)) \<Longrightarrow>
   \<not> conn_resolve s \<and> conn_connect s = None \<and> conn_reads s = 0"
  by (cases "fs_state (conn_fs s)") (simp_all add: fs_inv_def gave_up_def)

lemma gave_up_timer:
  "gave_up (fs_state fs) \<Longrightarrow> timer_handler fs True = Ret ([], fs) \<and> reloadxml fs = ([], fs)"
  by (auto simp: gave_up_def timer_handler_def reloadxml_def)

lemma gave_up_step:
  assumes "fs_step healthMs s t" "fs_inv s" "gave_up (fs_state (conn_fs s))"
  shows "conn_fs t = conn_fs s"
  using assms(1) gave_up_idle [OF assms(2,3)] gave_up_timer [OF assms(3)]
  by (cases rule: fs_step.cases) simp_all

lemma gave_up_forever:
  assumes "(fs_step healthMs)\<^sup>*\<^sup>* s t" "fs_inv s" "gave_up (fs_state (conn_fs s))"
  shows "conn_fs t = conn_fs s \<and> fs_inv t"
  using assms
  by (induction rule: rtranclp_induct) (auto simp: fs_step_keeps_inv dest: gave_up_step)

section \<open>Properties\<close>

text \<open>
  C25. In every state the event socket connection can reach, the outstanding operations fit the
  state: a name resolution only while resolving, a connect only while connecting, at most one
  read outside normal operation and none before the connection is up; and a server that counts
  as online has reported the SIP address calls are sent to.
\<close>

theorem connection_invariant:
  assumes "fs_reachable healthMs address port s"
  shows "(conn_resolve s \<longrightarrow> fs_state (conn_fs s) = resolving) \<and>
    (conn_connect s \<noteq> None \<longrightarrow> fs_state (conn_fs s) = connecting) \<and>
    (0 < conn_reads s \<longrightarrow> fs_state (conn_fs s) \<in>
       {waiting_for_greeting, authenticating, obtaining_sip_configuration, querying_status}) \<and>
    (\<not> isOnline (conn_fs s) \<longrightarrow> conn_reads s \<le> 1) \<and>
    (isOnline (conn_fs s) \<longrightarrow> fs_strSipAddress (conn_fs s) \<noteq> [])"
  using fs_reachable_inv [OF assms] by (simp add: fs_inv_def isOnline_def Let_def)

theorem connection_invariant_witness:
  "\<exists>s. fs_run 1000 (fs_initial ''fs1'' 8021) example_online = Some s \<and>
     isOnline (conn_fs s) \<and> fs_strSipAddress (conn_fs s) \<noteq> []"
proof -
  obtain s where run: "fs_run 1000 (fs_initial ''fs1'' 8021) example_online = Some s"
    and "isOnline (conn_fs s)"
    using example_online_state by (auto simp: isOnline_def)
  moreover have "fs_strSipAddress (conn_fs s) \<noteq> []"
    using connection_invariant [OF fs_run_reachable [OF run fs_reachable.initial]] calculation(2)
    by simp
  ultimately show ?thesis by blast
qed

text \<open>
  C26. A server whose name could not be resolved, whose password was refused or whose SIP
  profile could not be read is given up for good: the handlers set a timer for another try, but
  whatever happens afterwards, the instance never changes again.
\<close>

theorem failed_server_never_retried:
  assumes "fs_reachable healthMs address port s"
    and "fs_state (conn_fs s) \<in>
      {resolve_failed, authentication_failed, obtaining_sip_configuration_failed}"
    and "(fs_step healthMs)\<^sup>*\<^sup>* s t"
  shows "conn_fs t = conn_fs s \<and> \<not> isAvailable (conn_fs t)"
  using gave_up_forever [OF assms(3) fs_reachable_inv [OF assms(1)]] assms(2)
  by (auto simp: gave_up_def isAvailable_def)

theorem failed_server_never_retried_witness:
  "\<exists>s t. fs_run 1000 (fs_initial ''fs1'' 8021) [Resolved None] = Some s \<and> conn_timer s \<and>
     fs_run 1000 s [TimedOut, Reload] = Some t \<and>
     fs_state (conn_fs t) = resolve_failed \<and> \<not> isAvailable (conn_fs t)"
proof -
  let ?i = "fs_initial ''fs1'' 8021"
  obtain s where s: "fs_run 1000 ?i [Resolved None] = Some s"
    and st: "fs_state (conn_fs s) = resolve_failed" and timer: "conn_timer s"
    by (auto simp: fs_initial_def apply_result_def fs_start_def resolve_handler_def)
  obtain u where u: "fs_event_step 1000 s TimedOut = Some u"
    using st timer by (simp add: timer_handler_def)
  obtain t where t: "fs_event_step 1000 u Reload = Some t" by simp
  have "(fs_step 1000)\<^sup>*\<^sup>* s t"
    by (rule converse_rtranclp_into_rtranclp, rule fs_event_step_sound [OF u],
        rule r_into_rtranclp, rule fs_event_step_sound [OF t])
  then have "conn_fs t = conn_fs s \<and> \<not> isAvailable (conn_fs t)"
    using st
    by (intro failed_server_never_retried [OF fs_run_reachable [OF s fs_reachable.initial]]) simp_all
  moreover have "fs_run 1000 s [TimedOut, Reload] = Some t"
    using u t by simp
  ultimately show ?thesis using s st timer by auto
qed

text \<open>
  A status reply updates the load of a server: a read that brings a whole reply whose fourth
  and fifth lines begin with the numbers of current and of allowed sessions stores exactly these
  numbers, leaves the server online and ready for the next message, starts the health check timer
  and reports a reconnection when the server had been lost before.
\<close>

theorem status_reply_updates_load:
  assumes "fs_state fs = querying_status" and "\<not> fs_bReloadingXml fs" and "fs_fsMsg fs = fsmsg_reset"
    and "\<forall>l \<in> set ls. is_line l" and "5 \<le> length ls"
    and "ls ! 3 = count_line cur r" and "ls ! 4 = count_line mx r'"
    and "n \<noteq> 0" and "length (unlines ls) = unat n"
  shows "read_handler healthMs fs (Some (api_header n @ unlines ls)) =
    Ret (StartTimer healthMs # (if fs_bDisconnected fs then [ThrowReconnect] else []),
         fs\<lparr>fs_nCurrentSessions := cur, fs_nMaxSessions := mx, fs_bDisconnected := False\<rparr>)"
proof -
  let ?m = "fsmsg_reset\<lparr>m_category := api, m_type := response, m_nContentLength := n,
      m_strContent := unlines ls, m_rawMsg := api_header n @ unlines ls, m_bValid := True,
      m_bComplete := True\<rparr>"
  have "append_data fsmsg_reset (api_header n @ unlines ls) = ?m"
    using append_api_first [OF assms(8,4), of "[]"] assms(9) by simp
  moreover have "getFsStatus ?m c x = Ret (True, cur, mx)" for c x
    using assms by (intro getFsStatus_counts) simp_all
  ultimately show ?thesis
    using assms(1-3)
    by (simp add: read_handler_def decide_def nothing_decided_def carry_out_def Let_def)
qed

theorem status_reply_updates_load_witness:
  "\<exists>fs. fs_bDisconnected fs \<and>
     read_handler 1000 fs (Some (api_header 18 @ ''a\<newline>b\<newline>c\<newline>7 up\<newline>30 max\<newline>'')) =
       Ret ([StartTimer 1000, ThrowReconnect],
            fs\<lparr>fs_nCurrentSessions := 7, fs_nMaxSessions := 30, fs_bDisconnected := False\<rparr>)"
proof -
  let ?fs = "(FsInstance_new ''fs1'' 8021 False)\<lparr>fs_state := querying_status, fs_bDisconnected := True\<rparr>"
  have "fs_bDisconnected ?fs \<and>
     read_handler 1000 ?fs (Some (api_header 18 @ unlines [''a'', ''b'', ''c'', ''7 up'', ''30 max''])) =
       Ret ([StartTimer 1000, ThrowReconnect],
            ?fs\<lparr>fs_nCurrentSessions := 7, fs_nMaxSessions := 30, fs_bDisconnected := False\<rparr>)"
    by (subst status_reply_updates_load [where cur = 7 and mx = 30 and r = "''up''" and r' = "''max''"])
      (simp_all add: FsInstance_new_def is_line_def unlines_def count_line_def string_eval)
  then show ?thesis by (intro exI [of _ ?fs]) (simp add: unlines_def)
qed

text \<open>
  C29. When a server can take calls: it is online and, when it allows two sessions or more, has
  more than two sessions left. For a limit of 0 or 1 the subtraction \<open>m_nMaxSessions - 2\<close> wraps
  around, and the server counts as available unless almost \<open>2\<^sup>32\<close> sessions are up.
\<close>

theorem availability_threshold:
  "isAvailable fs \<longleftrightarrow>
     isOnline fs \<and>
     (if unat (fs_nMaxSessions fs) < 2
      then unat (fs_nCurrentSessions fs) < 2 ^ 32 - 2 + unat (fs_nMaxSessions fs)
      else unat (fs_nCurrentSessions fs) + 2 < unat (fs_nMaxSessions fs))"
proof -
  let ?m = "fs_nMaxSessions fs"
  have "unat (?m - 2) = (if unat ?m < 2 then 2 ^ 32 - 2 + unat ?m else unat ?m - 2)"
    by (simp add: unat_sub_if')
  then show ?thesis
    by (auto simp: isAvailable_def isOnline_def word_less_nat_alt)
qed

text \<open>
  A server is offered calls before it has ever reported its load: the step that learns the
  SIP address puts a server with the initial limit of 0 sessions online, and it is available at
  once, before the first status reply.
\<close>

theorem available_before_first_status:
  assumes "fs_state fs = obtaining_sip_configuration" "fs_nMaxSessions fs = 0" "fs_nCurrentSessions fs = 0"
    and "read_handler healthMs fs (Some data) = Ret (acts, fs')" "isOnline fs'"
  shows "isAvailable fs' \<and> fs_nMaxSessions fs' = 0"
  using assms(4)
proof (cases rule: read_handler_cases)
  case (complete m d)
  from complete(1) show ?thesis
    using assms complete(2)
    by (cases rule: decide_cases)
      (auto simp: isOnline_def nothing_decided_def carry_out_def intro: isAvailable_no_limit)
qed (use assms in \<open>auto simp: isOnline_def\<close>)

theorem available_before_first_status_witness:
  "\<exists>acts fs'. read_handler 1000
      ((FsInstance_new ''fs1'' 8021 False)\<lparr>fs_state := obtaining_sip_configuration\<rparr>)
      (Some ''Content-Type: api/response\<newline>Content-Length: 23\<newline>\<newline>internal profile s:u@x\<newline>'')
        = Ret (acts, fs') \<and> isAvailable fs' \<and> fs_nMaxSessions fs' = 0"
proof -
  let ?fs = "(FsInstance_new ''fs1'' 8021 False)\<lparr>fs_state := obtaining_sip_configuration\<rparr>"
  let ?data = "''Content-Type: api/response\<newline>Content-Length: 23\<newline>\<newline>internal profile s:u@x\<newline>''"
  obtain acts fs' where r: "read_handler 1000 ?fs (Some ?data) = Ret (acts, fs')" "isOnline fs'"
    by (simp add: FsInstance_new_def read_handler_def append_data_def isOnline_def
        parse_def parse_line_def parse_content_type_def parse_content_def
        fsmsg_finished_def fsmsg_reset_def parse_category_def parse_type_def decide_def
        nothing_decided_def carry_out_def getSipProfile_def token_at_def string_eval)
  with available_before_first_status [OF _ _ _ r] show ?thesis
    by (auto simp: FsInstance_new_def)
qed

end
