(* ===== verification/Fs_Monitor.thy ===== *)
theory Fs_Monitor
  imports Fs_Instance Scheduler
begin

text \<open>
  \<open>FsMonitor\<close> (\<open>fs-monitor.h\<close>, \<open>fs-monitor.cpp\<close>): the pool of FreeSWITCH servers and the choice of
  the servers a call is offered to. The choice goes round robin over the servers that are
  available and, after every \<open>m_RRInterval\<close> calls, puts the least loaded server first. The list
  of servers holds the instances as they are when an operation runs; the lock that the operations
  take makes each of them one step.
\<close>

section \<open>Data\<close>

record FsMonitor =
  mon_servers :: "FsInstance list"
  mon_RRInterval :: u32
  mon_nLastServer :: u32
  mon_nLastRR :: u32
  mon_setServers :: "string list"

definition FsMonitor_new :: FsMonitor where
  "FsMonitor_new =
     \<lparr>mon_servers = [], mon_RRInterval = 0, mon_nLastServer = 0, mon_nLastRR = 0,
      mon_setServers = []\<rparr>"

abbreviation MAX_SERVERS_TO_TRY :: u32 where
  "MAX_SERVERS_TO_TRY \<equiv> 3"

definition capacity_sorter :: "FsInstance \<Rightarrow> FsInstance \<Rightarrow> bool" where
  "capacity_sorter a b =
     (if isAvailable a \<and> isAvailable b then getAvailableSessions a > getAvailableSessions b
      else if isAvailable a then True
      else False)"

definition setRoundRobinInterval :: "u32 \<Rightarrow> FsMonitor \<Rightarrow> FsMonitor" where
  "setRoundRobinInterval nInterval m = m\<lparr>mon_RRInterval := nInterval\<rparr>"

section \<open>The list of servers\<close>

text \<open>
  \<open>reset\<close>: the address and the port are variables declared outside the loop, so a server without
  a port gets the port of the server before it, and the first one reads a variable that has no
  value yet. A set keeps one copy of each address.
\<close>

definition set_insert :: "'a \<Rightarrow> 'a list \<Rightarrow> 'a list" where
  "set_insert x xs = (if x \<in> set xs then xs else xs @ [x])"

definition server_address :: "string \<Rightarrow> string \<Rightarrow> string" where
  "server_address previous s = (case tokenize '':'' s of [] \<Rightarrow> previous | a # _ \<Rightarrow> a)"

definition server_port :: "u32 option \<Rightarrow> string \<Rightarrow> u32 option" where
  "server_port previous s = (case tokenize '':'' s of _ # p # _ \<Rightarrow> Some (atoi p) | _ \<Rightarrow> previous)"

fun add_servers ::
  "string \<Rightarrow> u32 option \<Rightarrow> string list \<Rightarrow> FsMonitor \<Rightarrow> (fs_action list \<times> FsMonitor) outcome" where
  "add_servers strAddress nPort [] m = Ret ([], m)"
| "add_servers strAddress nPort (s # ss) m =
     (let address = server_address strAddress s; port = server_port nPort s
      in deref port (\<lambda>p.
           let (acts, fs) = fs_start (FsInstance_new address p False);
               m1 = m\<lparr>mon_servers := mon_servers m @ [fs],
                      mon_setServers := set_insert address (mon_setServers m)\<rparr>
           in obind (add_servers address port ss m1) (\<lambda>(acts', m2). Ret (acts @ acts', m2))))"

definition reset :: "string list \<Rightarrow> FsMonitor \<Rightarrow> (fs_action list \<times> FsMonitor) outcome" where
  "reset servers m = add_servers [] None servers (m\<lparr>mon_servers := [], mon_setServers := []\<rparr>)"

definition getAllServers :: "FsMonitor \<Rightarrow> FsInstance list" where
  "getAllServers m = mon_servers m"

definition isAppserver :: "FsMonitor \<Rightarrow> string \<Rightarrow> bool" where
  "isAppserver m sourceAddress \<longleftrightarrow> sourceAddress \<in> set (mon_setServers m)"

definition notifySipServerAddress :: "string \<Rightarrow> string \<Rightarrow> u32 \<Rightarrow> FsMonitor \<Rightarrow> FsMonitor" where
  "notifySipServerAddress fsAddress sipAddress sipPort m =
     m\<lparr>mon_setServers := set_insert sipAddress (removeAll fsAddress (mon_setServers m))\<rparr>"

definition monitor_toString :: "FsInstance list \<Rightarrow> string" where
  "monitor_toString d =
     concat (map (\<lambda>fs. fs_strSipAddress fs @
       (if fs_nSipPort fs \<noteq> 0 then '':'' @ show_u32 (fs_nSipPort fs) else [])) d)"

section \<open>The choice of servers\<close>

text \<open>
  The \<open>do ... while\<close> loop of \<open>getAvailableServers\<close>; \<open>None\<close> is a loop that does not end or an index
  that is out of range.
\<close>

definition next_index :: "u32 \<Rightarrow> u32 \<Rightarrow> u32" where
  "next_index total_servers i = (if i + 1 < total_servers then i + 1 else 0)"

partial_function (option) scan_servers ::
  "FsInstance list \<Rightarrow> u32 \<Rightarrow> u32 \<Rightarrow> u32 \<Rightarrow> u32 \<Rightarrow> u32 \<Rightarrow> FsInstance list \<Rightarrow>
   (FsInstance list \<times> u32) option" where
  "scan_servers servers total_servers nReturnCount start current nLastServer results =
     (if unat current < length servers then
        let fs = servers ! unat current;
            results1 = (if isAvailable fs then results @ [fs] else results);
            nLastServer1 = (if \<not> isAvailable fs \<and> nLastServer = current
                            then nLastServer + 1 else nLastServer);
            current1 = next_index total_servers current
        in if current1 \<noteq> start \<and> length results1 < unat nReturnCount
           then scan_servers servers total_servers nReturnCount start current1 nLastServer1 results1
           else Some (results1, nLastServer1)
      else None)"

text \<open>
  \<open>getAvailableServers\<close>: \<open>sorter\<close> is \<open>std::sort\<close> with \<open>capacity_sorter\<close>, whose result is not
  determined when servers are equally loaded. The result \<open>[]\<close> stands for \<open>false\<close>.
\<close>

definition getAvailableServers ::
  "(FsInstance list \<Rightarrow> FsInstance list) \<Rightarrow> FsMonitor \<Rightarrow> (FsInstance list \<times> FsMonitor) option" where
  "getAvailableServers sorter m =
     (let total_servers = word_of_nat (length (mon_servers m));
          nReturnCount = min MAX_SERVERS_TO_TRY total_servers
      in if nReturnCount = 0 then Some ([], m)
         else let start = next_index total_servers (mon_nLastServer m)
           in case scan_servers (mon_servers m) total_servers nReturnCount start start start [] of
                None \<Rightarrow> None
              | Some (results, nLastServer) \<Rightarrow>
                  let m1 = m\<lparr>mon_nLastServer := nLastServer\<rparr>
                  in if results = [] then Some ([], m1)
                     else if mon_RRInterval m > 0 \<and> total_servers > 1 then
                       if mon_nLastRR m + 1 > mon_RRInterval m then
                         Some (sorter (mon_servers m) ! 0 # results, m1\<lparr>mon_nLastRR := 0\<rparr>)
                       else Some (results, m1\<lparr>mon_nLastRR := mon_nLastRR m + 1\<rparr>)
                     else Some (results, m1))"

section \<open>The loop\<close>

lemma unat_next_index:
  assumes "n = unat total_servers" "0 < n" "unat i < n"
  shows "unat (next_index total_servers i) = Suc (unat i) mod n"
proof (cases "Suc (unat i) < n")
  case True
  moreover have "unat (i + 1) = Suc (unat i)"
    using assms by (intro unat_Suc_less [of i total_servers]) (simp add: word_less_nat_alt)
  ultimately show ?thesis using assms by (simp add: next_index_def word_less_nat_alt)
next
  case False
  with assms have n: "Suc (unat i) = unat total_servers" by simp
  then have "word_of_nat (Suc (unat i)) = (word_of_nat (unat total_servers) :: u32)" by simp
  then have "i + 1 = total_servers" by (simp add: add.commute)
  with n assms show ?thesis by (simp add: next_index_def)
qed

lemma next_index_less: "0 < total_servers \<Longrightarrow> next_index total_servers i < total_servers"
  by (simp add: next_index_def)

text \<open>How far the unavailable servers reach, counted from \<open>start\<close> to the end of the list.\<close>

definition skipped :: "FsInstance list \<Rightarrow> nat \<Rightarrow> nat" where
  "skipped servers start = length (takeWhile (\<lambda>fs. \<not> isAvailable fs) (drop start servers))"

lemma length_takeWhile_Suc:
  assumes "j < length xs"
  shows "length (takeWhile P (take (Suc j) xs)) =
    (if length (takeWhile P (take j xs)) = j \<and> P (xs ! j) then Suc j
     else length (takeWhile P (take j xs)))"
proof (cases "\<forall>x \<in> set (take j xs). P x")
  case True
  then have "length (takeWhile P (take j xs)) = j"
    using assms by (simp add: takeWhile_eq_all_conv [THEN iffD2])
  with True assms show ?thesis
    by (simp add: take_Suc_conv_app_nth takeWhile_append)
next
  case False
  then have "takeWhile P (take j xs @ [xs ! j]) = takeWhile P (take j xs)" by auto
  moreover have "length (takeWhile P (take j xs)) \<noteq> j"
  proof
    assume "length (takeWhile P (take j xs)) = j"
    then have "takeWhile P (take j xs) = take j xs"
      using assms by (metis takeWhile_eq_take length_take take_all min.absorb4 order_refl)
    with False show False by (metis set_takeWhileD)
  qed
  ultimately show ?thesis using assms by (simp add: take_Suc_conv_app_nth)
qed

text \<open>The state of the loop after \<open>j\<close> servers, counted from \<open>start\<close>.\<close>

definition skipped_in :: "FsInstance list \<Rightarrow> nat \<Rightarrow> nat \<Rightarrow> nat" where
  "skipped_in servers start j =
     length (takeWhile (\<lambda>fs. \<not> isAvailable fs) (take j (drop start servers)))"

definition found_in :: "FsInstance list \<Rightarrow> nat \<Rightarrow> nat \<Rightarrow> FsInstance list" where
  "found_in servers start j = filter isAvailable (take j (rotate start servers))"

lemma found_in_Suc:
  assumes "j < length servers"
  shows "found_in servers start (Suc j) =
    (let fs = servers ! ((start + j) mod length servers)
     in if isAvailable fs then found_in servers start j @ [fs] else found_in servers start j)"
  using assms by (simp add: found_in_def take_Suc_conv_app_nth nth_rotate Let_def)

lemma take_found_in: "take (length (found_in servers start j)) (found_in servers start n) =
    (if j \<le> n then found_in servers start j else found_in servers start n)"
proof (cases "j \<le> n")
  case True
  then have "found_in servers start n =
      found_in servers start j @ filter isAvailable (take (n - j) (drop j (rotate start servers)))"
    by (metis found_in_def filter_append le_add_diff_inverse take_add)
  with True show ?thesis by simp
next
  case False
  then have "found_in servers start j =
      found_in servers start n @ filter isAvailable (take (j - n) (drop n (rotate start servers)))"
    by (metis found_in_def filter_append le_add_diff_inverse take_add nat_le_linear)
  with False show ?thesis by simp
qed

lemma skipped_in_Suc:
  assumes "start < length servers" "j < length servers"
  shows "skipped_in servers start (Suc j) =
    (if start + skipped_in servers start j = (start + j) mod length servers \<and>
        \<not> isAvailable (servers ! ((start + j) mod length servers))
     then Suc (skipped_in servers start j) else skipped_in servers start j)"
proof (cases "start + j < length servers")
  case True
  then show ?thesis
    using length_takeWhile_Suc [of j "drop start servers" "\<lambda>fs. \<not> isAvailable fs"]
    by (auto simp: skipped_in_def)
next
  case False
  then have "(start + j) mod length servers = start + j - length servers"
    using assms by (simp add: mod_if)
  with False assms have "(start + j) mod length servers < start" by linarith
  with False assms show ?thesis by (simp add: skipped_in_def)
qed

lemma skipped_in_all: "length servers \<le> start + j \<Longrightarrow> skipped_in servers start j = skipped servers start"
  by (simp add: skipped_in_def skipped_def)

lemma skipped_in_found:
  assumes "start < length servers" "found_in servers start j \<noteq> []"
  shows "skipped_in servers start j = skipped servers start"
proof (cases "length servers \<le> start + j")
  case False
  have "rotate start servers = drop start servers @ take start servers"
    using assms(1) by (simp add: rotate_drop_take)
  with False have "take j (rotate start servers) = take j (drop start servers)" by simp
  with assms(2) obtain fs where "fs \<in> set (take j (drop start servers))" "isAvailable fs"
    by (auto simp: found_in_def filter_empty_conv)
  then have "takeWhile (\<lambda>fs. \<not> isAvailable fs) (take j (drop start servers) @ drop j (drop start servers)) =
      takeWhile (\<lambda>fs. \<not> isAvailable fs) (take j (drop start servers))"
    by (intro takeWhile_append1) auto
  then show ?thesis by (simp add: skipped_in_def skipped_def del: drop_drop)
qed (simp add: skipped_in_all)

text \<open>One round of the loop, from the state after \<open>j\<close> servers to that after \<open>Suc j\<close>, and its end.\<close>

lemma scan_round:
  assumes j: "j < length servers" and s: "unat start < length servers"
    and n: "length servers = unat total_servers"
    and cur: "unat current = (unat start + j) mod length servers"
    and lst: "unat lst = unat start + skipped_in servers (unat start) j"
  shows "unat (next_index total_servers current) = (unat start + Suc j) mod length servers"
    "unat (if \<not> isAvailable (servers ! unat current) \<and> lst = current then lst + 1 else lst) =
      unat start + skipped_in servers (unat start) (Suc j)"
    "next_index total_servers current = start \<longleftrightarrow> Suc j = length servers"
proof -
  have c: "unat current < length servers" using cur s by (cases servers) simp_all
  show next_current: "unat (next_index total_servers current) = (unat start + Suc j) mod length servers"
    using n cur c by (simp add: unat_next_index mod_Suc_eq)
  have "unat (lst + 1) = Suc (unat lst)" if "lst = current"
    using that c n by (intro unat_Suc_less [of _ total_servers]) (simp add: word_less_nat_alt)
  then show "unat (if \<not> isAvailable (servers ! unat current) \<and> lst = current then lst + 1 else lst) =
      unat start + skipped_in servers (unat start) (Suc j)"
    using assms by (auto simp: skipped_in_Suc word_unat_eq_iff)
  have "(unat start + Suc j) mod length servers = unat start \<longleftrightarrow> Suc j = length servers"
    using j s by (auto simp: mod_if)
  with next_current show "next_index total_servers current = start \<longleftrightarrow> Suc j = length servers"
    by (metis word_unat_eq_iff)
qed

lemma scan_end:
  assumes "start < length servers" "j \<le> length servers"
    and "j = length servers \<or> found_in servers start j \<noteq> [] \<and> length (found_in servers start j) = k"
    and "length (found_in servers start j) \<le> k"
  shows "take k (filter isAvailable (rotate start servers)) = found_in servers start j"
    "skipped_in servers start j = skipped servers start"
proof -
  have "filter isAvailable (rotate start servers) = found_in servers start (length servers)"
    by (simp add: found_in_def)
  then show "take k (filter isAvailable (rotate start servers)) = found_in servers start j"
    using assms take_found_in [of servers start j "length servers"] by auto
  show "skipped_in servers start j = skipped servers start"
    using assms by (auto intro: skipped_in_found simp: skipped_in_all)
qed

lemma scan_servers_state:
  assumes "j < length servers" and "unat start < length servers"
    and "length servers = unat total_servers"
    and "unat current = (unat start + j) mod length servers"
    and "unat lst = unat start + skipped_in servers (unat start) j"
    and "results = found_in servers (unat start) j" and "length results < unat k"
  shows "\<exists>lst'. scan_servers servers total_servers k start current lst results =
      Some (take (unat k) (filter isAvailable (rotate (unat start) servers)), lst') \<and>
    unat lst' = unat start + skipped servers (unat start)"
  using assms
proof (induction "length servers - j" arbitrary: j current lst results)
  case 0
  then show ?case by simp
next
  case (Suc n)
  let ?fs = "servers ! unat current"
  let ?results = "if isAvailable ?fs then results @ [?fs] else results"
  let ?lst = "if \<not> isAvailable ?fs \<and> lst = current then lst + 1 else lst"
  let ?current = "next_index total_servers current"
  note round = scan_round [OF Suc.prems(1-5)]
  have cur: "unat current < length servers" using Suc.prems by simp
  have results: "?results = found_in servers (unat start) (Suc j)"
    using Suc.prems by (simp add: found_in_Suc Let_def)
  show ?case
  proof (cases "?current \<noteq> start \<and> length ?results < unat k")
    case True
    then show ?thesis
      using Suc.hyps(1) [OF _ _ Suc.prems(2,3) round(1,2) results] Suc.hyps(2) Suc.prems(1,2) cur round(3)
      by (subst scan_servers.simps) (simp add: Let_def)
  next
    case False
    then have "Suc j = length servers \<or> ?results \<noteq> [] \<and> length ?results = unat k" "length ?results \<le> unat k"
      using round(3) Suc.prems(7) by auto
    then have "take (unat k) (filter isAvailable (rotate (unat start) servers)) = ?results"
      "unat ?lst = unat start + skipped servers (unat start)"
      using scan_end [of "unat start" servers "Suc j" "unat k"] Suc.prems(1,2) results round(2) by simp_all
    moreover have "scan_servers servers total_servers k start current lst results = Some (?results, ?lst)"
      by (subst scan_servers.simps) (simp only: Let_def cur False if_True if_False)
    ultimately show ?thesis by (intro exI [of _ ?lst] conjI) (simp_all only:)
  qed
qed

section \<open>What a call offers\<close>

text \<open>
  The specification of the choice: the position after the last one used, the first three
  available servers from there on, and whether it is the least loaded server's turn.
\<close>

definition rr_start :: "FsMonitor \<Rightarrow> nat" where
  "rr_start m =
     (if Suc (unat (mon_nLastServer m)) < length (mon_servers m)
      then Suc (unat (mon_nLastServer m)) else 0)"

definition offered :: "FsMonitor \<Rightarrow> FsInstance list" where
  "offered m = take 3 (filter isAvailable (rotate (rr_start m) (mon_servers m)))"

definition least_loaded_turn :: "FsMonitor \<Rightarrow> bool" where
  "least_loaded_turn m \<longleftrightarrow>
     mon_RRInterval m > 0 \<and> 1 < length (mon_servers m) \<and> mon_nLastRR m + 1 > mon_RRInterval m"

definition chosen :: "(FsInstance list \<Rightarrow> FsInstance list) \<Rightarrow> FsMonitor \<Rightarrow> FsInstance list" where
  "chosen sorter m =
     (if offered m = [] then []
      else if least_loaded_turn m then sorter (mon_servers m) ! 0 # offered m
      else offered m)"

definition moved_on :: "FsMonitor \<Rightarrow> FsMonitor" where
  "moved_on m =
     (if mon_servers m = [] then m
      else let m1 = m\<lparr>mon_nLastServer := word_of_nat (rr_start m + skipped (mon_servers m) (rr_start m))\<rparr>
        in if offered m = [] \<or> \<not> (mon_RRInterval m > 0 \<and> 1 < length (mon_servers m)) then m1
           else if least_loaded_turn m then m1\<lparr>mon_nLastRR := 0\<rparr>
           else m1\<lparr>mon_nLastRR := mon_nLastRR m + 1\<rparr>)"

lemma rr_start_less: "mon_servers m \<noteq> [] \<Longrightarrow> rr_start m < length (mon_servers m)"
  by (simp add: rr_start_def)

lemma unat_next_index_start:
  assumes "unat total_servers = length (mon_servers m)" "mon_servers m \<noteq> []"
  shows "unat (next_index total_servers (mon_nLastServer m)) = rr_start m"
proof (cases "unat (mon_nLastServer m) < length (mon_servers m)")
  case True
  then show ?thesis
    using assms unat_next_index [of "length (mon_servers m)" total_servers "mon_nLastServer m"]
    by (auto simp: rr_start_def mod_if)
next
  case False
  moreover have "unat (mon_nLastServer m + 1) = Suc (unat (mon_nLastServer m)) mod 2 ^ 32"
    by (simp add: unat_word_ariths)
  moreover have "unat (mon_nLastServer m) < 2 ^ 32" using unsigned_less [of "mon_nLastServer m"] by simp
  ultimately show ?thesis
    using assms by (auto simp: rr_start_def next_index_def word_less_nat_alt mod_if)
qed

lemma getAvailableServers_eq:
  assumes "length (mon_servers m) < 2 ^ 32"
  shows "getAvailableServers sorter m = Some (chosen sorter m, moved_on m)"
proof (cases "mon_servers m = []")
  case True
  then show ?thesis by (simp add: getAvailableServers_def chosen_def moved_on_def offered_def)
next
  case False
  let ?n = "length (mon_servers m)" and ?s = "rr_start m"
  define total_servers :: u32 where "total_servers = word_of_nat ?n"
  define start where "start = next_index total_servers (mon_nLastServer m)"
  define k where "k = min MAX_SERVERS_TO_TRY total_servers"
  have n: "unat total_servers = ?n"
    using assms by (simp add: total_servers_def unat_of_nat)
  have s: "unat start = ?s" using unat_next_index_start [OF n False] by (simp add: start_def)
  have k: "unat k = min 3 ?n"
    by (simp add: k_def min_def word_le_nat_alt n)
  then have "0 < unat k" using False by simp
  then have "k \<noteq> 0" by auto
  have "\<exists>lst. scan_servers (mon_servers m) total_servers k start start start [] =
      Some (take (unat k) (filter isAvailable (rotate (unat start) (mon_servers m))), lst) \<and>
    unat lst = unat start + skipped (mon_servers m) (unat start)"
    using False n rr_start_less [OF False] \<open>0 < unat k\<close>
    by (intro scan_servers_state [where j = 0]) (simp_all add: s skipped_in_def found_in_def)
  then obtain lst where scan: "scan_servers (mon_servers m) total_servers k start start start [] =
      Some (take (unat k) (filter isAvailable (rotate ?s (mon_servers m))), lst)"
    and lst: "unat lst = ?s + skipped (mon_servers m) ?s"
    unfolding s by blast
  have "length (filter isAvailable (rotate ?s (mon_servers m))) \<le> ?n"
    by (metis length_filter_le length_rotate)
  then have off: "take (unat k) (filter isAvailable (rotate ?s (mon_servers m))) = offered m"
    by (simp add: k offered_def min_def)
  have "lst = word_of_nat (?s + skipped (mon_servers m) ?s)"
    by (simp add: lst [symmetric])
  moreover have "total_servers > 1 \<longleftrightarrow> 1 < ?n" by (simp add: word_less_nat_alt n)
  ultimately show ?thesis
    using False scan off \<open>k \<noteq> 0\<close>
    by (simp add: getAvailableServers_def chosen_def moved_on_def least_loaded_turn_def Let_def
        flip: total_servers_def k_def start_def)
qed

section \<open>The comparison of loads\<close>

lemma capacity_sorter_iff:
  "capacity_sorter a b \<longleftrightarrow>
     isAvailable a \<and> (isAvailable b \<longrightarrow> getAvailableSessions b < getAvailableSessions a)"
  by (simp add: capacity_sorter_def)

interpretation capacity: weak_order capacity_sorter
proof unfold_locales
  show "\<not> capacity_sorter a a" for a by (simp add: capacity_sorter_iff)
  show "capacity_sorter a b \<Longrightarrow> capacity_sorter b c \<Longrightarrow> capacity_sorter a c" for a b c
    unfolding capacity_sorter_iff by (blast intro: less_trans)
  show "\<not> capacity_sorter a b \<Longrightarrow> \<not> capacity_sorter b a \<Longrightarrow> \<not> capacity_sorter b c \<Longrightarrow>
      \<not> capacity_sorter c b \<Longrightarrow> \<not> capacity_sorter a c \<and> \<not> capacity_sorter c a" for a b c
    unfolding capacity_sorter_iff not_less
    by (cases "isAvailable a"; cases "isAvailable b"; cases "isAvailable c") simp_all
qed

lemma set_offered: "set (offered m) \<subseteq> {fs \<in> set (mon_servers m). isAvailable fs}"
  by (auto simp: offered_def dest!: in_set_takeD)

lemma offered_empty_iff: "offered m = [] \<longleftrightarrow> (\<forall>fs \<in> set (mon_servers m). \<not> isAvailable fs)"
  by (simp add: offered_def filter_empty_conv)

lemma least_loaded_first:
  assumes "sort_result capacity_sorter servers (sorter servers)"
    and "fs \<in> set servers" "isAvailable fs"
  shows "sorter servers ! 0 \<in> set servers \<and> isAvailable (sorter servers ! 0) \<and>
    getAvailableSessions fs \<le> getAvailableSessions (sorter servers ! 0)"
proof -
  have "set (sorter servers) = set servers"
    using assms(1) by (metis mset_eq_setD sort_result_def)
  with assms(2) obtain b bs where b: "sorter servers = b # bs" "b \<in> set servers"
    by (cases "sorter servers") auto
  then have "\<not> capacity_sorter fs b"
    using assms(1,2) capacity.sort_result_head by metis
  with assms(3) b show ?thesis by (simp add: capacity_sorter_iff not_less)
qed

lemma set_chosen:
  assumes "sort_result capacity_sorter (mon_servers m) (sorter (mon_servers m))"
  shows "set (chosen sorter m) \<subseteq> {fs \<in> set (mon_servers m). isAvailable fs}"
proof (cases "offered m")
  case (Cons fs fss)
  then have "fs \<in> set (mon_servers m)" "isAvailable fs" using set_offered [of m] by auto
  with least_loaded_first [of "mon_servers m" sorter fs] assms set_offered [of m] show ?thesis
    by (auto simp: chosen_def)
qed (simp add: chosen_def)

section \<open>Round robin over available servers\<close>

text \<open>One call, as the caller uses it: the first server offered.\<close>

definition next_server ::
  "(FsInstance list \<Rightarrow> FsInstance list) \<Rightarrow> FsMonitor \<Rightarrow> FsInstance option \<times> FsMonitor" where
  "next_server sorter m =
     (case getAvailableServers sorter m of
        Some (fs # _, m') \<Rightarrow> (Some fs, m') | Some ([], m') \<Rightarrow> (None, m') | None \<Rightarrow> (None, m))"

definition all_available :: "FsMonitor \<Rightarrow> bool" where
  "all_available m \<longleftrightarrow>
     mon_servers m \<noteq> [] \<and> length (mon_servers m) < 2 ^ 32 \<and> mon_RRInterval m = 0 \<and>
     unat (mon_nLastServer m) < length (mon_servers m) \<and> (\<forall>fs \<in> set (mon_servers m). isAvailable fs)"

lemma next_server_all_available:
  assumes "all_available m"
  shows "next_server sorter m =
    (Some (mon_servers m ! rr_start m), m\<lparr>mon_nLastServer := word_of_nat (rr_start m)\<rparr>)"
proof -
  have ne: "mon_servers m \<noteq> []" and av: "filter isAvailable (rotate (rr_start m) (mon_servers m)) =
      rotate (rr_start m) (mon_servers m)"
    using assms by (simp_all add: all_available_def)
  note less = rr_start_less [OF ne]
  have head: "rotate (rr_start m) (mon_servers m) =
      mon_servers m ! rr_start m # tl (rotate (rr_start m) (mon_servers m))"
    using less ne by (metis hd_rotate_conv_nth list.collapse mod_less rotate_is_Nil_conv)
  have "skipped (mon_servers m) (rr_start m) = 0"
    using less assms by (simp add: skipped_def all_available_def Cons_nth_drop_Suc [symmetric])
  moreover have "offered m = mon_servers m ! rr_start m # take 2 (tl (rotate (rr_start m) (mon_servers m)))"
    unfolding offered_def av by (subst head) (simp add: numeral_3_eq_3 numeral_2_eq_2)
  ultimately show ?thesis
    using assms
    by (simp add: next_server_def getAvailableServers_eq all_available_def chosen_def moved_on_def
        least_loaded_turn_def Let_def)
qed

interpretation servers: cyclic_scheduler "next_server sorter" all_available
  "\<lambda>m. map Some (mon_servers m)" "\<lambda>m. Suc (unat (mon_nLastServer m))" for sorter
proof unfold_locales
  fix m
  assume m: "all_available m"
  then have less: "rr_start m < length (mon_servers m)" and small: "length (mon_servers m) < 2 ^ 32"
    by (simp_all add: rr_start_less all_available_def)
  then have unat: "unat (word_of_nat (rr_start m) :: u32) = rr_start m"
    by (simp add: unat_of_nat)
  have start: "Suc (unat (mon_nLastServer m)) mod length (mon_servers m) = rr_start m"
    using m by (auto simp: rr_start_def all_available_def mod_if)
  show "map Some (mon_servers m) \<noteq> []" using m by (simp add: all_available_def)
  show "all_available (snd (next_server sorter m))"
    using m less unat by (simp add: next_server_all_available) (simp add: all_available_def)
  show "map Some (mon_servers (snd (next_server sorter m))) = map Some (mon_servers m)"
    using m by (simp add: next_server_all_available)
  show "fst (next_server sorter m) = map Some (mon_servers m) !
      (Suc (unat (mon_nLastServer m)) mod length (map Some (mon_servers m)))"
    using m less start by (simp add: next_server_all_available)
  show "Suc (unat (mon_nLastServer (snd (next_server sorter m)))) mod length (map Some (mon_servers m)) =
      Suc (Suc (unat (mon_nLastServer m))) mod length (map Some (mon_servers m))"
    using m unat start by (simp add: next_server_all_available) (metis mod_Suc_eq)
qed

section \<open>Addresses of the servers\<close>

text \<open>The strings \<open>reset\<close> is called with: an address without a colon, and a port.\<close>

definition host_port :: "string \<Rightarrow> u32 \<Rightarrow> string" where
  "host_port address port = address @ '':'' @ show_u32 port"

lemma tokenize_host_port:
  assumes "a \<noteq> []" "CHR '':'' \<notin> set a"
  shows "tokenize '':'' (host_port a p) = [a, show_u32 p]"
proof -
  have "CHR '':'' \<notin> set (show_u32 p)"
    using show_nat_digits [of "CHR '':''" "unat p"] by (auto simp: is_digit_def show_u32_def)
  then have "tokenize '':'' (show_u32 p) = [show_u32 p]"
    by (intro tokenize_single) (simp_all add: show_u32_def)
  with assms tokenize_token [of a "'':''" "CHR '':''" "show_u32 p"] show ?thesis
    by (simp add: host_port_def)
qed

lemma add_servers_host_port:
  assumes "\<forall>(a, p) \<in> set aps. a \<noteq> [] \<and> CHR '':'' \<notin> set a"
  shows "add_servers addr port (map (\<lambda>(a, p). host_port a p) aps) m =
    Ret (concat (map (\<lambda>(a, p). fst (fs_start (FsInstance_new a p False))) aps),
         m\<lparr>mon_servers := mon_servers m @ map (\<lambda>(a, p). snd (fs_start (FsInstance_new a p False))) aps,
           mon_setServers := fold (\<lambda>(a, p). set_insert a) aps (mon_setServers m)\<rparr>)"
  using assms
proof (induction aps arbitrary: addr port m)
  case (Cons ap aps)
  then show ?case
    by (cases ap)
      (simp add: server_address_def server_port_def tokenize_host_port Let_def split_beta)
qed simp

section \<open>Properties\<close>

text \<open>
  C18. The choice of servers for a call always ends and follows its specification: the first three
  available servers, going round robin from the one after the last position, preceded on the
  turns of the least loaded server by the first of the sorted list; it fails exactly when no
  server is available, offers only servers that are available, and never more than four.
\<close>

theorem server_choice:
  assumes "length (mon_servers m) < 2 ^ 32"
    and "sort_result capacity_sorter (mon_servers m) (sorter (mon_servers m))"
  shows "\<exists>results m'. getAvailableServers sorter m = Some (results, m') \<and>
    (results = [] \<longleftrightarrow> (\<forall>fs \<in> set (mon_servers m). \<not> isAvailable fs)) \<and>
    set results \<subseteq> {fs \<in> set (mon_servers m). isAvailable fs} \<and> length results \<le> 4 \<and>
    (results \<noteq> [] \<and> \<not> least_loaded_turn m \<longrightarrow>
       results = take 3 (filter isAvailable (rotate (rr_start m) (mon_servers m)))) \<and>
    mon_servers m' = mon_servers m"
proof (intro exI conjI)
  show "getAvailableServers sorter m = Some (chosen sorter m, moved_on m)"
    by (rule getAvailableServers_eq [OF assms(1)])
  show "chosen sorter m = [] \<longleftrightarrow> (\<forall>fs \<in> set (mon_servers m). \<not> isAvailable fs)"
    using offered_empty_iff [of m] by (auto simp: chosen_def)
  show "set (chosen sorter m) \<subseteq> {fs \<in> set (mon_servers m). isAvailable fs}"
    by (rule set_chosen [of m sorter, OF assms(2)])
  show "length (chosen sorter m) \<le> 4" by (simp add: chosen_def offered_def min_def)
  show "chosen sorter m \<noteq> [] \<and> \<not> least_loaded_turn m \<longrightarrow>
      chosen sorter m = take 3 (filter isAvailable (rotate (rr_start m) (mon_servers m)))"
    by (simp add: chosen_def offered_def)
  show "mon_servers (moved_on m) = mon_servers m" by (simp add: moved_on_def Let_def)
qed

text \<open>Servers for the examples: one with \<open>cur\<close> of \<open>mx\<close> sessions in use, one that is starting.\<close>

definition example_server :: "string \<Rightarrow> u32 \<Rightarrow> u32 \<Rightarrow> FsInstance" where
  "example_server a cur mx = (FsInstance_new a 8021 False)
     \<lparr>fs_state := querying_status, fs_strSipAddress := a, fs_nSipPort := 5060,
      fs_nCurrentSessions := cur, fs_nMaxSessions := mx\<rparr>"

definition example_monitor :: FsMonitor where
  "example_monitor = FsMonitor_new
     \<lparr>mon_servers := [example_server ''a'' 90 100, example_server ''b'' 10 100,
        FsInstance_new ''c'' 8021 False]\<rparr>"

lemma example_monitor_available:
  "isAvailable (example_server ''a'' 90 100)" "isAvailable (example_server ''b'' 10 100)"
  "\<not> isAvailable (FsInstance_new ''c'' 8021 False)"
  by (simp_all add: example_server_def FsInstance_new_def isAvailable_def)

theorem server_choice_witness:
  "\<exists>results m'. getAvailableServers (sort_by capacity_sorter) example_monitor = Some (results, m') \<and>
     results = [example_server ''b'' 10 100, example_server ''a'' 90 100]"
proof -
  have "\<not> least_loaded_turn example_monitor" "rr_start example_monitor = 1"
    by (simp_all add: example_monitor_def FsMonitor_new_def least_loaded_turn_def rr_start_def)
  moreover have "length (mon_servers example_monitor) < 2 ^ 32"
    by (simp add: example_monitor_def)
  moreover have "\<not> (\<forall>fs \<in> set (mon_servers example_monitor). \<not> isAvailable fs)"
    "take 3 (filter isAvailable (rotate 1 (mon_servers example_monitor))) =
       [example_server ''b'' 10 100, example_server ''a'' 90 100]"
    by (simp_all add: example_monitor_def example_monitor_available)
  ultimately show ?thesis
    using server_choice [of example_monitor "sort_by capacity_sorter"] capacity.sort_by_result
    by metis
qed



text \<open>
  On its turn the least loaded server is offered first: it is available, and no available
  server has more sessions left.
\<close>

theorem least_loaded_server_first:
  assumes "length (mon_servers m) < 2 ^ 32"
    and "sort_result capacity_sorter (mon_servers m) (sorter (mon_servers m))"
    and "least_loaded_turn m" and "fs \<in> set (mon_servers m)" "isAvailable fs"
  shows "\<exists>best results m'. getAvailableServers sorter m = Some (best # results, m') \<and>
    best \<in> set (mon_servers m) \<and> isAvailable best \<and>
    getAvailableSessions fs \<le> getAvailableSessions best \<and> mon_nLastRR m' = 0"
proof -
  have "offered m \<noteq> []" using assms(4,5) by (auto simp: offered_empty_iff)
  then have "getAvailableServers sorter m =
      Some (sorter (mon_servers m) ! 0 # offered m, moved_on m)" "mon_nLastRR (moved_on m) = 0"
    using assms(1,3)
    by (auto simp: getAvailableServers_eq chosen_def moved_on_def least_loaded_turn_def Let_def)
  with least_loaded_first [of "mon_servers m" sorter, OF assms(2,4,5)] show ?thesis by blast
qed

theorem least_loaded_server_first_witness:
  "\<exists>best results m'. getAvailableServers (sort_by capacity_sorter)
      (example_monitor\<lparr>mon_RRInterval := 1, mon_nLastRR := 1\<rparr>) = Some (best # results, m') \<and>
    90 \<le> getAvailableSessions best \<and> mon_nLastRR m' = 0"
proof -
  have "\<exists>best results m'. getAvailableServers (sort_by capacity_sorter)
      (example_monitor\<lparr>mon_RRInterval := 1, mon_nLastRR := 1\<rparr>) = Some (best # results, m') \<and>
      best \<in> set (mon_servers (example_monitor\<lparr>mon_RRInterval := 1, mon_nLastRR := 1\<rparr>)) \<and>
      isAvailable best \<and>
      getAvailableSessions (example_server ''b'' 10 100) \<le> getAvailableSessions best \<and>
      mon_nLastRR m' = 0"
    using example_monitor_available
    by (intro least_loaded_server_first capacity.sort_by_result)
      (simp_all add: example_monitor_def FsMonitor_new_def least_loaded_turn_def)
  moreover have "getAvailableSessions (example_server ''b'' 10 100) = 90"
    by (simp add: example_server_def FsInstance_new_def getAvailableSessions_def)
  ultimately show ?thesis by metis
qed

text \<open>
  Unavailable servers at the end of the list make the round robin uneven: when the turn
  comes to a position from which no server up to the end is available, and the least loaded rule
  is off, the first server of the list gets this call and also the next one.
\<close>

theorem first_server_served_twice:
  assumes "length (mon_servers m) < 2 ^ 32" and "mon_RRInterval m = 0"
    and "mon_servers m = fs # fss" and "isAvailable fs"
    and "\<forall>g \<in> set (drop (rr_start m) (mon_servers m)). \<not> isAvailable g"
  shows "fst (next_server sorter m) = Some fs \<and>
    fst (next_server sorter (snd (next_server sorter m))) = Some fs"
proof -
  let ?l = "mon_servers m" and ?s = "rr_start m"
  have s: "0 < ?s" "?s < length ?l"
    using assms(3,4,5) rr_start_less [of m] by (cases "?s", auto)
  have first: "offered n = fs # take 2 (filter isAvailable (drop 1 (rotate (rr_start n) ?l)))"
    if "mon_servers n = ?l" "rr_start n = 0" for n
    using that assms(3,4) by (simp add: offered_def numeral_3_eq_3 numeral_2_eq_2)
  have "filter isAvailable (drop ?s ?l) = []" using assms(5) by (simp add: filter_empty_conv)
  moreover have "take ?s ?l = fs # take (?s - 1) fss"
    using assms(3) s by (cases "?s") simp_all
  ultimately have "\<exists>gs. offered m = fs # gs"
    using s assms(4) by (simp add: offered_def rotate_drop_take numeral_3_eq_3)
  then obtain gs where gs: "offered m = fs # gs" ..
  have "takeWhile (\<lambda>fs. \<not> isAvailable fs) (drop ?s ?l) = drop ?s ?l"
    unfolding takeWhile_eq_all_conv by (rule assms(5))
  then have "skipped ?l ?s = length ?l - ?s" by (simp only: skipped_def length_drop)
  with s assms(1) have "unat (word_of_nat (?s + skipped ?l ?s) :: u32) = length ?l"
    by (simp add: unat_of_nat)
  then have "rr_start (moved_on m) = 0" "mon_servers (moved_on m) = ?l" "mon_RRInterval (moved_on m) = 0"
    using assms(2,3) by (auto simp: moved_on_def rr_start_def Let_def)
  then have "offered (moved_on m) = fs # take 2 (filter isAvailable (drop 1 (rotate 0 ?l)))"
    using first [of "moved_on m"] by simp
  with gs assms(1,2) \<open>mon_servers (moved_on m) = ?l\<close> \<open>mon_RRInterval (moved_on m) = 0\<close>
  show ?thesis
    by (simp add: next_server_def getAvailableServers_eq chosen_def least_loaded_turn_def)
qed

theorem first_server_served_twice_witness:
  "let m = example_monitor\<lparr>mon_nLastServer := 1\<rparr>; sorter = sort_by capacity_sorter
   in fst (next_server sorter m) = Some (example_server ''a'' 90 100) \<and>
      fst (next_server sorter (snd (next_server sorter m))) = Some (example_server ''a'' 90 100)"
proof -
  let ?m = "example_monitor\<lparr>mon_nLastServer := 1\<rparr>"
  have "rr_start ?m = 2" by (simp add: example_monitor_def FsMonitor_new_def rr_start_def)
  then show ?thesis
    unfolding Let_def
    by (intro first_server_served_twice [of _ _
          "[example_server ''b'' 10 100, FsInstance_new ''c'' 8021 False]"])
      (simp_all add: example_monitor_available, simp_all add: example_monitor_def FsMonitor_new_def
        example_monitor_available)
qed

end
