(* ===== verification/Controller.thy ===== *)
theory Controller
  imports Sip Bimap Ssp_Config Fs_Monitor
begin

text \<open>
  The stateful side of \<open>SipLbController\<close> (\<open>ssp-controller.h\<close>, \<open>ssp-controller.cpp\<close>): a back-to-back
  user agent that connects a call from a carrier to a FreeSWITCH server (an origination) or a call
  from a FreeSWITCH server to a carrier (a termination), with retries over other carriers.

  Transactions, legs and timers of the sofia-sip stack are numbers, with 0 for \<open>NULL\<close>. What the
  stack returns to one run of a handler is the argument \<open>env\<close>; what the handler asks the stack to
  do is appended to \<open>c_out\<close>. Call detail records are shared objects: dialogs, termination attempts
  and the queue of the writer hold references into \<open>c_cdrs\<close>. Log messages are left out.
\<close>

section \<open>Data\<close>

record TerminationAttempt =
  ta_nAttemptCount :: u32
  ta_sip :: sip_t
  ta_from :: string
  ta_to :: string
  ta_contact :: string
  ta_p_charge_info_header :: string
  ta_url :: string
  ta_carrier :: string
  ta_sipTrunk :: string
  ta_pCdr :: "nat option"

record TrunkStats =
  ts_strAddress :: string
  ts_strCarrier :: string
  ts_attempts :: u64
  ts_fails :: "nat \<Rightarrow> u64"

record SipDialogInfo =
  di_leg :: nat
  di_bOrigination :: bool
  di_nSessionTimer :: u64
  di_timerSessionRefresh :: "nat option"
  di_localSdp :: string
  di_pCdr :: "nat option"

definition TrunkStats_new :: "string \<Rightarrow> string \<Rightarrow> TrunkStats" where
  "TrunkStats_new address carrier =
     \<lparr>ts_strAddress = address, ts_strCarrier = carrier, ts_attempts = 0, ts_fails = (\<lambda>_. 0)\<rparr>"

definition incrementAttemptCount :: "TrunkStats \<Rightarrow> TrunkStats" where
  "incrementAttemptCount tr =
     (let tr1 = tr\<lparr>ts_attempts := ts_attempts tr + 1\<rparr>
      in if ts_attempts tr1 = 0 then tr1\<lparr>ts_fails := (\<lambda>_. 0)\<rparr> else tr1)"

definition incrementFailureCount :: "nat \<Rightarrow> TrunkStats \<Rightarrow> TrunkStats outcome" where
  "incrementFailureCount status tr =
     oassert (status < 700)
       (Ret (tr\<lparr>ts_fails := (ts_fails tr)(status := ts_fails tr status + 1)\<rparr>))"

definition getFailureCount :: "TrunkStats \<Rightarrow> u64" where
  "getFailureCount tr = sum_list (map (ts_fails tr) [0..<700])"

definition getFailureCountOf :: "nat \<Rightarrow> TrunkStats \<Rightarrow> u64" where
  "getFailureCountOf status tr = (if status \<ge> 700 then - 1 else ts_fails tr status)"

definition trunk_reset :: "TrunkStats \<Rightarrow> TrunkStats" where
  "trunk_reset tr = tr\<lparr>ts_attempts := 0, ts_fails := (\<lambda>_. 0)\<rparr>"

datatype nta_action =
  TReply nat int "sip_t option" "string list"
  | OutgoingInvite nat nat string sip_t "string list"
  | OutgoingAck nat
  | OutgoingBye nat
  | OutgoingRequest nat nat sip_t
  | OutgoingCancel nat
  | DestroyIncoming nat
  | DestroyOutgoing nat
  | DestroyLeg nat
  | BindAckOrCancel nat
  | StartSessionTimer nat u32
  | DestroyTimer nat

record nta_env =
  env_now :: time_t
  env_uuid :: string
  env_a_leg :: "nat option"
  env_b_leg :: "nat option"
  env_orq :: "(nat \<times> string) option"
  env_leg_of_irq :: "nat \<Rightarrow> nat option"
  env_leg_of_orq :: "nat \<Rightarrow> nat option"
  env_response_leg :: "nat option"
  env_timer :: "nat option"
  env_sorter :: "FsInstance list \<Rightarrow> FsInstance list"

record controller =
  c_config :: ssp_config
  c_ConfigNew :: "ssp_config option"
  c_fsMonitor :: FsMonitor
  c_nIterationCount :: int
  c_nTerminationRetries :: u32
  c_nFSTimerMsecs :: u64
  c_current_severity_threshold :: severity_levels
  c_cdrWriter :: bool
  c_my :: agent_contact
  c_user_agent :: string
  c_transactions :: "(nat, nat) pairs"
  c_dialogs :: "(nat, nat) pairs"
  c_mapTerminationAttempts :: "(nat, TerminationAttempt) assoc"
  c_mapDialogInfo :: "(nat, SipDialogInfo) assoc"
  c_mapTrunkStats :: "(string, TrunkStats) assoc"
  c_cdrs :: "nat \<Rightarrow> CdrInfo"
  c_next_cdr :: nat
  c_posted :: "nat list"
  c_out :: "nta_action list"

type_synonym 'r handler = "controller \<Rightarrow> ('r \<times> controller) outcome"

section \<open>Small steps\<close>

definition emit :: "nta_action list \<Rightarrow> controller \<Rightarrow> controller" where
  "emit as c = c\<lparr>c_out := c_out c @ as\<rparr>"

text \<open>\<open>boost::make_shared<CdrInfo>\<close>, a change through the pointer, and posting.\<close>

definition make_cdr :: "CdrInfo \<Rightarrow> controller \<Rightarrow> nat \<times> controller" where
  "make_cdr cdr c =
     (c_next_cdr c, c\<lparr>c_cdrs := (c_cdrs c)(c_next_cdr c := cdr), c_next_cdr := Suc (c_next_cdr c)\<rparr>)"

definition update_cdr :: "nat \<Rightarrow> (CdrInfo \<Rightarrow> CdrInfo) \<Rightarrow> controller \<Rightarrow> controller" where
  "update_cdr p f c = c\<lparr>c_cdrs := (c_cdrs c)(p := f (c_cdrs c p))\<rparr>"

definition post_cdr :: "nat \<Rightarrow> controller \<Rightarrow> controller" where
  "post_cdr p c = (if c_cdrWriter c then c\<lparr>c_posted := c_posted c @ [p]\<rparr> else c)"

definition post_new_cdr :: "CdrInfo \<Rightarrow> controller \<Rightarrow> controller" where
  "post_new_cdr cdr c = (case make_cdr cdr c of (p, c1) \<Rightarrow> post_cdr p c1)"

definition getAssociatedTransaction_of_orq :: "controller \<Rightarrow> nat \<Rightarrow> nat option" where
  "getAssociatedTransaction_of_orq c orq = bm_right (c_transactions c) orq"

definition getAssociatedTransaction_of_irq :: "controller \<Rightarrow> nat \<Rightarrow> nat option" where
  "getAssociatedTransaction_of_irq c irq = bm_left (c_transactions c) irq"

definition addTransactions :: "nat \<Rightarrow> nat \<Rightarrow> controller \<Rightarrow> controller" where
  "addTransactions irq orq c = c\<lparr>c_transactions := bm_insert irq orq (c_transactions c)\<rparr>"

text \<open>Destroying a \<open>NULL\<close> transaction does nothing.\<close>

definition clearTransaction_orq :: "nat \<Rightarrow> controller \<Rightarrow> controller" where
  "clearTransaction_orq orq c =
     (let irq = getAssociatedTransaction_of_orq c orq
      in emit ((case irq of None \<Rightarrow> [] | Some i \<Rightarrow> [DestroyIncoming i]) @ [DestroyOutgoing orq])
           (c\<lparr>c_transactions := bm_right_erase orq (c_transactions c)\<rparr>))"

definition clearTransaction_irq :: "nat \<Rightarrow> controller \<Rightarrow> controller" where
  "clearTransaction_irq irq c =
     (let orq = getAssociatedTransaction_of_irq c irq
      in emit (DestroyIncoming irq # (case orq of None \<Rightarrow> [] | Some x \<Rightarrow> [DestroyOutgoing x]))
           (c\<lparr>c_transactions := bm_left_erase irq (c_transactions c)\<rparr>))"

definition updateOutgoingTransaction :: "nat \<Rightarrow> nat \<Rightarrow> nat \<Rightarrow> controller \<Rightarrow> controller" where
  "updateOutgoingTransaction irq orq newOrq c =
     addTransactions irq newOrq (emit [DestroyOutgoing orq]
       (c\<lparr>c_transactions := bm_right_erase orq (c_transactions c)\<rparr>))"

definition addDialogs :: "nat \<Rightarrow> nat \<Rightarrow> controller \<Rightarrow> controller" where
  "addDialogs a_leg b_leg c = c\<lparr>c_dialogs := bm_insert a_leg b_leg (c_dialogs c)\<rparr>"

text \<open>
  \<open>getAssociatedDialog\<close>: a leg that is on neither side makes the code read through the end
  iterator of the right view.
\<close>

definition getAssociatedDialog :: "controller \<Rightarrow> nat \<Rightarrow> nat outcome" where
  "getAssociatedDialog c leg =
     (case bm_left (c_dialogs c) leg of
        Some other \<Rightarrow> Ret other
      | None \<Rightarrow> deref (bm_right (c_dialogs c) leg) Ret)"

text \<open>Erasing the information of a dialog destroys its session timer.\<close>

definition erase_dialog_info :: "nat \<Rightarrow> controller \<Rightarrow> controller" where
  "erase_dialog_info leg c =
     emit (case map_of (c_mapDialogInfo c) leg of
             None \<Rightarrow> []
           | Some d \<Rightarrow> (case di_timerSessionRefresh d of None \<Rightarrow> [] | Some t \<Rightarrow> [DestroyTimer t]))
       (c\<lparr>c_mapDialogInfo := AList.delete leg (c_mapDialogInfo c)\<rparr>)"

definition clearDialog :: "nat \<Rightarrow> controller \<Rightarrow> controller outcome" where
  "clearDialog leg c =
     obind (getAssociatedDialog c leg) (\<lambda>other.
       let c1 = emit [DestroyLeg leg]
             (c\<lparr>c_dialogs := bm_right_erase leg (bm_left_erase leg (c_dialogs c))\<rparr>);
           c2 = erase_dialog_info leg c1
       in oassert (other \<noteq> 0) (Ret (erase_dialog_info other (emit [DestroyLeg other] c2))))"

definition updateDialog :: "nat \<Rightarrow> nat \<Rightarrow> controller \<Rightarrow> controller outcome" where
  "updateDialog oldBLeg newBLeg c =
     oassert (oldBLeg \<noteq> 0 \<and> newBLeg \<noteq> 0)
       (obind (getAssociatedDialog c oldBLeg) (\<lambda>a_leg.
          let c1 = emit [DestroyLeg oldBLeg] (addDialogs a_leg newBLeg
                (c\<lparr>c_dialogs := bm_right_erase oldBLeg (c_dialogs c)\<rparr>))
          in case map_of (c_mapDialogInfo c1) oldBLeg of
               None \<Rightarrow> Aborted
             | Some p \<Rightarrow>
                 Ret (c1\<lparr>c_mapDialogInfo := AList.delete oldBLeg
                        (assoc_insert newBLeg (p\<lparr>di_leg := newBLeg\<rparr>) (c_mapDialogInfo c1))\<rparr>)))"

definition determineCallType :: "controller \<Rightarrow> sip_t \<Rightarrow> (call_type_t \<times> string) outcome" where
  "determineCallType c sip =
     obind (contact_host sip) (\<lambda>host.
       case getCarrier (c_config c) host of
         Some carrier \<Rightarrow> Ret (origination_call_type, carrier)
       | None \<Rightarrow>
           if isAppserver (c_fsMonitor c) host then Ret (termination_call_type, [])
           else Ret (unknown_call_type, []))"

section \<open>Termination attempts\<close>

definition crankback_route ::
  "string \<Rightarrow> string \<Rightarrow> string \<Rightarrow> string \<Rightarrow> TerminationAttempt \<Rightarrow> controller \<Rightarrow> TerminationAttempt \<times> controller" where
  "crankback_route url carrier sipTrunk chargeNumber t c =
     (t\<lparr>ta_url := url, ta_carrier := carrier, ta_sipTrunk := sipTrunk,
        ta_p_charge_info_header := chargeNumber, ta_nAttemptCount := ta_nAttemptCount t + 1\<rparr>,
      case ta_pCdr t of
        None \<Rightarrow> c
      | Some p \<Rightarrow> update_cdr p (\<lambda>cdr. setTerminatingCarrierAddress sipTrunk (setTerminatingCarrier carrier cdr)) c)"

definition crankback_url :: "string \<Rightarrow> TerminationAttempt \<Rightarrow> TerminationAttempt" where
  "crankback_url url t = t\<lparr>ta_url := url\<rparr>"

text \<open>The trunk statistics of an attempt: the entry of its trunk, made on first use.\<close>

definition count_attempt :: "TerminationAttempt \<Rightarrow> controller \<Rightarrow> controller" where
  "count_attempt t c =
     (case map_of (c_mapTrunkStats c) (ta_sipTrunk t) of
        Some tr \<Rightarrow> c\<lparr>c_mapTrunkStats :=
          AList.update (ta_sipTrunk t) (incrementAttemptCount tr) (c_mapTrunkStats c)\<rparr>
      | None \<Rightarrow> c\<lparr>c_mapTrunkStats := assoc_insert (ta_sipTrunk t)
          (incrementAttemptCount (TrunkStats_new (ta_sipTrunk t) (ta_carrier t))) (c_mapTrunkStats c)\<rparr>)"

text \<open>\<open>generateTerminationRequest\<close>: the outgoing transaction and the new leg, \<open>None\<close> for false.\<close>

definition generateTerminationRequest ::
  "nta_env \<Rightarrow> TerminationAttempt \<Rightarrow> (nat \<times> nat) option handler" where
  "generateTerminationRequest env t c =
     (case env_b_leg env of
        None \<Rightarrow> Ret (None, c)
      | Some b_leg \<Rightarrow>
          obind (url_buffer (ta_url t)) (\<lambda>str.
          case env_orq env of
             None \<Rightarrow> Ret (None, emit [DestroyLeg b_leg] c)
           | Some (orq, callId) \<Rightarrow>
               let c1 = emit [OutgoingInvite orq b_leg str (ta_sip t)
                     [ta_from t, ta_to t, ta_contact t, c_user_agent c, ta_p_charge_info_header t]] c
               in deref (ta_pCdr t) (\<lambda>p.
                    Ret (Some (orq, b_leg), count_attempt t (update_cdr p (setDLegCallId callId) c1)))))"

section \<open>Requests outside a dialog\<close>

definition reject_call :: "int \<Rightarrow> ReleaseCause_t \<Rightarrow> nat \<Rightarrow> controller \<Rightarrow> int \<times> controller" where
  "reject_call status cause p c =
     (status, post_cdr p (update_cdr p (\<lambda>cdr. setReleaseCause cause (setSipStatus (word_of_int status) cdr)) c))"

definition new_origination_cdr :: "nta_env \<Rightarrow> sip_t \<Rightarrow> string \<Rightarrow> nat handler" where
  "new_origination_cdr env sip carrier c =
     obind (populateOriginationCdr (c_my c) (env_uuid env) (env_now env) sip carrier
              (CdrInfo_new origination_request))
       (\<lambda>cdr. Ret (make_cdr cdr c))"

definition origination_session_timer :: "ssp_config \<Rightarrow> sip_t \<Rightarrow> u64" where
  "origination_session_timer cfg sip =
     (if m_nOriginationSessionTimer cfg > 0 \<and> sip_session_expires sip
      then max (case sip_min_se sip of None \<Rightarrow> 0 | Some d \<Rightarrow> d) (m_nOriginationSessionTimer cfg)
      else 0)"

text \<open>The end of \<open>processOriginationRequest\<close>: the tables of the new call, and its record is posted.\<close>

definition record_origination :: "nat \<Rightarrow> nat \<Rightarrow> nat \<Rightarrow> nat \<Rightarrow> nat \<Rightarrow> u64 \<Rightarrow> controller \<Rightarrow> controller" where
  "record_origination irq orq a_leg b_leg p nSessionTimer c =
     (let d = \<lparr>di_leg = a_leg, di_bOrigination = True, di_nSessionTimer = nSessionTimer,
           di_timerSessionRefresh = None, di_localSdp = [], di_pCdr = Some p\<rparr>;
          c1 = c\<lparr>c_mapDialogInfo := assoc_insert a_leg d (c_mapDialogInfo c)\<rparr>
      in post_cdr p (addDialogs a_leg b_leg (addTransactions irq orq c1)))"

text \<open>\<open>processOriginationRequest\<close> after the choice of a server: the legs and the INVITE to the server.\<close>

definition start_origination ::
  "nta_env \<Rightarrow> nat \<Rightarrow> sip_t \<Rightarrow> string \<Rightarrow> nat \<Rightarrow> FsInstance \<Rightarrow> int handler" where
  "start_origination env irq sip carrier p server c =
     obind (to_user sip) (\<lambda>user.
     obind (url_buffer (''sip:'' @ user @ ''@'' @ fs_strSipAddress server @ '':'' @ show_u32 (fs_nSipPort server))) (\<lambda>str.
       case env_a_leg env of
            None \<Rightarrow> Ret (reject_call 503 call_rejected_due_to_system_error p c)
          | Some a_leg \<Rightarrow>
              let c1 = emit [BindAckOrCancel irq] c
              in obind (generateOutgoingFrom (c_my c) sip) (\<lambda>fromStr.
                 obind (generateOutgoingTo (c_my c) sip) (\<lambda>toStr.
                 obind (generateOutgoingContact (c_my c) sip) (\<lambda>contactStr.
                   case env_b_leg env of
                     None \<Rightarrow> Ret (reject_call 503 call_rejected_due_to_system_error p
                                (emit [DestroyLeg a_leg] c1))
                   | Some b_leg \<Rightarrow>
                       obind (contact_host sip) (\<lambda>host.
                         case env_orq env of
                           None \<Rightarrow> Ret (reject_call 503 call_rejected_due_to_system_error p
                                      (emit [DestroyLeg a_leg, DestroyLeg b_leg] c1))
                         | Some (orq, callId) \<Rightarrow>
                             let c2 = emit [OutgoingInvite orq b_leg str sip
                                   [fromStr, toStr, contactStr,
                                    ''X-Originating-Carrier: '' @ (if carrier = [] then ''unknown'' else carrier),
                                    ''X-Originating-Carrier-IP: '' @ host,
                                    X_SESSION_UUID @ '': '' @ cdr_uuid (c_cdrs c1 p)]] c1;
                                 c3 = update_cdr p (\<lambda>cdr. setFsAddress (fs_strSipAddress server)
                                        (setBLegCallId callId cdr)) c2
                             in Ret (0, record_origination irq orq a_leg b_leg p
                                  (origination_session_timer (c_config c) sip) c3)))))))"

definition processOriginationRequest :: "nta_env \<Rightarrow> nat \<Rightarrow> sip_t \<Rightarrow> string \<Rightarrow> int handler" where
  "processOriginationRequest env irq sip carrier c =
     obind (new_origination_cdr env sip carrier c) (\<lambda>(p, c1).
       deref (getAvailableServers (env_sorter env) (c_fsMonitor c1)) (\<lambda>(servers, monitor).
         let c2 = c1\<lparr>c_fsMonitor := monitor\<rparr>
         in case servers of
              [] \<Rightarrow> Ret (reject_call 486 call_rejected_due_to_system_error p c2)
            | server # _ \<Rightarrow> start_origination env irq sip carrier p server c2))"

text \<open>The route of a termination: the carrier for anonymous calls first, when it is configured.\<close>

definition termination_route :: "ssp_config \<Rightarrow> sip_t \<Rightarrow> (route option \<times> ssp_config) outcome" where
  "termination_route cfg sip =
     obind (case getAnonymousCallRouting cfg of
              Some carrier \<Rightarrow>
                if isAnonymousCall sip then getTerminationRouteForCarrier cfg carrier else Ret (None, cfg)
            | None \<Rightarrow> Ret (None, cfg))
       (\<lambda>(rt, cfg1). case rt of Some r \<Rightarrow> Ret (Some r, cfg1) | None \<Rightarrow> getTerminationRoute cfg1)"

definition charge_info :: "string \<Rightarrow> string \<Rightarrow> string" where
  "charge_info chargeNumber address =
     ''P-Charge-Info: <sip:'' @ chargeNumber @ ''@'' @ address @ ''>''"

definition header_or_empty :: "sip_t \<Rightarrow> string \<Rightarrow> string" where
  "header_or_empty sip name = (case findCustomHeaderValue sip name of None \<Rightarrow> [] | Some v \<Rightarrow> v)"

text \<open>The end of \<open>processTerminationRequest\<close>: the tables of the new call.\<close>

definition record_termination ::
  "nat \<Rightarrow> nat \<Rightarrow> nat \<Rightarrow> nat \<Rightarrow> TerminationAttempt \<Rightarrow> string \<Rightarrow> controller \<Rightarrow> controller" where
  "record_termination irq orq a_leg b_leg t sdp c =
     (let c1 = c\<lparr>c_mapTerminationAttempts := assoc_insert orq t (c_mapTerminationAttempts c)\<rparr>;
          d = \<lparr>di_leg = b_leg, di_bOrigination = False, di_nSessionTimer = 0,
            di_timerSessionRefresh = None, di_localSdp = sdp, di_pCdr = None\<rparr>;
          c2 = c1\<lparr>c_mapDialogInfo := assoc_insert b_leg d (c_mapDialogInfo c1)\<rparr>
      in addDialogs a_leg b_leg (addTransactions irq orq c2))"

text \<open>\<open>processTerminationRequest\<close> once the route is known: the attempt, and the call.\<close>

definition first_attempt :: "agent_contact \<Rightarrow> sip_t \<Rightarrow> route \<Rightarrow> nat \<Rightarrow> TerminationAttempt outcome" where
  "first_attempt my sip rt p =
     (case rt of (address, carrier, chargeNumber) \<Rightarrow>
       obind (to_user sip) (\<lambda>user.
       obind (url_buffer (''sip:'' @ user @ ''@'' @ address)) (\<lambda>str.
       obind (generateOutgoingFrom my sip) (\<lambda>fromStr.
       obind (generateOutgoingTo my sip) (\<lambda>toStr.
       obind (generateOutgoingContact my sip) (\<lambda>contactStr.
         Ret \<lparr>ta_nAttemptCount = 0, ta_sip = sip, ta_from = fromStr, ta_to = toStr,
              ta_contact = contactStr,
              ta_p_charge_info_header = (if chargeNumber = [] then [] else charge_info chargeNumber address),
              ta_url = ''sip:'' @ user @ ''@'' @ address, ta_carrier = carrier, ta_sipTrunk = address,
              ta_pCdr = Some p\<rparr>))))))"

definition start_termination :: "nta_env \<Rightarrow> nat \<Rightarrow> sip_t \<Rightarrow> route \<Rightarrow> int handler" where
  "start_termination env irq sip rt c =
     (case rt of (address, carrier, chargeNumber) \<Rightarrow>
       obind (populateTerminationCdr (c_my c) (env_now env) sip carrier address
                (header_or_empty sip X_AVOKE_BROWSER) (header_or_empty sip X_AVOKE_CALL_ID)
                (header_or_empty sip X_SESSION_UUID) (CdrInfo_new termination_attempt)) (\<lambda>cdr.
       case make_cdr cdr c of (p, c1) \<Rightarrow>
       obind (first_attempt (c_my c) sip rt p) (\<lambda>t.
       let a_leg = (case env_a_leg env of None \<Rightarrow> 0 | Some l \<Rightarrow> l)
       in obind (generateTerminationRequest env t (emit [BindAckOrCancel irq] c1)) (\<lambda>(res, c2).
            case res of
              None \<Rightarrow> Ret (503, emit (if a_leg = 0 then [] else [DestroyLeg a_leg]) c2)
            | Some (orq, b_leg) \<Rightarrow>
                deref (sip_payload sip) (\<lambda>sdp.
                  Ret (0, record_termination irq orq a_leg b_leg t sdp c2))))))"

definition processTerminationRequest :: "nta_env \<Rightarrow> nat \<Rightarrow> sip_t \<Rightarrow> int handler" where
  "processTerminationRequest env irq sip c =
     obind (call_id sip) (\<lambda>strCallId.
     obind (termination_route (c_config c) sip) (\<lambda>(rt, cfg).
       let c1 = c\<lparr>c_config := cfg\<rparr>
       in case rt of
            None \<Rightarrow> Ret (480, c1)
          | Some r \<Rightarrow> start_termination env irq sip r c1))"

definition process_invite :: "nta_env \<Rightarrow> nat \<Rightarrow> sip_t \<Rightarrow> int handler" where
  "process_invite env irq sip c =
     obind (determineCallType c sip) (\<lambda>(call_type, carrier).
       let c1 = emit [TReply irq 100 None []] c;
           count = (\<lambda>(rc, c2). Ret (rc, if c_nIterationCount c2 > 0
                     then c2\<lparr>c_nIterationCount := c_nIterationCount c2 - 1\<rparr> else c2))
       in case call_type of
            origination_call_type \<Rightarrow>
              if \<not> m_bIsActive (c_config c1) \<or> c_nIterationCount c1 = 0 then
                obind (new_origination_cdr env sip carrier c1) (\<lambda>(p, c2).
                  Ret (reject_call 503 call_rejected_due_to_being_offline p c2))
              else obind (processOriginationRequest env irq sip carrier c1) count
          | termination_call_type \<Rightarrow> obind (processTerminationRequest env irq sip c1) count
          | unknown_call_type \<Rightarrow>
              obind (new_origination_cdr env sip carrier c1) (\<lambda>(p, c2).
                Ret (reject_call 403 call_rejected_due_to_unauthorized_peer p c2)))"

definition processRequestOutsideDialog :: "nta_env \<Rightarrow> nat \<Rightarrow> sip_t \<Rightarrow> int handler" where
  "processRequestOutsideDialog env irq sip c =
     deref (sip_request sip) (\<lambda>rq_method.
        if validateSipMessage sip \<noteq> 0 then Ret (validateSipMessage sip, c)
        else case rq_method of
          sip_method_options \<Rightarrow>
            if \<not> m_bIsActive (c_config c) then Ret (0, emit [DestroyIncoming irq] c)
            else obind (determineCallType c sip) (\<lambda>(call_type, carrier).
              Ret (if call_type = origination_call_type then 200 else 403, c))
        | sip_method_ack \<Rightarrow> Ret (0, emit [DestroyIncoming irq] c)
        | sip_method_invite \<Rightarrow> process_invite env irq sip c
        | sip_method_bye \<Rightarrow> Ret (481, c)
        | _ \<Rightarrow> Ret (501, c))"

end
