(* ===== verification/Controller_Dialog.thy ===== *)
theory Controller_Dialog
  imports Controller
begin

text \<open>
  The handlers of \<open>SipLbController\<close> for calls under way (\<open>ssp-controller.cpp\<close>): responses to an
  INVITE, with redirection and retries over another carrier, ACK and CANCEL, requests and
  responses inside a dialog, the session timer and retransmitted responses.
\<close>

section \<open>Responses to an INVITE\<close>

text \<open>The flags of \<open>processInviteResponseInsideDialog\<close> and what its branches leave in them.\<close>

record response_flags =
  bClearTransaction :: bool
  bDestroyLegs :: bool
  bProxyResponse :: bool
  sessionTimer :: "u32 option"

record response_context =
  x_orq :: nat
  x_irq :: nat
  x_outgoing_leg :: nat
  x_a_leg :: nat
  x_attempt :: "TerminationAttempt option"
  x_pDialog :: "SipDialogInfo option"
  x_pCdr :: nat

text \<open>The assertions at the start: a missing transaction, leg or record stops the program.\<close>

definition response_start :: "nta_env \<Rightarrow> nat \<Rightarrow> controller \<Rightarrow> response_context outcome" where
  "response_start env orq c =
     (case getAssociatedTransaction_of_orq c orq of
        None \<Rightarrow> Aborted
      | Some irq \<Rightarrow>
          (case env_response_leg env of
             None \<Rightarrow> Aborted
           | Some outgoing_leg \<Rightarrow>
               (case env_leg_of_irq env irq of
                  None \<Rightarrow> Aborted
                | Some a_leg \<Rightarrow>
                    let t = map_of (c_mapTerminationAttempts c) orq;
                        pDialog = (case t of Some _ \<Rightarrow> None | None \<Rightarrow> map_of (c_mapDialogInfo c) a_leg);
                        pCdr = (case t of
                                  Some t \<Rightarrow> ta_pCdr t
                                | None \<Rightarrow> (case pDialog of None \<Rightarrow> None | Some d \<Rightarrow> di_pCdr d))
                    in (case pCdr of
                          None \<Rightarrow> Aborted
                        | Some p \<Rightarrow>
                            Ret \<lparr>x_orq = orq, x_irq = irq, x_outgoing_leg = outgoing_leg, x_a_leg = a_leg,
                                 x_attempt = t, x_pDialog = pDialog, x_pCdr = p\<rparr>))))"

text \<open>A failed termination attempt counts against its trunk.\<close>

definition count_failure :: "response_context \<Rightarrow> int \<Rightarrow> controller \<Rightarrow> controller outcome" where
  "count_failure x status c =
     (if 400 \<le> status \<and> status \<le> 700 then
        (case x_attempt x of
           None \<Rightarrow> Ret c
         | Some t \<Rightarrow>
             (case map_of (c_mapTrunkStats c) (ta_sipTrunk t) of
                None \<Rightarrow> Ret c
              | Some tr \<Rightarrow>
                  obind (incrementFailureCount (nat status) tr) (\<lambda>tr1.
                    Ret (c\<lparr>c_mapTrunkStats := AList.update (ta_sipTrunk t) tr1 (c_mapTrunkStats c)\<rparr>))))
      else Ret c)"

text \<open>A 200: the ACK, and for an origination the answer's SDP and the session timer.\<close>

definition answer_call ::
  "nta_env \<Rightarrow> response_context \<Rightarrow> sip_t \<Rightarrow> response_flags \<Rightarrow> response_flags handler" where
  "answer_call env x sip f c =
     deref (sip_to sip) (\<lambda>a.
     deref (sip_contact sip) (\<lambda>contact.
       let c1 = emit [OutgoingAck (x_outgoing_leg x)] c; f1 = f\<lparr>bDestroyLegs := False\<rparr>
       in case x_pDialog x of
            None \<Rightarrow> Ret (f1, c1)
          | Some d \<Rightarrow>
              deref (sip_payload sip) (\<lambda>sdp.
                let d1 = d\<lparr>di_localSdp := sdp\<rparr>; secs = (ucast (di_nSessionTimer d1) :: u32);
                    store = (\<lambda>d' c'. c'\<lparr>c_mapDialogInfo :=
                      AList.update (x_a_leg x) d' (c_mapDialogInfo c')\<rparr>)
                in if secs > 0 then
                     (case env_timer env of
                        None \<Rightarrow> Ret (f1\<lparr>sessionTimer := Some 0\<rparr>, store d1 c1)
                      | Some t \<Rightarrow> Ret (f1\<lparr>sessionTimer := Some secs\<rparr>,
                          emit [StartSessionTimer (x_a_leg x) (secs * 1000)]
                            (store (d1\<lparr>di_timerSessionRefresh := Some t\<rparr>) c1)))
                   else Ret (f1, store d1 c1))))"

text \<open>A new INVITE took the place of the failed one.\<close>

definition replace_attempt ::
  "response_context \<Rightarrow> TerminationAttempt \<Rightarrow> nat \<Rightarrow> nat \<Rightarrow> response_flags \<Rightarrow> response_flags handler" where
  "replace_attempt x t orqNew b_legNew f c =
     (let c1 = updateOutgoingTransaction (x_irq x) (x_orq x) orqNew c;
          c2 = c1\<lparr>c_mapTerminationAttempts := assoc_insert orqNew t
                 (AList.delete (x_orq x) (c_mapTerminationAttempts c1))\<rparr>
      in obind (updateDialog (x_outgoing_leg x) b_legNew c2) (\<lambda>c3.
           Ret (f\<lparr>bClearTransaction := False, bProxyResponse := False, bDestroyLegs := False\<rparr>, c3)))"

text \<open>When no new INVITE could be sent, the attempt stays in the map as it was changed.\<close>

definition store_attempt :: "nat \<Rightarrow> TerminationAttempt \<Rightarrow> controller \<Rightarrow> controller" where
  "store_attempt orq t c =
     c\<lparr>c_mapTerminationAttempts := AList.update orq t (c_mapTerminationAttempts c)\<rparr>"

definition retry_invite ::
  "nta_env \<Rightarrow> response_context \<Rightarrow> TerminationAttempt \<Rightarrow> response_flags \<Rightarrow> response_flags handler" where
  "retry_invite env x t f c =
     obind (generateTerminationRequest env t (store_attempt (x_orq x) t c)) (\<lambda>(res, c1).
       case res of
         None \<Rightarrow> Ret (f, c1)
       | Some (orqNew, b_legNew) \<Rightarrow> replace_attempt x t orqNew b_legNew f c1)"

definition redirect_call ::
  "nta_env \<Rightarrow> response_context \<Rightarrow> sip_t \<Rightarrow> response_flags \<Rightarrow> response_flags handler" where
  "redirect_call env x sip f c =
     (case x_attempt x of
        None \<Rightarrow> Ret (f, c)
      | Some t \<Rightarrow>
          deref (sip_contact sip) (\<lambda>contact.
          deref (url_user (a_url contact)) (\<lambda>user.
          deref (url_host (a_url contact)) (\<lambda>host.
            let dest = ''sip:'' @ user @ ''@'' @ host @
                  (case url_port (a_url contact) of None \<Rightarrow> [] | Some p \<Rightarrow> '':'' @ p)
            in retry_invite env x (crankback_url dest t) f c))))"

text \<open>The failed attempt is recorded, and the next one goes out over another route.\<close>

definition crankback_over ::
  "nta_env \<Rightarrow> response_context \<Rightarrow> sip_t \<Rightarrow> int \<Rightarrow> TerminationAttempt \<Rightarrow> route \<Rightarrow> response_flags \<Rightarrow>
   response_flags handler" where
  "crankback_over env x sip status t rt f c =
     (case rt of (address, carrier, chargeNumber) \<Rightarrow>
      let c1 = post_new_cdr (setCdrType termination_attempt (populateFinalResponseCdr (env_now env)
                 (word_of_int status) (c_cdrs c (x_pCdr x)))) c
      in obind (to_user sip) (\<lambda>user.
           case crankback_route (''sip:'' @ user @ ''@'' @ address) carrier address
                  (charge_info chargeNumber address) t c1 of (t1, c2) \<Rightarrow>
             retry_invite env x t1 f c2))"

definition crankback_call ::
  "nta_env \<Rightarrow> response_context \<Rightarrow> sip_t \<Rightarrow> int \<Rightarrow> response_flags \<Rightarrow> response_flags handler" where
  "crankback_call env x sip status f c =
     (case x_attempt x of
        None \<Rightarrow> Ret (f, c)
      | Some t \<Rightarrow>
          if ta_nAttemptCount t < c_nTerminationRetries c - 1 then
            obind (getTerminationRouteForAltCarrier (c_config c) (ta_carrier t)) (\<lambda>(rt, cfg).
              let c1 = c\<lparr>c_config := cfg\<rparr>
              in case rt of
                   None \<Rightarrow> Ret (f, c1)
                 | Some r \<Rightarrow> crankback_over env x sip status t r f c1)
          else Ret (f, c))"

definition final_response ::
  "nta_env \<Rightarrow> response_context \<Rightarrow> sip_t \<Rightarrow> int \<Rightarrow> response_flags \<Rightarrow> response_flags handler" where
  "final_response env x sip status f c =
     obind (count_failure x status c) (\<lambda>c1.
       let f1 = f\<lparr>bClearTransaction := True, bDestroyLegs := True\<rparr>
       in if status = 200 then answer_call env x sip f1 c1
          else if 300 \<le> status \<and> status \<le> 399 then redirect_call env x sip f1 c1
          else if status = 503 \<or> status = 480 then crankback_call env x sip status f1 c1
          else Ret (f1, c1))"

text \<open>
  Passing the response on: for a final one the carrier of the attempt goes into custom headers,
  and the attempt is over. The attempt is read again from the map, where a failed retry may have
  changed it.
\<close>

definition proxy_response ::
  "response_context \<Rightarrow> sip_t \<Rightarrow> int \<Rightarrow> response_flags \<Rightarrow> controller \<Rightarrow> controller outcome" where
  "proxy_response x sip status f c =
     (if 200 \<le> status \<and> x_attempt x \<noteq> None then
        deref (map_of (c_mapTerminationAttempts c) (x_orq x)) (\<lambda>t.
          Ret (emit [TReply (x_irq x) status (Some sip)
                 ((case sessionTimer f of None \<Rightarrow> [] | Some s \<Rightarrow> [''Session-Expires: '' @ show_u32 s]) @
                  [''X-Terminating-Carrier: '' @ ta_carrier t, ''X-Terminating-Carrier-IP: '' @ ta_sipTrunk t])]
               (c\<lparr>c_mapTerminationAttempts := AList.delete (x_orq x) (c_mapTerminationAttempts c)\<rparr>)))
      else Ret (emit [TReply (x_irq x) status (Some sip)
                 (case sessionTimer f of None \<Rightarrow> [] | Some s \<Rightarrow> [''Session-Expires: '' @ show_u32 s])] c))"

text \<open>The record of the final response: of the call for an origination, of the attempt otherwise.\<close>

definition response_cdr ::
  "nta_env \<Rightarrow> response_context \<Rightarrow> int \<Rightarrow> response_flags \<Rightarrow> controller \<Rightarrow> controller" where
  "response_cdr env x status f c =
     (let cdr = c_cdrs c (x_pCdr x); now = env_now env; st = word_of_int status
      in if 200 \<le> status \<and> x_attempt x = None then
           post_new_cdr (populateFinalResponseCdr now st (setCdrType origination_final_response cdr)) c
         else if 200 \<le> status \<and> bProxyResponse f then
           post_new_cdr (setCdrType termination_attempt (populateFinalResponseCdr now st cdr)) c
         else c)"

definition processInviteResponseInsideDialog :: "nta_env \<Rightarrow> nat \<Rightarrow> sip_t \<Rightarrow> int handler" where
  "processInviteResponseInsideDialog env orq sip c =
     obind (response_start env orq c) (\<lambda>x.
     deref (sip_status sip) (\<lambda>(status, phrase).
       let f = \<lparr>bClearTransaction = False, bDestroyLegs = False, bProxyResponse = True,
                sessionTimer = None\<rparr>
       in obind (if status = 100 then Ret (f\<lparr>bProxyResponse := False\<rparr>, c)
                 else if 200 \<le> status then final_response env x sip status f c
                 else Ret (f, c)) (\<lambda>(f1, c1).
            obind (if bProxyResponse f1 then proxy_response x sip status f1 c1 else Ret c1) (\<lambda>c2.
            let c3 = (if bClearTransaction f1 then clearTransaction_orq orq c2 else c2)
            in obind (if bDestroyLegs f1 then clearDialog (x_outgoing_leg x) c3 else Ret c3) (\<lambda>c4.
                 Ret (0, response_cdr env x status f1 c4))))))"

section \<open>ACK and CANCEL\<close>

definition cancel_cdr :: "nta_env \<Rightarrow> nat \<Rightarrow> nat \<Rightarrow> controller \<Rightarrow> controller outcome" where
  "cancel_cdr env orq leg c =
     (case map_of (c_mapDialogInfo c) leg of
        Some d \<Rightarrow>
          deref (di_pCdr d) (\<lambda>p. Ret (post_cdr p (update_cdr p (populateCancelCdr (env_now env)) c)))
      | None \<Rightarrow>
          (case map_of (c_mapTerminationAttempts c) orq of
             None \<Rightarrow> Ret c
           | Some t \<Rightarrow>
               deref (ta_pCdr t) (\<lambda>q.
                 Ret (post_new_cdr (setCdrType termination_attempt
                       (populateFinalResponseCdr (env_now env) 487 (c_cdrs c q))) c))))"

definition processAckOrCancel :: "nta_env \<Rightarrow> nat \<Rightarrow> sip_t \<Rightarrow> int handler" where
  "processAckOrCancel env irq sip c =
     deref (sip_request sip) (\<lambda>rq_method.
       if rq_method = sip_method_cancel then
         (case getAssociatedTransaction_of_irq c irq of
            None \<Rightarrow>
              (case env_leg_of_irq env irq of
                 None \<Rightarrow> Ret (0, c)
               | Some leg \<Rightarrow> obind (clearDialog leg c) (\<lambda>c1. Ret (0, c1)))
          | Some orq \<Rightarrow>
              (case env_leg_of_irq env irq of
                 None \<Rightarrow> Ret (481, c)
               | Some leg \<Rightarrow>
                   obind (cancel_cdr env orq leg c) (\<lambda>c1.
                   obind (clearDialog leg (clearTransaction_orq orq
                            (emit [OutgoingCancel orq, DestroyOutgoing orq] c1))) (\<lambda>c2.
                     Ret (0, c2\<lparr>c_mapTerminationAttempts :=
                       AList.delete orq (c_mapTerminationAttempts c2)\<rparr>)))))
       else Ret (0, c))"

section \<open>Requests and responses inside a dialog\<close>

text \<open>The record of a cleared call belongs to the origination side of the two legs, if either is.\<close>

definition bye_cdr :: "nta_env \<Rightarrow> nat \<Rightarrow> nat \<Rightarrow> controller \<Rightarrow> controller outcome" where
  "bye_cdr env leg other c =
     (let close = (\<lambda>d byCaller. deref (di_pCdr d) (\<lambda>p.
            Ret (post_cdr p (update_cdr p (populateByeCdr (env_now env) byCaller) c))));
          orig = (\<lambda>l. case map_of (c_mapDialogInfo c) l of
                        Some d \<Rightarrow> if di_bOrigination d then Some d else None | None \<Rightarrow> None)
      in case orig leg of
           Some d \<Rightarrow> close d True
         | None \<Rightarrow> (case orig other of Some d \<Rightarrow> close d False | None \<Rightarrow> Ret c))"

definition processRequestInsideDialog :: "nta_env \<Rightarrow> nat \<Rightarrow> nat \<Rightarrow> sip_t \<Rightarrow> int handler" where
  "processRequestInsideDialog env leg irq sip c =
     obind (getAssociatedDialog c leg) (\<lambda>other.
     oassert (other \<noteq> 0)
       (deref (sip_request sip) (\<lambda>rq_method.
          case rq_method of
            sip_method_bye \<Rightarrow>
              obind (bye_cdr env leg other (emit [OutgoingBye other] c)) (\<lambda>c1.
              obind (clearDialog leg c1) (\<lambda>c2.
                Ret (200, emit [DestroyIncoming irq] c2)))
          | sip_method_ack \<Rightarrow> Ret (0, emit [DestroyIncoming irq] c)
          | _ \<Rightarrow>
              (let orq = (case env_orq env of None \<Rightarrow> 0 | Some (r, _) \<Rightarrow> r)
               in Ret (0, addTransactions irq orq (emit [OutgoingRequest orq other sip] c))))))"

definition processResponseInsideDialog :: "nta_env \<Rightarrow> nat \<Rightarrow> sip_t \<Rightarrow> int handler" where
  "processResponseInsideDialog env orq sip c =
     (case getAssociatedTransaction_of_orq c orq of
        None \<Rightarrow> Aborted
      | Some irq \<Rightarrow>
          deref (sip_status sip) (\<lambda>(status, phrase).
            let c1 = emit [TReply irq status (Some sip) []] c
            in deref (sip_cseq sip) (\<lambda>cs_method.
               obind (if cs_method = sip_method_invite \<and> status = 200 then
                        (case env_leg_of_orq env orq of
                           None \<Rightarrow> Aborted
                         | Some outgoing_leg \<Rightarrow>
                             deref (sip_contact sip) (\<lambda>contact. Ret (emit [OutgoingAck outgoing_leg] c1)))
                      else Ret c1) (\<lambda>c2.
                 Ret (0, if 200 \<le> status then clearTransaction_orq orq c2 else c2)))))"

text \<open>\<open>processSessionRefreshTimer\<close>; \<open>terminateLeg\<close> does nothing yet.\<close>

definition processSessionRefreshTimer :: "nat \<Rightarrow> int handler" where
  "processSessionRefreshTimer leg c =
     (case map_of (c_mapDialogInfo c) leg of
        None \<Rightarrow> Ret (0, c)
      | Some p \<Rightarrow>
          let c1 = (case di_timerSessionRefresh p of
                      None \<Rightarrow> c
                    | Some t \<Rightarrow> emit [DestroyTimer t] (c\<lparr>c_mapDialogInfo :=
                        AList.update leg (p\<lparr>di_timerSessionRefresh := None\<rparr>) (c_mapDialogInfo c)\<rparr>))
          in obind (getAssociatedDialog c1 leg) (\<lambda>other.
               oassert (other \<noteq> 0) (obind (clearDialog leg c1) (\<lambda>c2. Ret (0, c2)))))"

definition processRetransmittedResponse :: "(string \<Rightarrow> nat option) \<Rightarrow> sip_t \<Rightarrow> int handler" where
  "processRetransmittedResponse leg_by_call_id sip c =
     (case (sip_status sip, sip_cseq sip) of
        (Some (status, phrase), Some cs_method) \<Rightarrow>
          if status = 200 \<and> cs_method = sip_method_invite then
            obind (call_id sip) (\<lambda>i.
              case leg_by_call_id i of
                None \<Rightarrow> Ret (0, c)
              | Some leg \<Rightarrow> deref (sip_contact sip) (\<lambda>contact. Ret (0, emit [OutgoingAck leg] c)))
          else Ret (0, c)
      | _ \<Rightarrow> Ret (0, c))"

end
