(* ===== verification/Controller_Inv.thy ===== *)
theory Controller_Inv
  imports Controller_Dialog
begin

text \<open>
  The invariant of the controller's tables and that every handler keeps it: the tables of
  transactions and dialogs pair their sides one to one, every termination attempt belongs to a
  transaction, every dialog information to a leg of a dialog, every record reference to a record,
  and no attempt is over the limit of retries.
\<close>

section \<open>What the small steps leave alone\<close>

named_theorems ctl_frame "fields that the small steps of the controller leave alone"

lemma emit_frame [simp, ctl_frame]:
  "c_transactions (emit as c) = c_transactions c" "c_dialogs (emit as c) = c_dialogs c"
  "c_mapTerminationAttempts (emit as c) = c_mapTerminationAttempts c"
  "c_mapDialogInfo (emit as c) = c_mapDialogInfo c" "c_mapTrunkStats (emit as c) = c_mapTrunkStats c"
  "c_cdrs (emit as c) = c_cdrs c" "c_next_cdr (emit as c) = c_next_cdr c" "c_posted (emit as c) = c_posted c"
  "c_nTerminationRetries (emit as c) = c_nTerminationRetries c" "c_config (emit as c) = c_config c"
  "c_fsMonitor (emit as c) = c_fsMonitor c" "c_my (emit as c) = c_my c" "c_cdrWriter (emit as c) = c_cdrWriter c"
  "c_nIterationCount (emit as c) = c_nIterationCount c" "c_user_agent (emit as c) = c_user_agent c"
  "c_out (emit as c) = c_out c @ as"
  by (simp_all add: emit_def)

lemma update_cdr_frame [simp, ctl_frame]:
  "c_transactions (update_cdr p f c) = c_transactions c" "c_dialogs (update_cdr p f c) = c_dialogs c"
  "c_mapTerminationAttempts (update_cdr p f c) = c_mapTerminationAttempts c"
  "c_mapDialogInfo (update_cdr p f c) = c_mapDialogInfo c"
  "c_mapTrunkStats (update_cdr p f c) = c_mapTrunkStats c"
  "c_next_cdr (update_cdr p f c) = c_next_cdr c" "c_posted (update_cdr p f c) = c_posted c"
  "c_nTerminationRetries (update_cdr p f c) = c_nTerminationRetries c" "c_config (update_cdr p f c) = c_config c"
  "c_fsMonitor (update_cdr p f c) = c_fsMonitor c" "c_my (update_cdr p f c) = c_my c"
  "c_cdrWriter (update_cdr p f c) = c_cdrWriter c" "c_nIterationCount (update_cdr p f c) = c_nIterationCount c"
  "c_user_agent (update_cdr p f c) = c_user_agent c" "c_out (update_cdr p f c) = c_out c"
  "c_cdrs (update_cdr p f c) = (c_cdrs c)(p := f (c_cdrs c p))"
  by (simp_all add: update_cdr_def)

lemma post_cdr_frame [simp, ctl_frame]:
  "c_transactions (post_cdr p c) = c_transactions c" "c_dialogs (post_cdr p c) = c_dialogs c"
  "c_mapTerminationAttempts (post_cdr p c) = c_mapTerminationAttempts c"
  "c_mapDialogInfo (post_cdr p c) = c_mapDialogInfo c" "c_mapTrunkStats (post_cdr p c) = c_mapTrunkStats c"
  "c_next_cdr (post_cdr p c) = c_next_cdr c" "c_cdrs (post_cdr p c) = c_cdrs c"
  "c_nTerminationRetries (post_cdr p c) = c_nTerminationRetries c" "c_config (post_cdr p c) = c_config c"
  "c_fsMonitor (post_cdr p c) = c_fsMonitor c" "c_my (post_cdr p c) = c_my c"
  "c_cdrWriter (post_cdr p c) = c_cdrWriter c" "c_nIterationCount (post_cdr p c) = c_nIterationCount c"
  "c_user_agent (post_cdr p c) = c_user_agent c" "c_out (post_cdr p c) = c_out c"
  "c_posted (post_cdr p c) = (if c_cdrWriter c then c_posted c @ [p] else c_posted c)"
  by (simp_all add: post_cdr_def)

lemma count_attempt_frame [simp, ctl_frame]:
  "c_transactions (count_attempt t c) = c_transactions c" "c_dialogs (count_attempt t c) = c_dialogs c"
  "c_mapTerminationAttempts (count_attempt t c) = c_mapTerminationAttempts c"
  "c_mapDialogInfo (count_attempt t c) = c_mapDialogInfo c"
  "c_next_cdr (count_attempt t c) = c_next_cdr c" "c_cdrs (count_attempt t c) = c_cdrs c"
  "c_nTerminationRetries (count_attempt t c) = c_nTerminationRetries c"
  "c_config (count_attempt t c) = c_config c" "c_posted (count_attempt t c) = c_posted c"
  "c_cdrWriter (count_attempt t c) = c_cdrWriter c" "c_out (count_attempt t c) = c_out c"
  "c_my (count_attempt t c) = c_my c"
  by (simp_all add: count_attempt_def split: option.splits)

section \<open>The invariant\<close>

definition dialogs_ok :: "(nat, nat) pairs \<Rightarrow> bool" where
  "dialogs_ok ds \<longleftrightarrow> bm_wf ds \<and> (\<forall>(a, b) \<in> set ds. a \<noteq> 0 \<and> b \<noteq> 0) \<and>
     fst ` set ds \<inter> snd ` set ds = {}"

definition attempt_ok :: "u32 \<Rightarrow> nat \<Rightarrow> (nat, nat) pairs \<Rightarrow> nat \<Rightarrow> TerminationAttempt \<Rightarrow> bool" where
  "attempt_ok retries next_ref tx orq t \<longleftrightarrow> bm_right tx orq \<noteq> None \<and>
     (\<exists>p < next_ref. ta_pCdr t = Some p) \<and> (0 < retries \<longrightarrow> ta_nAttemptCount t < retries)"

definition info_ok :: "nat \<Rightarrow> (nat, nat) pairs \<Rightarrow> nat \<Rightarrow> SipDialogInfo \<Rightarrow> bool" where
  "info_ok next_ref ds leg d \<longleftrightarrow> di_leg d = leg \<and>
     (if di_bOrigination d then bm_left ds leg \<noteq> None \<and> (\<exists>p < next_ref. di_pCdr d = Some p)
      else bm_right ds leg \<noteq> None \<and> di_pCdr d = None)"

definition tables_ok ::
  "u32 \<Rightarrow> nat \<Rightarrow> (nat, nat) pairs \<Rightarrow> (nat, nat) pairs \<Rightarrow> (nat, TerminationAttempt) assoc \<Rightarrow>
   (nat, SipDialogInfo) assoc \<Rightarrow> bool" where
  "tables_ok retries next_ref tx ds att info \<longleftrightarrow>
     bm_wf tx \<and> dialogs_ok ds \<and> assoc_wf att \<and> assoc_wf info \<and>
     (\<forall>(orq, t) \<in> set att. attempt_ok retries next_ref tx orq t) \<and>
     (\<forall>(leg, d) \<in> set info. info_ok next_ref ds leg d)"

text \<open>\<open>R\<close> bounds the number of attempts that any configuration in use allows, if it is not 0.\<close>

definition ctl_inv :: "u32 \<Rightarrow> controller \<Rightarrow> bool" where
  "ctl_inv R c \<longleftrightarrow>
     tables_ok R (c_next_cdr c) (c_transactions c) (c_dialogs c)
       (c_mapTerminationAttempts c) (c_mapDialogInfo c) \<and>
     (\<forall>p \<in> set (c_posted c). p < c_next_cdr c) \<and>
     (0 < R \<longrightarrow> 0 < c_nTerminationRetries c \<and> c_nTerminationRetries c \<le> R)"

lemma set_assoc_insert: "set (assoc_insert k v m) \<subseteq> insert (k, v) (set m)"
  by (auto simp: assoc_insert_def split: option.splits)

lemma set_delete: "set (AList.delete k m) = {(k', v) \<in> set m. k' \<noteq> k}"
  by (auto simp: AList.delete_eq)

lemma set_update: "set (AList.update k v m) \<subseteq> insert (k, v) (set m)"
  by (induction m) auto

lemma assoc_lookup: "assoc_wf m \<Longrightarrow> map_of m k = Some v \<longleftrightarrow> (k, v) \<in> set m"
  by (simp add: assoc_wf_def)

lemma dialogs_sides:
  assumes "dialogs_ok ds" "bm_left ds x = Some y"
  shows "bm_right ds x = None" "bm_left ds y = None" "x \<noteq> 0" "y \<noteq> 0" "x \<noteq> y"
proof -
  have wf: "bm_wf ds" and xy: "(x, y) \<in> set ds" using assms by (auto simp: dialogs_ok_def bm_left_iff)
  show "bm_right ds x = None"
  proof (rule ccontr)
    assume "bm_right ds x \<noteq> None"
    then obtain z where "(z, x) \<in> set ds" using wf by (auto simp: bm_right_iff)
    then have "x \<in> fst ` set ds \<inter> snd ` set ds" using xy by (metis IntI fst_conv image_eqI snd_conv)
    with assms(1) show False by (simp add: dialogs_ok_def)
  qed
  show "bm_left ds y = None"
  proof (rule ccontr)
    assume "bm_left ds y \<noteq> None"
    then obtain z where "(y, z) \<in> set ds" using wf by (auto simp: bm_left_iff)
    then have "y \<in> fst ` set ds \<inter> snd ` set ds" using xy by (metis IntI fst_conv image_eqI snd_conv)
    with assms(1) show False by (simp add: dialogs_ok_def)
  qed
  show "x \<noteq> 0" "y \<noteq> 0" using xy assms(1) by (auto simp: dialogs_ok_def)
  show "x \<noteq> y" using \<open>bm_left ds y = None\<close> assms(2) by auto
qed

section \<open>Steps on the tables\<close>

lemma tables_next_mono:
  assumes "tables_ok r n tx ds att info" "n \<le> n'"
  shows "tables_ok r n' tx ds att info"
proof -
  have "attempt_ok r n' tx orq t" if "attempt_ok r n tx orq t" for orq t
    using that assms(2) by (auto simp: attempt_ok_def)
  moreover have "info_ok n' ds leg d" if "info_ok n ds leg d" for leg d
    using that assms(2) by (auto simp: info_ok_def)
  ultimately show ?thesis using assms(1) by (auto simp: tables_ok_def)
qed

lemma tables_drop_attempt: "tables_ok r n tx ds att info \<Longrightarrow> tables_ok r n tx ds (AList.delete orq att) info"
  by (auto simp: tables_ok_def set_delete)

lemma tables_put_attempt:
  assumes "tables_ok r n tx ds att info" "attempt_ok r n tx orq t"
  shows "tables_ok r n tx ds (AList.update orq t att) info" "tables_ok r n tx ds (assoc_insert orq t att) info"
  using assms set_update [of orq t att] set_assoc_insert [of orq t att] by (auto simp: tables_ok_def)

lemma tables_put_info:
  assumes "tables_ok r n tx ds att info" "info_ok n ds leg d"
  shows "tables_ok r n tx ds att (AList.update leg d info)" "tables_ok r n tx ds att (assoc_insert leg d info)"
  using assms set_update [of leg d info] set_assoc_insert [of leg d info] by (auto simp: tables_ok_def)

lemma tables_drop_info: "tables_ok r n tx ds att info \<Longrightarrow> tables_ok r n tx ds att (AList.delete leg info)"
  by (auto simp: tables_ok_def set_delete)

lemma bm_insert_wf: "bm_wf m \<Longrightarrow> bm_wf (bm_insert a b m)"
  using bm.insert_new [of m a b] bm.insert_old [of m a b] by force

lemma bm_insert_right: "bm_wf m \<Longrightarrow> bm_right m x \<noteq> None \<Longrightarrow> bm_right (bm_insert a b m) x \<noteq> None"
  using bm.right_find_insert [of m a b] bm.insert_old [of m a b] by (cases "bm_left m a = None \<and> bm_right m b = None") auto

lemma tables_add_transaction:
  assumes "tables_ok r n tx ds att info"
  shows "tables_ok r n (bm_insert irq orq tx) ds att info"
proof -
  have wf: "bm_wf tx" using assms by (simp add: tables_ok_def)
  have "attempt_ok r n (bm_insert irq orq tx) q t" if "attempt_ok r n tx q t" for q t
    using that bm_insert_right [OF wf, of q irq orq] by (simp add: attempt_ok_def)
  with assms bm_insert_wf [OF wf, of irq orq] show ?thesis by (auto simp: tables_ok_def)
qed

lemma tables_drop_transaction:
  assumes "tables_ok r n tx ds att info" "map_of att orq = None"
  shows "tables_ok r n (bm_right_erase orq tx) ds att info"
proof -
  have wf: "bm_wf tx" using assms by (simp add: tables_ok_def)
  have "attempt_ok r n (bm_right_erase orq tx) q t" if "(q, t) \<in> set att" for q t
  proof -
    have "q \<noteq> orq" using that assms(2) by (auto simp: map_of_eq_None_iff image_iff)
    moreover have "attempt_ok r n tx q t" using that assms(1) by (auto simp: tables_ok_def)
    ultimately show ?thesis by (simp add: attempt_ok_def bm.right_find_right_erase [OF wf])
  qed
  with assms(1) bm.right_erase [OF wf, of orq] show ?thesis by (auto simp: tables_ok_def)
qed

section \<open>Steps on the dialogs\<close>

definition fresh_leg :: "(nat, nat) pairs \<Rightarrow> nat \<Rightarrow> bool" where
  "fresh_leg ds x \<longleftrightarrow> x \<noteq> 0 \<and> bm_left ds x = None \<and> bm_right ds x = None"

lemma fresh_leg_iff: "bm_wf ds \<Longrightarrow> fresh_leg ds x \<longleftrightarrow> x \<noteq> 0 \<and> x \<notin> fst ` set ds \<and> x \<notin> snd ` set ds"
  unfolding fresh_leg_def by (auto simp: bm_left_def bm_right_def map_of_eq_None_iff image_comp comp_def)

lemma dialogs_ok_insert:
  assumes ok: "dialogs_ok ds" and a: "fresh_leg ds a" and b: "fresh_leg ds b" and ne: "a \<noteq> b"
  shows "dialogs_ok (bm_insert a b ds)"
proof -
  have wf: "bm_wf ds" using ok by (simp add: dialogs_ok_def)
  have "bm_insert a b ds = ds @ [(a, b)]" using a b by (simp add: bm_insert_def fresh_leg_def)
  with ok bm_insert_wf [OF wf, of a b] a b ne show ?thesis by (auto simp: dialogs_ok_def fresh_leg_iff [OF wf])
qed

lemma bm_insert_left: "bm_wf m \<Longrightarrow> bm_left m x \<noteq> None \<Longrightarrow> bm_left (bm_insert a b m) x \<noteq> None"
  using bm.insert_new [of m a b] bm.insert_old [of m a b] by (cases "bm_left m a = None \<and> bm_right m b = None") auto

lemma tables_add_dialog:
  assumes ok: "tables_ok r n tx ds att info" and "fresh_leg ds a" "fresh_leg ds b" "a \<noteq> b"
  shows "tables_ok r n tx (bm_insert a b ds) att info"
proof -
  have d: "dialogs_ok ds" and wf: "bm_wf ds" using ok by (simp_all add: tables_ok_def dialogs_ok_def)
  have "info_ok n (bm_insert a b ds) leg i" if "info_ok n ds leg i" for leg i
    using that bm_insert_left [OF wf, of leg a b] bm_insert_right [OF wf, of leg a b] by (auto simp: info_ok_def)
  with ok dialogs_ok_insert [OF d] assms(2-) show ?thesis by (auto simp: tables_ok_def)
qed

text \<open>The two legs of a dialog, whichever of them is given.\<close>

definition peers :: "(nat, nat) pairs \<Rightarrow> nat \<Rightarrow> nat \<Rightarrow> bool" where
  "peers ds leg other \<longleftrightarrow> bm_left ds leg = Some other \<or> bm_right ds leg = Some other"

definition drop_leg :: "nat \<Rightarrow> (nat, nat) pairs \<Rightarrow> (nat, nat) pairs" where
  "drop_leg leg ds = bm_right_erase leg (bm_left_erase leg ds)"

lemma drop_leg_filter: "drop_leg leg ds = filter (\<lambda>(x, y). x \<noteq> leg \<and> y \<noteq> leg) ds"
  by (auto simp: drop_leg_def bm_right_erase_def bm_left_erase_def intro: filter_cong)

lemma drop_leg_wf: "bm_wf ds \<Longrightarrow> bm_wf (drop_leg leg ds)"
  by (simp add: drop_leg_filter bm_wf_filter)

lemma drop_leg_ok: "dialogs_ok ds \<Longrightarrow> dialogs_ok (drop_leg leg ds)"
  using drop_leg_wf [of ds leg] by (auto simp: dialogs_ok_def drop_leg_filter)

lemma getAssociatedDialog_Ret:
  assumes "dialogs_ok (c_dialogs c)"
  shows "getAssociatedDialog c leg = Ret other \<longleftrightarrow> peers (c_dialogs c) leg other"
  using dialogs_sides(1) [OF assms, of leg]
  by (auto simp: getAssociatedDialog_def peers_def deref_Ret_iff split: option.splits)

lemma drop_leg_others:
  assumes ok: "dialogs_ok ds" and p: "peers ds leg other" and l: "l \<noteq> leg" "l \<noteq> other"
  shows "bm_left (drop_leg leg ds) l = bm_left ds l" "bm_right (drop_leg leg ds) l = bm_right ds l"
proof -
  have wf: "bm_wf ds" using ok by (simp add: dialogs_ok_def)
  have pair: "(leg, other) \<in> set ds \<or> (other, leg) \<in> set ds"
    using p wf by (auto simp: peers_def bm_left_iff bm_right_iff)
  have in_iff: "(x, y) \<in> set (drop_leg leg ds) \<longleftrightarrow> (x, y) \<in> set ds \<and> x \<noteq> leg \<and> y \<noteq> leg" for x y
    by (auto simp: drop_leg_filter)
  show "bm_left (drop_leg leg ds) l = bm_left ds l"
  proof (rule option_eqI)
    fix y
    have "y \<noteq> leg" if "(l, y) \<in> set ds"
    proof
      assume "y = leg"
      then have lr: "bm_right ds leg = Some l" using that wf by (simp add: bm_right_iff)
      then have "bm_left ds l = Some leg" using bm.agree [OF wf] by simp
      then have "bm_left ds leg = None" using dialogs_sides [OF ok] by blast
      with p lr l show False by (auto simp: peers_def)
    qed
    then show "(bm_left (drop_leg leg ds) l = Some y) = (bm_left ds l = Some y)"
      using l by (auto simp: bm_left_iff wf drop_leg_wf in_iff)
  qed
  show "bm_right (drop_leg leg ds) l = bm_right ds l"
  proof (rule option_eqI)
    fix x
    have "x \<noteq> leg" if "(x, l) \<in> set ds"
    proof
      assume "x = leg"
      then have ll: "bm_left ds leg = Some l" using that wf by (simp add: bm_left_iff)
      with p l dialogs_sides(1) [OF ok ll] show False by (auto simp: peers_def)
    qed
    then show "(bm_right (drop_leg leg ds) l = Some x) = (bm_right ds l = Some x)"
      using l by (auto simp: bm_right_iff wf drop_leg_wf in_iff)
  qed
qed

lemma drop_leg_gone:
  assumes ok: "dialogs_ok ds" and p: "peers ds leg other" and l: "l = leg \<or> l = other"
  shows "bm_left (drop_leg leg ds) l = None" "bm_right (drop_leg leg ds) l = None"
proof -
  have wf: "bm_wf ds" using ok by (simp add: dialogs_ok_def)
  have none: "(l, y) \<notin> set (drop_leg leg ds)" "(y, l) \<notin> set (drop_leg leg ds)" for y
  proof -
    have "y = leg" if "(other, y) \<in> set ds"
    proof -
      have oy: "bm_left ds other = Some y" using that wf by (simp add: bm_left_iff)
      then have "bm_left ds leg \<noteq> Some other" using dialogs_sides(2) [OF ok, of leg other] by auto
      then have "bm_left ds other = Some leg" using p bm.agree [OF wf] by (simp add: peers_def)
      with oy show ?thesis by simp
    qed
    moreover have "y = leg" if "(y, other) \<in> set ds"
    proof -
      have yo: "bm_left ds y = Some other" "bm_right ds other = Some y"
        using that wf by (simp_all add: bm_left_iff bm_right_iff)
      then have "bm_left ds other \<noteq> Some leg" using dialogs_sides(2) [OF ok yo(1)] by auto
      then have "bm_right ds other = Some leg" using p bm.agree [OF wf] by (auto simp: peers_def)
      with yo show ?thesis by simp
    qed
    ultimately show "(l, y) \<notin> set (drop_leg leg ds)" "(y, l) \<notin> set (drop_leg leg ds)"
      using l by (auto simp: drop_leg_filter)
  qed
  from none(1) drop_leg_wf [OF wf] show "bm_left (drop_leg leg ds) l = None"
    by (metis bm_left_iff option.exhaust)
  from none(2) drop_leg_wf [OF wf] show "bm_right (drop_leg leg ds) l = None"
    by (metis bm_right_iff option.exhaust)
qed

lemma tables_clear_dialog:
  assumes ok: "tables_ok r n tx ds att info" and p: "peers ds leg other"
  shows "tables_ok r n tx (drop_leg leg ds) att (AList.delete other (AList.delete leg info))"
proof -
  have d: "dialogs_ok ds" using ok by (simp add: tables_ok_def)
  have "info_ok n (drop_leg leg ds) l i" if "info_ok n ds l i" "l \<noteq> leg" "l \<noteq> other" for l i
    using that drop_leg_others [OF d p, of l] by (auto simp: info_ok_def)
  moreover have "tables_ok r n tx ds att (AList.delete other (AList.delete leg info))"
    using ok by (intro tables_drop_info)
  ultimately show ?thesis using drop_leg_ok [OF d, of leg] by (auto simp: tables_ok_def set_delete)
qed

lemma tables_replace_leg:
  assumes ok: "tables_ok r n tx ds att info" and old: "bm_right ds old = Some a"
    and "fresh_leg ds new_leg" and p: "map_of info old = Some p"
  shows "tables_ok r n tx (bm_insert a new_leg (bm_right_erase old ds)) att
    (AList.delete old (assoc_insert new_leg (p\<lparr>di_leg := new_leg\<rparr>) info))"
proof -
  let ?ds = "bm_right_erase old ds" and ?info = "AList.delete old info"
  have d: "dialogs_ok ds" and wf: "bm_wf ds" and wi: "assoc_wf info"
    using ok by (simp_all add: tables_ok_def dialogs_ok_def)
  have ao: "bm_left ds a = Some old" using old bm.agree [OF wf] by simp
  note sides = dialogs_sides [OF d ao]
  have drop: "?ds = drop_leg old ds"
  proof -
    have "x \<noteq> old" if "(x, y) \<in> set ds" for x y using that sides(2) wf by (auto simp flip: bm_left_iff)
    then show ?thesis by (auto simp: drop_leg_filter bm_right_erase_def intro!: filter_cong)
  qed
  have peer: "peers ds old a" using old by (simp add: peers_def)
  have wf': "bm_wf ?ds" and d': "dialogs_ok ?ds" using drop drop_leg_wf [OF wf] drop_leg_ok [OF d] by simp_all
  have ne: "a \<noteq> new_leg" "new_leg \<noteq> old" using assms(3) ao old by (auto simp: fresh_leg_def)
  have fr: "fresh_leg ?ds a" "fresh_leg ?ds new_leg"
    using ne drop_leg_gone [OF d peer, of a] drop_leg_others [OF d peer, of new_leg] sides(3) assms(3)
    by (simp_all add: drop fresh_leg_def)
  have "info_ok n ds old p" using p ok wi by (auto simp: tables_ok_def assoc_lookup)
  then have "\<not> di_bOrigination p" "di_pCdr p = None" using old sides(2) by (auto simp: info_ok_def split: if_splits)
  moreover have "bm_right (bm_insert a new_leg ?ds) new_leg = Some a"
    using fr by (simp add: fresh_leg_def bm.right_find_insert [OF wf'])
  ultimately have new: "info_ok n (bm_insert a new_leg ?ds) new_leg (p\<lparr>di_leg := new_leg\<rparr>)"
    by (simp add: info_ok_def)
  have a_left: "bm_left (bm_insert a new_leg ?ds) a \<noteq> None"
    using fr bm.insert_new [OF wf', of a new_leg] by (simp add: fresh_leg_def)
  have "info_ok n (bm_insert a new_leg ?ds) l i" if "info_ok n ds l i" "l \<noteq> old" for l i
  proof (cases "l = a")
    case True
    then show ?thesis using that(1) a_left sides(1) by (simp add: info_ok_def split: if_splits)
  next
    case False
    then show ?thesis
      using that drop_leg_others [OF d peer, of l] bm_insert_left [OF wf', of l a new_leg]
        bm_insert_right [OF wf', of l a new_leg] by (auto simp: info_ok_def drop)
  qed
  with new ok set_assoc_insert [of new_leg "p\<lparr>di_leg := new_leg\<rparr>" info]
  have "info_ok n (bm_insert a new_leg ?ds) l i"
    if "(l, i) \<in> set (assoc_insert new_leg (p\<lparr>di_leg := new_leg\<rparr>) info)" "l \<noteq> old" for l i
    using that by (auto simp: tables_ok_def dest!: subsetD)
  with ok dialogs_ok_insert [OF d' fr ne(1)] show ?thesis by (auto simp: tables_ok_def set_delete)
qed

section \<open>Steps of the controller\<close>

lemma ctl_inv_frame [simp]:
  "ctl_inv R (emit as c) = ctl_inv R c" "ctl_inv R (update_cdr p f c) = ctl_inv R c"
  "ctl_inv R (count_attempt t c) = ctl_inv R c" "ctl_inv R (c\<lparr>c_config := cfg\<rparr>) = ctl_inv R c"
  "ctl_inv R (c\<lparr>c_fsMonitor := m\<rparr>) = ctl_inv R c" "ctl_inv R (c\<lparr>c_nIterationCount := k\<rparr>) = ctl_inv R c"
  "ctl_inv R (c\<lparr>c_mapTrunkStats := ts\<rparr>) = ctl_inv R c"
  by (simp_all add: ctl_inv_def)

lemma ctl_inv_post: "ctl_inv R c \<Longrightarrow> p < c_next_cdr c \<Longrightarrow> ctl_inv R (post_cdr p c)"
  by (auto simp: ctl_inv_def)

lemma ctl_inv_dialogs: "ctl_inv R c \<Longrightarrow> dialogs_ok (c_dialogs c)" "ctl_inv R c \<Longrightarrow> bm_wf (c_dialogs c)"
  "ctl_inv R c \<Longrightarrow> bm_wf (c_transactions c)"
  by (simp_all add: ctl_inv_def tables_ok_def dialogs_ok_def)

definition same_tables :: "controller \<Rightarrow> controller \<Rightarrow> bool" where
  "same_tables c c' \<longleftrightarrow> c_transactions c' = c_transactions c \<and> c_dialogs c' = c_dialogs c \<and>
     c_mapTerminationAttempts c' = c_mapTerminationAttempts c \<and> c_mapDialogInfo c' = c_mapDialogInfo c \<and>
     c_nTerminationRetries c' = c_nTerminationRetries c"

lemma same_tables_refl [simp]: "same_tables c c"
  by (simp add: same_tables_def)

lemma same_tables_trans: "same_tables a b \<Longrightarrow> same_tables b c \<Longrightarrow> same_tables a c"
  by (simp add: same_tables_def)

lemma same_tables_frame [simp]:
  "same_tables c (emit as c') = same_tables c c'" "same_tables c (update_cdr p f c') = same_tables c c'"
  "same_tables c (count_attempt t c') = same_tables c c'" "same_tables c (post_cdr p c') = same_tables c c'"
  "same_tables c (c'\<lparr>c_config := cfg\<rparr>) = same_tables c c'"
  "same_tables c (c'\<lparr>c_fsMonitor := m\<rparr>) = same_tables c c'"
  "same_tables c (c'\<lparr>c_nIterationCount := k\<rparr>) = same_tables c c'"
  "same_tables c (c'\<lparr>c_mapTrunkStats := ts\<rparr>) = same_tables c c'"
  by (simp_all add: same_tables_def)

lemma make_cdr_inv:
  assumes "make_cdr cdr c = (p, c')" "ctl_inv R c"
  shows "ctl_inv R c'" "p < c_next_cdr c'" "same_tables c c'" "c_cdrs c' p = cdr"
proof -
  have c': "p = c_next_cdr c" "c' = c\<lparr>c_cdrs := (c_cdrs c)(p := cdr), c_next_cdr := Suc p\<rparr>"
    using assms(1) by (auto simp: make_cdr_def)
  then show "p < c_next_cdr c'" "same_tables c c'" "c_cdrs c' p = cdr" by (simp_all add: same_tables_def)
  show "ctl_inv R c'"
    using assms(2) c' tables_next_mono [of _ p _ _ _ _ "Suc p"] by (auto simp: ctl_inv_def less_SucI)
qed

lemma post_new_cdr_frame [simp, ctl_frame]:
  "c_transactions (post_new_cdr cdr c) = c_transactions c" "c_dialogs (post_new_cdr cdr c) = c_dialogs c"
  "c_mapTerminationAttempts (post_new_cdr cdr c) = c_mapTerminationAttempts c"
  "c_mapDialogInfo (post_new_cdr cdr c) = c_mapDialogInfo c"
  "c_mapTrunkStats (post_new_cdr cdr c) = c_mapTrunkStats c"
  "c_next_cdr (post_new_cdr cdr c) = Suc (c_next_cdr c)"
  "c_cdrs (post_new_cdr cdr c) = (c_cdrs c)(c_next_cdr c := cdr)"
  "c_nTerminationRetries (post_new_cdr cdr c) = c_nTerminationRetries c"
  "c_config (post_new_cdr cdr c) = c_config c" "c_cdrWriter (post_new_cdr cdr c) = c_cdrWriter c"
  "c_fsMonitor (post_new_cdr cdr c) = c_fsMonitor c" "c_out (post_new_cdr cdr c) = c_out c"
  "c_user_agent (post_new_cdr cdr c) = c_user_agent c" "c_my (post_new_cdr cdr c) = c_my c"
  "c_posted (post_new_cdr cdr c) = (if c_cdrWriter c then c_posted c @ [c_next_cdr c] else c_posted c)"
  by (simp_all add: post_new_cdr_def make_cdr_def)

lemma post_new_cdr_inv: "ctl_inv R c \<Longrightarrow> ctl_inv R (post_new_cdr cdr c)"
  using make_cdr_inv [of cdr c] ctl_inv_post by (auto simp: post_new_cdr_def [of cdr c] split: prod.split)

lemma same_tables_post_new [simp]: "same_tables c (post_new_cdr cdr c') = same_tables c c'"
  by (simp add: same_tables_def)

lemma new_origination_cdr_inv:
  assumes "new_origination_cdr env sip carrier c = Ret (p, c')" "ctl_inv R c"
  shows "ctl_inv R c'" "p < c_next_cdr c'" "same_tables c c'"
  using assms make_cdr_inv [of _ c p c'] by (auto simp: new_origination_cdr_def obind_Ret_iff)

lemma reject_call_inv:
  assumes "ctl_inv R c" "p < c_next_cdr c" "reject_call status cause p c = (rc, c')"
  shows "ctl_inv R c'" "same_tables c c'" "rc = status"
  using assms by (auto simp: reject_call_def intro: ctl_inv_post)

lemma addTransactions_inv: "ctl_inv R c \<Longrightarrow> ctl_inv R (addTransactions irq orq c)"
  by (simp add: ctl_inv_def addTransactions_def tables_add_transaction)

lemma clearTransaction_inv:
  "ctl_inv R c \<Longrightarrow> map_of (c_mapTerminationAttempts c) orq = None \<Longrightarrow> ctl_inv R (clearTransaction_orq orq c)"
  by (simp add: ctl_inv_def clearTransaction_orq_def Let_def tables_drop_transaction)

lemma clearTransaction_frame [simp]:
  "c_dialogs (clearTransaction_orq orq c) = c_dialogs c"
  "c_mapDialogInfo (clearTransaction_orq orq c) = c_mapDialogInfo c"
  "c_mapTerminationAttempts (clearTransaction_orq orq c) = c_mapTerminationAttempts c"
  "c_transactions (clearTransaction_orq orq c) = bm_right_erase orq (c_transactions c)"
  "c_next_cdr (clearTransaction_orq orq c) = c_next_cdr c" "c_posted (clearTransaction_orq orq c) = c_posted c"
  "c_nTerminationRetries (clearTransaction_orq orq c) = c_nTerminationRetries c"
  "c_cdrs (clearTransaction_orq orq c) = c_cdrs c" "c_cdrWriter (clearTransaction_orq orq c) = c_cdrWriter c"
  "c_config (clearTransaction_orq orq c) = c_config c"
  by (simp_all add: clearTransaction_orq_def Let_def)

lemma addDialogs_inv:
  "ctl_inv R c \<Longrightarrow> fresh_leg (c_dialogs c) a \<Longrightarrow> fresh_leg (c_dialogs c) b \<Longrightarrow> a \<noteq> b \<Longrightarrow> ctl_inv R (addDialogs a b c)"
  by (simp add: ctl_inv_def addDialogs_def tables_add_dialog)

text \<open>\<open>clearDialog\<close> removes the pair of legs and what is known of either leg.\<close>

lemma erase_dialog_info_frame [simp]:
  "c_transactions (erase_dialog_info leg c) = c_transactions c" "c_dialogs (erase_dialog_info leg c) = c_dialogs c"
  "c_mapTerminationAttempts (erase_dialog_info leg c) = c_mapTerminationAttempts c"
  "c_mapDialogInfo (erase_dialog_info leg c) = AList.delete leg (c_mapDialogInfo c)"
  "c_next_cdr (erase_dialog_info leg c) = c_next_cdr c" "c_posted (erase_dialog_info leg c) = c_posted c"
  "c_nTerminationRetries (erase_dialog_info leg c) = c_nTerminationRetries c"
  "c_cdrs (erase_dialog_info leg c) = c_cdrs c" "c_cdrWriter (erase_dialog_info leg c) = c_cdrWriter c"
  "c_config (erase_dialog_info leg c) = c_config c" "c_fsMonitor (erase_dialog_info leg c) = c_fsMonitor c"
  by (simp_all add: erase_dialog_info_def)

definition dialog_cleared :: "nat \<Rightarrow> nat \<Rightarrow> controller \<Rightarrow> controller \<Rightarrow> bool" where
  "dialog_cleared leg other c c' \<longleftrightarrow>
     c_dialogs c' = drop_leg leg (c_dialogs c) \<and>
     c_mapDialogInfo c' = AList.delete other (AList.delete leg (c_mapDialogInfo c)) \<and>
     c_transactions c' = c_transactions c \<and> c_mapTerminationAttempts c' = c_mapTerminationAttempts c \<and>
     c_next_cdr c' = c_next_cdr c \<and> c_posted c' = c_posted c \<and>
     c_nTerminationRetries c' = c_nTerminationRetries c \<and> c_cdrs c' = c_cdrs c \<and>
     c_cdrWriter c' = c_cdrWriter c \<and> c_config c' = c_config c \<and>
     (\<exists>as. c_out c' = c_out c @ as \<and> DestroyLeg leg \<in> set as \<and> DestroyLeg other \<in> set as)"

lemma clearDialog_Ret:
  assumes "dialogs_ok (c_dialogs c)" "peers (c_dialogs c) leg other"
  obtains c' where "clearDialog leg c = Ret c'" "dialog_cleared leg other c c'"
proof -
  have "other \<noteq> 0" using assms dialogs_sides(3,4) [OF assms(1)] bm.agree
    by (metis dialogs_ok_def peers_def)
  moreover have "getAssociatedDialog c leg = Ret other" using assms by (simp add: getAssociatedDialog_Ret)
  ultimately show ?thesis
    by (intro that) (auto simp: clearDialog_def Let_def dialog_cleared_def drop_leg_def erase_dialog_info_def emit_def)
qed

lemma clearDialog_inv:
  assumes "ctl_inv R c" "clearDialog leg c = Ret c'"
  shows "\<exists>other. peers (c_dialogs c) leg other \<and> dialog_cleared leg other c c' \<and> ctl_inv R c'"
proof -
  obtain other where p: "peers (c_dialogs c) leg other"
    using assms by (auto simp: clearDialog_def obind_Ret_iff getAssociatedDialog_Ret ctl_inv_dialogs)
  then obtain d where "clearDialog leg c = Ret d" "dialog_cleared leg other c d"
    using clearDialog_Ret [OF ctl_inv_dialogs(1) [OF assms(1)] p] by metis
  with assms p show ?thesis
    by (auto simp: dialog_cleared_def ctl_inv_def intro!: exI [of _ other] tables_clear_dialog)
qed

lemma updateDialog_inv:
  assumes inv: "ctl_inv R c" and upd: "updateDialog old new_leg c = Ret c'"
    and old: "bm_right (c_dialogs c) old = Some a" and fresh: "fresh_leg (c_dialogs c) new_leg"
  shows "ctl_inv R c'"
proof -
  have "bm_left (c_dialogs c) a = Some old" using old bm.agree ctl_inv_dialogs [OF inv] by metis
  then have "getAssociatedDialog c old = Ret a"
    using old dialogs_sides(2) [OF ctl_inv_dialogs(1) [OF inv]] by (simp add: getAssociatedDialog_def)
  with upd obtain p where p: "map_of (c_mapDialogInfo c) old = Some p"
    and c': "c_mapDialogInfo c' = AList.delete old (assoc_insert new_leg (p\<lparr>di_leg := new_leg\<rparr>) (c_mapDialogInfo c))"
      "c_dialogs c' = bm_insert a new_leg (bm_right_erase old (c_dialogs c))"
      "c_transactions c' = c_transactions c" "c_mapTerminationAttempts c' = c_mapTerminationAttempts c"
      "c_next_cdr c' = c_next_cdr c" "c_posted c' = c_posted c" "c_nTerminationRetries c' = c_nTerminationRetries c"
    by (auto simp: updateDialog_def Let_def addDialogs_def oassert_Ret_iff split: option.splits)
  show ?thesis using inv tables_replace_leg [OF _ old fresh p] by (simp add: ctl_inv_def c')
qed

section \<open>The handlers keep the invariant\<close>

text \<open>
  What the stack promises about the objects it hands out: a new leg or transaction is none that
  the controller still holds.
\<close>

definition fresh_call :: "nta_env \<Rightarrow> nat \<Rightarrow> controller \<Rightarrow> bool" where
  "fresh_call env irq c \<longleftrightarrow>
     bm_left (c_transactions c) irq = None \<and>
     (\<forall>orq i. env_orq env = Some (orq, i) \<longrightarrow> bm_right (c_transactions c) orq = None) \<and>
     (\<exists>a. env_a_leg env = Some a \<and> fresh_leg (c_dialogs c) a \<and>
       (\<forall>b. env_b_leg env = Some b \<longrightarrow> fresh_leg (c_dialogs c) b \<and> a \<noteq> b))"

lemma fresh_call_same_tables: "same_tables c c' \<Longrightarrow> fresh_call env irq c' = fresh_call env irq c"
  by (simp add: same_tables_def fresh_call_def)

lemma record_origination_inv:
  assumes inv: "ctl_inv R c" and fr: "fresh_leg (c_dialogs c) a" "fresh_leg (c_dialogs c) b" "a \<noteq> b"
    and p: "p < c_next_cdr c"
  shows "ctl_inv R (record_origination irq orq a b p timer c)"
proof -
  have "bm_left (bm_insert a b (c_dialogs c)) a \<noteq> None"
    using bm.insert_new [of "c_dialogs c" a b] fr ctl_inv_dialogs(2) [OF inv] by (simp add: fresh_leg_def)
  with inv fr p show ?thesis
    by (auto simp: record_origination_def Let_def ctl_inv_def addDialogs_def addTransactions_def info_ok_def
      intro!: tables_put_info tables_add_dialog tables_add_transaction)
qed

lemma record_termination_inv:
  assumes inv: "ctl_inv R c" and fr: "fresh_leg (c_dialogs c) a" "fresh_leg (c_dialogs c) b" "a \<noteq> b"
    and tx: "bm_left (c_transactions c) irq = None" "bm_right (c_transactions c) orq = None"
    and t: "ta_nAttemptCount t = 0" "ta_pCdr t = Some p" "p < c_next_cdr c"
  shows "ctl_inv R (record_termination irq orq a b t sdp c)"
proof -
  have "bm_right (bm_insert a b (c_dialogs c)) b \<noteq> None"
    using bm.right_find_insert [of "c_dialogs c" a b] fr ctl_inv_dialogs(2) [OF inv] by (simp add: fresh_leg_def)
  moreover have "bm_right (bm_insert irq orq (c_transactions c)) orq \<noteq> None"
    using bm.right_find_insert [of "c_transactions c" irq orq] tx ctl_inv_dialogs(3) [OF inv] by simp
  moreover have "tables_ok R (c_next_cdr c) (bm_insert irq orq (c_transactions c))
      (bm_insert a b (c_dialogs c)) (c_mapTerminationAttempts c) (c_mapDialogInfo c)"
    using inv fr by (simp add: ctl_inv_def tables_add_dialog tables_add_transaction)
  ultimately show ?thesis using inv t
    by (auto simp: record_termination_def Let_def ctl_inv_def addDialogs_def addTransactions_def info_ok_def
      attempt_ok_def intro!: tables_put_info tables_put_attempt)
qed

lemma start_origination_inv:
  assumes inv: "ctl_inv R c" and p: "p < c_next_cdr c" and fr: "fresh_call env irq c"
    and run: "start_origination env irq sip carrier p server c = Ret (rc, c')"
  shows "ctl_inv R c'"
proof -
  obtain a where a: "env_a_leg env = Some a" "fresh_leg (c_dialogs c) a" using fr by (auto simp: fresh_call_def)
  have "fresh_leg (c_dialogs c) b \<and> a \<noteq> b" if "env_b_leg env = Some b" for b
    using fr a that by (auto simp: fresh_call_def)
  then show ?thesis using run a inv p
    by (auto simp: start_origination_def outcome_iffs Let_def reject_call_def
      intro!: ctl_inv_post record_origination_inv split: option.splits)
qed

lemma processOriginationRequest_inv:
  assumes inv: "ctl_inv R c" and fr: "fresh_call env irq c"
    and run: "processOriginationRequest env irq sip carrier c = Ret (rc, c')"
  shows "ctl_inv R c'"
proof -
  obtain p c1 servers m where c1: "new_origination_cdr env sip carrier c = Ret (p, c1)"
    and run': "(case servers of [] \<Rightarrow> Ret (reject_call 486 call_rejected_due_to_system_error p (c1\<lparr>c_fsMonitor := m\<rparr>))
      | server # _ \<Rightarrow> start_origination env irq sip carrier p server (c1\<lparr>c_fsMonitor := m\<rparr>)) = Ret (rc, c')"
    using run by (auto simp: processOriginationRequest_def outcome_iffs Let_def split: prod.splits)
  note new = new_origination_cdr_inv [OF c1 inv]
  have st: "same_tables c (c1\<lparr>c_fsMonitor := m\<rparr>)" using new(3) by simp
  show ?thesis
  proof (cases servers)
    case Nil
    then show ?thesis using run' new reject_call_inv(1) [of R "c1\<lparr>c_fsMonitor := m\<rparr>" p] by auto
  next
    case (Cons server rest)
    have fr': "fresh_call env irq (c1\<lparr>c_fsMonitor := m\<rparr>)" using fresh_call_same_tables [OF st] fr by blast
    have "start_origination env irq sip carrier p server (c1\<lparr>c_fsMonitor := m\<rparr>) = Ret (rc, c')"
      using run' Cons by simp
    then show ?thesis using start_origination_inv [OF _ _ fr'] new by simp
  qed
qed

text \<open>A termination request keeps the tables, the next record, what is posted and the configuration.\<close>

lemma generateTerminationRequest_frame:
  assumes "generateTerminationRequest env t c = Ret (res, c')"
  shows "same_tables c c'" "c_next_cdr c' = c_next_cdr c" "c_posted c' = c_posted c" "c_config c' = c_config c"
    "ctl_inv R c' = ctl_inv R c" "c_cdrWriter c' = c_cdrWriter c" "c_my c' = c_my c"
    "\<And>orq b. res = Some (orq, b) \<Longrightarrow> env_b_leg env = Some b \<and> (\<exists>i. env_orq env = Some (orq, i))"
  using assms by (auto simp: generateTerminationRequest_def outcome_iffs Let_def split: option.splits)

lemma first_attempt_Ret:
  assumes "first_attempt my sip rt p = Ret t"
  shows "ta_nAttemptCount t = 0" "ta_pCdr t = Some p" "ta_sip t = sip" "ta_sipTrunk t = fst rt"
    "ta_carrier t = fst (snd rt)"
  using assms by (auto simp: first_attempt_def outcome_iffs split: prod.splits)

lemma start_termination_inv:
  assumes inv: "ctl_inv R c" and fr: "fresh_call env irq c"
    and run: "start_termination env irq sip rt c = Ret (rc, c')"
  shows "ctl_inv R c'"
proof -
  obtain a where a: "env_a_leg env = Some a" using fr by (auto simp: fresh_call_def)
  obtain address carrier charge where rt: "rt = (address, carrier, charge)" by (cases rt)
  from run obtain cdr where
    "(case make_cdr cdr c of (p, c1) \<Rightarrow> obind (first_attempt (c_my c) sip rt p) (\<lambda>t.
        obind (generateTerminationRequest env t (emit [BindAckOrCancel irq] c1)) (\<lambda>(res, c2).
          case res of None \<Rightarrow> Ret (503, emit (if a = 0 then [] else [DestroyLeg a]) c2)
          | Some (orq, b) \<Rightarrow> deref (sip_payload sip) (\<lambda>sdp. Ret (0, record_termination irq orq a b t sdp c2))))) =
     Ret (rc, c')"
    by (auto simp: start_termination_def rt a obind_Ret_iff [of "populateTerminationCdr _ _ _ _ _ _ _ _ _"])
  then obtain p c1 t res c2 where
    c1: "make_cdr cdr c = (p, c1)" and t0: "first_attempt (c_my c) sip rt p = Ret t"
    and gen: "generateTerminationRequest env t (emit [BindAckOrCancel irq] c1) = Ret (res, c2)"
    and fin: "(case res of None \<Rightarrow> Ret (503, emit (if a = 0 then [] else [DestroyLeg a]) c2)
      | Some (orq, b) \<Rightarrow> deref (sip_payload sip) (\<lambda>sdp. Ret (0, record_termination irq orq a b t sdp c2))) =
        Ret (rc, c')"
    by (cases "make_cdr cdr c") (auto simp: obind_Ret_iff)
  note t = first_attempt_Ret(1,2) [OF t0]
  note new = make_cdr_inv [OF c1 inv]
  note g = generateTerminationRequest_frame [OF gen]
  have inv2: "ctl_inv R c2" and p2: "p < c_next_cdr c2" using g new by simp_all
  have "same_tables c c2" using new(3) g(1) by (auto simp: same_tables_def)
  then have fr2: "fresh_call env irq c2" using fr fresh_call_same_tables by blast
  show ?thesis
  proof (cases res)
    case None
    then show ?thesis using fin inv2 by auto
  next
    case (Some q)
    then obtain orq b i where q: "q = (orq, b)" "env_b_leg env = Some b" "env_orq env = Some (orq, i)"
      using g(8) by (cases q) auto
    have "fresh_leg (c_dialogs c2) a" "fresh_leg (c_dialogs c2) b" "a \<noteq> b"
      "bm_left (c_transactions c2) irq = None" "bm_right (c_transactions c2) orq = None"
      using fr2 q a by (auto simp: fresh_call_def)
    then show ?thesis using fin Some q t inv2 p2 by (auto simp: deref_Ret_iff intro!: record_termination_inv)
  qed
qed

lemma processTerminationRequest_inv:
  assumes inv: "ctl_inv R c" and fr: "fresh_call env irq c"
    and run: "processTerminationRequest env irq sip c = Ret (rc, c')"
  shows "ctl_inv R c'"
proof -
  obtain cfg rt where run': "(case rt of None \<Rightarrow> Ret (480, c\<lparr>c_config := cfg\<rparr>)
      | Some r \<Rightarrow> start_termination env irq sip r (c\<lparr>c_config := cfg\<rparr>)) = Ret (rc, c')"
    using run by (auto simp: processTerminationRequest_def outcome_iffs Let_def split: prod.splits)
  have "fresh_call env irq (c\<lparr>c_config := cfg\<rparr>)" using fr by (simp add: fresh_call_def)
  then show ?thesis
    using run' inv start_termination_inv [of R "c\<lparr>c_config := cfg\<rparr>"] by (auto split: option.splits)
qed

lemma process_invite_inv:
  assumes inv: "ctl_inv R c" and fr: "fresh_call env irq c"
    and run: "process_invite env irq sip c = Ret (rc, c')"
  shows "ctl_inv R c'"
proof -
  let ?c = "emit [TReply irq 100 None []] c"
  obtain call_type carrier where ct: "determineCallType c sip = Ret (call_type, carrier)"
    using run by (auto simp: process_invite_def outcome_iffs)
  have inv1: "ctl_inv R ?c" and fr1: "fresh_call env irq ?c" using inv fr by (simp_all add: fresh_call_def)
  show ?thesis
  proof (cases call_type)
    case origination_call_type
    show ?thesis using run origination_call_type inv1 processOriginationRequest_inv [OF inv1 fr1]
        new_origination_cdr_inv(1,2) [OF _ inv1]
      by (auto simp: process_invite_def ct outcome_iffs Let_def reject_call_def intro: ctl_inv_post
        split: prod.splits if_splits)
  next
    case termination_call_type
    then show ?thesis using run processTerminationRequest_inv [OF inv1 fr1]
      by (auto simp: process_invite_def ct outcome_iffs Let_def split: prod.splits if_splits)
  next
    case unknown_call_type
    then show ?thesis using run new_origination_cdr_inv(1,2) [OF _ inv1]
      by (auto simp: process_invite_def ct outcome_iffs Let_def reject_call_def intro: ctl_inv_post split: prod.splits)
  qed
qed

lemma processRequestOutsideDialog_inv:
  assumes inv: "ctl_inv R c" and fr: "fresh_call env irq c"
    and run: "processRequestOutsideDialog env irq sip c = Ret (rc, c')"
  shows "ctl_inv R c'"
proof (cases "validateSipMessage sip = 0")
  case False
  then show ?thesis using run inv by (auto simp: processRequestOutsideDialog_def deref_Ret_iff)
next
  case True
  then obtain rq_method where m: "sip_request sip = Some rq_method"
    using run by (auto simp: processRequestOutsideDialog_def deref_Ret_iff)
  show ?thesis
    using run inv True process_invite_inv [OF inv fr]
    by (cases rq_method) (auto simp: processRequestOutsideDialog_def m obind_Ret_iff split: if_splits)
qed

end
