(* ===== verification/Controller_Calls.thy ===== *)
theory Controller_Calls
  imports Controller_Inv
begin

text \<open>
  The handlers for calls under way keep the controller's invariant, and with the handlers for new
  calls they form a step relation whose reachable states all satisfy it.
\<close>

section \<open>Responses to an INVITE\<close>

lemma word_pred_less:
  assumes "0 < (r :: 'a::len word)" "a < r - 1"
  shows "a + 1 < r"
proof -
  have "unat (r - 1) = unat r - 1" using assms(1) by (intro unat_minus_one) auto
  moreover have "unat (a + 1) = Suc (unat a)" "unat a < unat (r - 1)"
    using assms(2) by (auto intro: unat_Suc_less simp: word_less_nat_alt)
  ultimately show ?thesis by (simp add: word_less_nat_alt)
qed

lemma response_start_Ret:
  assumes "response_start env orq c = Ret x"
  shows "x_orq x = orq" "bm_right (c_transactions c) orq = Some (x_irq x)"
    "env_response_leg env = Some (x_outgoing_leg x)" "env_leg_of_irq env (x_irq x) = Some (x_a_leg x)"
    "x_attempt x = map_of (c_mapTerminationAttempts c) orq"
    "x_pDialog x = (if x_attempt x = None then map_of (c_mapDialogInfo c) (x_a_leg x) else None)"
    "Some (x_pCdr x) = (case x_attempt x of Some t \<Rightarrow> ta_pCdr t
       | None \<Rightarrow> (case x_pDialog x of None \<Rightarrow> None | Some d \<Rightarrow> di_pCdr d))"
  using assms by (auto simp: response_start_def Let_def getAssociatedTransaction_of_orq_def split: option.splits)

text \<open>What the stack promises when a response arrives: its leg is the outgoing leg of a dialog.\<close>

definition fresh_retry :: "nta_env \<Rightarrow> controller \<Rightarrow> bool" where
  "fresh_retry env c \<longleftrightarrow>
     (\<forall>l. env_response_leg env = Some l \<longrightarrow> bm_right (c_dialogs c) l \<noteq> None) \<and>
     (\<forall>b. env_b_leg env = Some b \<longrightarrow> fresh_leg (c_dialogs c) b) \<and>
     (\<forall>orq i. env_orq env = Some (orq, i) \<longrightarrow> bm_right (c_transactions c) orq = None)"

text \<open>The context of a response and the state agree.\<close>

definition response_ok :: "u32 \<Rightarrow> nta_env \<Rightarrow> response_context \<Rightarrow> controller \<Rightarrow> bool" where
  "response_ok R env x c \<longleftrightarrow> ctl_inv R c \<and> fresh_retry env c \<and>
     bm_right (c_transactions c) (x_orq x) = Some (x_irq x) \<and>
     bm_right (c_dialogs c) (x_outgoing_leg x) \<noteq> None \<and>
     (x_attempt x = None \<longleftrightarrow> map_of (c_mapTerminationAttempts c) (x_orq x) = None) \<and>
     (\<forall>t. x_attempt x = Some t \<longrightarrow>
       attempt_ok R (c_next_cdr c) (c_transactions c) (x_orq x) t) \<and>
     (\<forall>d. x_pDialog x = Some d \<longrightarrow> x_attempt x = None \<and> info_ok (c_next_cdr c) (c_dialogs c) (x_a_leg x) d)"

lemma response_start_ok:
  assumes "response_start env orq c = Ret x" "ctl_inv R c" "fresh_retry env c"
  shows "response_ok R env x c"
proof -
  note x = response_start_Ret [OF assms(1)]
  have "assoc_wf (c_mapTerminationAttempts c)" "assoc_wf (c_mapDialogInfo c)"
    using assms(2) by (simp_all add: ctl_inv_def tables_ok_def)
  then show ?thesis using x assms(2,3)
    by (auto simp: response_ok_def fresh_retry_def ctl_inv_def tables_ok_def assoc_lookup split: if_splits)
qed

lemma response_ok_frame [simp]:
  "response_ok R env x (emit as c) = response_ok R env x c"
  "response_ok R env x (update_cdr p g c) = response_ok R env x c"
  "response_ok R env x (c\<lparr>c_config := cfg\<rparr>) = response_ok R env x c"
  "response_ok R env x (c\<lparr>c_mapTrunkStats := ts\<rparr>) = response_ok R env x c"
  by (simp_all add: response_ok_def fresh_retry_def)

lemma attempt_ok_mono: "attempt_ok r n tx orq t \<Longrightarrow> n \<le> n' \<Longrightarrow> attempt_ok r n' tx orq t"
  by (auto simp: attempt_ok_def)

lemma info_ok_mono: "info_ok n ds l d \<Longrightarrow> n \<le> n' \<Longrightarrow> info_ok n' ds l d"
  by (auto simp: info_ok_def)

lemma response_ok_post_new: "response_ok R env x c \<Longrightarrow> response_ok R env x (post_new_cdr cdr c)"
  using post_new_cdr_inv [of R c cdr]
  by (auto simp: response_ok_def fresh_retry_def intro: attempt_ok_mono info_ok_mono)

lemma count_failure_Ret:
  assumes "count_failure x status c = Ret c'"
  shows "\<exists>ts. c' = c\<lparr>c_mapTrunkStats := ts\<rparr>"
proof -
  have "\<exists>ts. c = c\<lparr>c_mapTrunkStats := ts\<rparr>" by (rule exI [of _ "c_mapTrunkStats c"]) simp
  with assms show ?thesis
    by (auto simp: count_failure_def obind_Ret_iff split: if_splits option.splits)
qed

lemma store_attempt_ok:
  assumes "response_ok R env x c" "x_attempt x = Some t"
    "attempt_ok R (c_next_cdr c) (c_transactions c) (x_orq x) t'"
  shows "response_ok R env x (store_attempt (x_orq x) t' c)"
  using assms by (auto simp: response_ok_def store_attempt_def ctl_inv_def fresh_retry_def intro: tables_put_attempt)

text \<open>A new INVITE in place of the failed one keeps the invariant.\<close>

lemma replace_attempt_inv:
  assumes ok: "response_ok R env x c" and fresh: "fresh_leg (c_dialogs c) b"
    "bm_right (c_transactions c) orqNew = None"
    and t: "attempt_ok R (c_next_cdr c) (c_transactions c) (x_orq x) t"
    and run: "replace_attempt x t orqNew b f c = Ret (f', c')"
  shows "ctl_inv R c'" "\<not> bClearTransaction f'" "\<not> bProxyResponse f'" "\<not> bDestroyLegs f'"
proof -
  let ?tx = "bm_right_erase (x_orq x) (c_transactions c)"
  let ?c = "(updateOutgoingTransaction (x_irq x) (x_orq x) orqNew c)\<lparr>c_mapTerminationAttempts :=
    assoc_insert orqNew t (AList.delete (x_orq x) (c_mapTerminationAttempts c))\<rparr>"
  have upd: "updateDialog (x_outgoing_leg x) b ?c = Ret c'" and f': "f' = f\<lparr>bClearTransaction := False,
      bProxyResponse := False, bDestroyLegs := False\<rparr>"
    using run by (auto simp: replace_attempt_def Let_def obind_Ret_iff updateOutgoingTransaction_def addTransactions_def)
  show "\<not> bClearTransaction f'" "\<not> bProxyResponse f'" "\<not> bDestroyLegs f'" using f' by simp_all
  have inv: "ctl_inv R c" and wf: "bm_wf (c_transactions c)" and io: "bm_right (c_transactions c) (x_orq x) = Some (x_irq x)"
    using ok ctl_inv_dialogs(3) [of R c] by (simp_all add: response_ok_def)
  have wf': "bm_wf ?tx" and irq: "bm_left ?tx (x_irq x) = None"
    using bm.right_erase [OF wf, of "x_orq x"] bm.agree [OF wf] io by auto
  have "bm_right ?tx orqNew = None" using fresh(2) by (simp add: bm.right_find_right_erase [OF wf])
  then have "bm_right (bm_insert (x_irq x) orqNew ?tx) orqNew \<noteq> None"
    using bm.right_find_insert [OF wf' irq] by simp
  then have "attempt_ok R (c_next_cdr c) (bm_insert (x_irq x) orqNew ?tx) orqNew t"
    using t by (simp add: attempt_ok_def)
  moreover have "tables_ok R (c_next_cdr c) (bm_insert (x_irq x) orqNew ?tx) (c_dialogs c)
      (AList.delete (x_orq x) (c_mapTerminationAttempts c)) (c_mapDialogInfo c)"
    using inv by (simp add: ctl_inv_def tables_add_transaction tables_drop_transaction tables_drop_attempt)
  ultimately have "ctl_inv R ?c"
    using inv by (simp add: ctl_inv_def updateOutgoingTransaction_def addTransactions_def tables_put_attempt)
  moreover obtain a where "bm_right (c_dialogs ?c) (x_outgoing_leg x) = Some a"
    using ok by (auto simp: response_ok_def updateOutgoingTransaction_def addTransactions_def)
  moreover have "fresh_leg (c_dialogs ?c) b"
    using fresh(1) by (simp add: updateOutgoingTransaction_def addTransactions_def)
  ultimately show "ctl_inv R c'" using updateDialog_inv [OF _ upd] by blast
qed

text \<open>After the branches of a final response.\<close>

definition response_done :: "u32 \<Rightarrow> nta_env \<Rightarrow> response_context \<Rightarrow> response_flags \<Rightarrow> controller \<Rightarrow> bool" where
  "response_done R env x f c \<longleftrightarrow> ctl_inv R c \<and> (bClearTransaction f \<longrightarrow> bProxyResponse f) \<and>
     (bProxyResponse f \<longrightarrow>
       (x_attempt x = None \<longleftrightarrow> map_of (c_mapTerminationAttempts c) (x_orq x) = None))"

lemma response_ok_done:
  "response_ok R env x c \<Longrightarrow> bProxyResponse f \<Longrightarrow> response_done R env x f c"
  by (simp add: response_ok_def response_done_def)

lemma retry_done:
  assumes ok: "response_ok R env x c" and "x_attempt x = Some t0" and f: "bProxyResponse f"
    and t: "attempt_ok R (c_next_cdr c) (c_transactions c) (x_orq x) t"
    and run: "retry_invite env x t f c = Ret (f', c')"
  shows "response_done R env x f' c'"
proof -
  obtain res c1 where gen: "generateTerminationRequest env t (store_attempt (x_orq x) t c) = Ret (res, c1)"
    and fin: "(case res of None \<Rightarrow> Ret (f, c1) | Some (orqNew, b) \<Rightarrow> replace_attempt x t orqNew b f c1) = Ret (f', c')"
    using run by (auto simp: retry_invite_def obind_Ret_iff)
  note g = generateTerminationRequest_frame [OF gen]
  have ok0: "response_ok R env x (store_attempt (x_orq x) t c)" using store_attempt_ok [OF ok assms(2) t] .
  have ok1: "response_ok R env x c1"
    using ok0 g by (simp add: response_ok_def same_tables_def fresh_retry_def)
  show ?thesis
  proof (cases res)
    case None
    then show ?thesis using fin ok1 f response_ok_done by auto
  next
    case (Some q)
    then obtain orqNew b i where q: "q = (orqNew, b)" "env_b_leg env = Some b" "env_orq env = Some (orqNew, i)"
      using g(8) by (cases q) auto
    have "attempt_ok R (c_next_cdr c1) (c_transactions c1) (x_orq x) t"
      using t g by (simp add: same_tables_def store_attempt_def)
    then show ?thesis
      using fin Some q ok1 replace_attempt_inv [OF ok1, of b orqNew t f f' c']
      by (auto simp: response_done_def response_ok_def fresh_retry_def)
  qed
qed

lemma answer_call_done:
  assumes ok: "response_ok R env x c" and f: "bProxyResponse f"
    and run: "answer_call env x sip f c = Ret (f', c')"
  shows "response_done R env x f' c'"
proof -
  have put: "ctl_inv R ((emit acts c)\<lparr>c_mapDialogInfo := AList.update (x_a_leg x) d' (c_mapDialogInfo c)\<rparr>)"
    if "x_pDialog x = Some d" "di_leg d' = di_leg d" "di_bOrigination d' = di_bOrigination d" "di_pCdr d' = di_pCdr d"
    for d d' acts using ok that by (auto simp: response_ok_def ctl_inv_def info_ok_def emit_def intro!: tables_put_info)
  have "ctl_inv R c'"
  proof (cases "x_pDialog x")
    case None
    with run ok show ?thesis by (auto simp: answer_call_def Let_def outcome_iffs response_ok_def)
  next
    case (Some d)
    with run show ?thesis
      by (auto simp: answer_call_def Let_def outcome_iffs split: if_splits option.splits intro!: put [OF Some])
  qed
  moreover have "bProxyResponse f'" "c_mapTerminationAttempts c' = c_mapTerminationAttempts c"
    using run f by (auto simp: answer_call_def Let_def outcome_iffs emit_def split: option.splits if_splits)
  ultimately show ?thesis using ok by (simp add: response_done_def response_ok_def)
qed

lemma redirect_call_done:
  assumes ok: "response_ok R env x c" and f: "bProxyResponse f"
    and run: "redirect_call env x sip f c = Ret (f', c')"
  shows "response_done R env x f' c'"
proof (cases "x_attempt x")
  case None
  then show ?thesis using run ok f response_ok_done by (auto simp: redirect_call_def)
next
  case (Some t)
  have "attempt_ok R (c_next_cdr c) (c_transactions c) (x_orq x) (crankback_url dest t)" for dest
    using ok Some by (auto simp: response_ok_def attempt_ok_def crankback_url_def)
  then show ?thesis using run Some by (auto simp: redirect_call_def deref_Ret_iff Let_def intro: retry_done [OF ok Some f])
qed

lemma crankback_over_done:
  assumes ok: "response_ok R env x c" and x: "x_attempt x = Some t" and f: "bProxyResponse f"
    and less: "ta_nAttemptCount t < c_nTerminationRetries c - 1"
    and run: "crankback_over env x sip status t rt f c = Ret (f', c')"
  shows "response_done R env x f' c'"
proof -
  obtain address carrier charge where rt: "rt = (address, carrier, charge)" by (cases rt)
  let ?cdr = "setCdrType termination_attempt
    (populateFinalResponseCdr (env_now env) (word_of_int status) (c_cdrs c (x_pCdr x)))"
  let ?c1 = "post_new_cdr ?cdr c"
  have ok1: "response_ok R env x ?c1" using response_ok_post_new [OF ok] .
  obtain user where user: "to_user sip = Ret user"
    using run by (auto simp: crankback_over_def rt Let_def obind_Ret_iff)
  obtain t1 c2 where cr: "crankback_route (''sip:'' @ user @ ''@'' @ address) carrier address
      (charge_info charge address) t ?c1 = (t1, c2)"
    by (metis surj_pair)
  have fin: "retry_invite env x t1 f c2 = Ret (f', c')"
    using run cr by (simp add: crankback_over_def rt Let_def user)
  have at: "attempt_ok R (c_next_cdr ?c1) (c_transactions ?c1) (x_orq x) t"
    using ok1 x by (simp add: response_ok_def)
  have bound: "0 < R \<Longrightarrow> 0 < c_nTerminationRetries c \<and> c_nTerminationRetries c \<le> R"
    using ok by (simp add: response_ok_def ctl_inv_def)
  have ok2: "response_ok R env x c2" and t1: "ta_nAttemptCount t1 = ta_nAttemptCount t + 1" "ta_pCdr t1 = ta_pCdr t"
    and n2: "c_next_cdr c2 = c_next_cdr ?c1" "c_transactions c2 = c_transactions ?c1"
      "c_nTerminationRetries c2 = c_nTerminationRetries c"
    using cr ok1 by (auto simp: crankback_route_def split: option.splits)
  have "attempt_ok R (c_next_cdr c2) (c_transactions c2) (x_orq x) t1"
    using at t1 n2 bound word_pred_less [OF _ less] by (auto simp: attempt_ok_def)
  then show ?thesis using retry_done [OF ok2 x f _ fin] by blast
qed

lemma crankback_call_done:
  assumes ok: "response_ok R env x c" and f: "bProxyResponse f"
    and run: "crankback_call env x sip status f c = Ret (f', c')"
  shows "response_done R env x f' c'"
proof (cases "\<exists>t. x_attempt x = Some t \<and> ta_nAttemptCount t < c_nTerminationRetries c - 1")
  case False
  then show ?thesis using run ok f response_ok_done by (auto simp: crankback_call_def split: option.splits if_splits)
next
  case True
  then obtain t where t: "x_attempt x = Some t" "ta_nAttemptCount t < c_nTerminationRetries c - 1" by blast
  obtain rt cfg where "getTerminationRouteForAltCarrier (c_config c) (ta_carrier t) = Ret (rt, cfg)"
    using run t by (auto simp: crankback_call_def obind_Ret_iff)
  then show ?thesis
    using run t ok f response_ok_done [of R env x "c\<lparr>c_config := cfg\<rparr>" f]
      crankback_over_done [of R env x "c\<lparr>c_config := cfg\<rparr>" t f]
    by (cases rt) (auto simp: crankback_call_def)
qed

lemma final_response_done:
  assumes ok: "response_ok R env x c" and f: "bProxyResponse f"
    and run: "final_response env x sip status f c = Ret (f', c')"
  shows "response_done R env x f' c'"
proof -
  obtain c1 where c1: "count_failure x status c = Ret c1" using run by (auto simp: final_response_def obind_Ret_iff)
  then have ok1: "response_ok R env x c1" using count_failure_Ret [OF c1] ok by auto
  have f1: "bProxyResponse (f\<lparr>bClearTransaction := True, bDestroyLegs := True\<rparr>)" using f by simp
  show ?thesis using run c1 answer_call_done [OF ok1 f1] redirect_call_done [OF ok1 f1]
      crankback_call_done [OF ok1 f1] response_ok_done [OF ok1 f1]
    by (auto simp: final_response_def Let_def split: if_splits)
qed

lemma response_cdr_inv: "ctl_inv R c \<Longrightarrow> ctl_inv R (response_cdr env x status f c)"
  by (simp add: response_cdr_def Let_def post_new_cdr_inv)

lemma proxy_response_inv:
  assumes "response_done R env x f c" "bProxyResponse f" "proxy_response x sip status f c = Ret c'"
  shows "ctl_inv R c'" "200 \<le> status \<Longrightarrow> map_of (c_mapTerminationAttempts c') (x_orq x) = None"
  using assms tables_drop_attempt
  by (auto simp: proxy_response_def response_done_def outcome_iffs ctl_inv_def split: if_splits)

lemma processInviteResponseInsideDialog_inv:
  assumes inv: "ctl_inv R c" and fr: "fresh_retry env c"
    and run: "processInviteResponseInsideDialog env orq sip c = Ret (rc, c')"
  shows "ctl_inv R c'"
proof -
  let ?f = "\<lparr>bClearTransaction = False, bDestroyLegs = False, bProxyResponse = True, sessionTimer = None\<rparr>"
  obtain x status phrase f1 c1 where start: "response_start env orq c = Ret x"
    and branch: "(if status = 100 then Ret (?f\<lparr>bProxyResponse := False\<rparr>, c)
      else if 200 \<le> status then final_response env x sip status ?f c else Ret (?f, c)) = Ret (f1, c1)"
    and rest: "obind (if bProxyResponse f1 then proxy_response x sip status f1 c1 else Ret c1) (\<lambda>c2.
      let c3 = (if bClearTransaction f1 then clearTransaction_orq orq c2 else c2)
      in obind (if bDestroyLegs f1 then clearDialog (x_outgoing_leg x) c3 else Ret c3) (\<lambda>c4.
        Ret (0, response_cdr env x status f1 c4))) = Ret (rc, c')"
    using run by (auto simp: processInviteResponseInsideDialog_def obind_Ret_iff [of "response_start _ _ _"]
      obind_Ret_iff [of "if _ then _ else _"] deref_Ret_iff Let_def)
  have ok: "response_ok R env x c" using response_start_ok [OF start inv fr] .
  have orq: "x_orq x = orq" using response_start_Ret(1) [OF start] .
  have dn: "response_done R env x f1 c1" and clr: "bClearTransaction f1 \<longrightarrow> 200 \<le> status"
    using branch final_response_done [OF ok, of ?f sip status f1 c1] ok
    by (auto simp: response_done_def response_ok_def split: if_splits)
  obtain c2 where c2: "(if bProxyResponse f1 then proxy_response x sip status f1 c1 else Ret c1) = Ret c2"
    using rest by (auto simp: obind_Ret_iff)
  define c3 where "c3 = (if bClearTransaction f1 then clearTransaction_orq orq c2 else c2)"
  have "ctl_inv R c2" "bClearTransaction f1 \<longrightarrow> map_of (c_mapTerminationAttempts c2) orq = None"
    using c2 dn clr proxy_response_inv [OF dn, of sip status c2] orq by (auto simp: response_done_def split: if_splits)
  then have inv3: "ctl_inv R c3" by (simp add: c3_def clearTransaction_inv)
  obtain c4 where c4: "(if bDestroyLegs f1 then clearDialog (x_outgoing_leg x) c3 else Ret c3) = Ret c4"
    and c': "c' = response_cdr env x status f1 c4"
    using rest unfolding c2 obind.simps Let_def c3_def [symmetric] by (auto simp: obind_Ret_iff)
  then have "ctl_inv R c4" using inv3 clearDialog_inv [OF inv3, of "x_outgoing_leg x" c4] by (auto split: if_splits)
  then show ?thesis by (simp add: c' response_cdr_inv)
qed

section \<open>ACK, CANCEL and the inside of a dialog\<close>

lemma cancel_cdr_inv:
  assumes "ctl_inv R c" "cancel_cdr env orq leg c = Ret c'"
  shows "ctl_inv R c'" "same_tables c c'"
proof -
  have p: "p < c_next_cdr c" if "map_of (c_mapDialogInfo c) leg = Some d" "di_pCdr d = Some p" for d p
    using that assms(1) by (auto simp: ctl_inv_def tables_ok_def assoc_lookup info_ok_def split: if_splits)
  show "ctl_inv R c'" "same_tables c c'"
    using assms p ctl_inv_post post_new_cdr_inv
    by (auto simp: cancel_cdr_def deref_Ret_iff split: option.splits)
qed

lemma processAckOrCancel_inv:
  assumes inv: "ctl_inv R c" and run: "processAckOrCancel env irq sip c = Ret (rc, c')"
  shows "ctl_inv R c'"
proof (cases "sip_request sip = Some sip_method_cancel \<and> getAssociatedTransaction_of_irq c irq \<noteq> None \<and>
    env_leg_of_irq env irq \<noteq> None")
  case False
  then show ?thesis using run inv clearDialog_inv [OF inv]
    by (auto simp: processAckOrCancel_def outcome_iffs split: if_splits option.splits)
next
  case True
  then obtain orq leg where t: "sip_request sip = Some sip_method_cancel"
    "getAssociatedTransaction_of_irq c irq = Some orq" "env_leg_of_irq env irq = Some leg" by auto
  obtain c1 c2 where c1: "cancel_cdr env orq leg c = Ret c1"
    and c2: "clearDialog leg (clearTransaction_orq orq (emit [OutgoingCancel orq, DestroyOutgoing orq] c1)) = Ret c2"
    and c': "c' = c2\<lparr>c_mapTerminationAttempts := AList.delete orq (c_mapTerminationAttempts c2)\<rparr>"
    using run t by (auto simp: processAckOrCancel_def obind_Ret_iff)
  let ?c = "clearTransaction_orq orq (emit [OutgoingCancel orq, DestroyOutgoing orq] c1)"
  let ?d = "?c\<lparr>c_mapTerminationAttempts := AList.delete orq (c_mapTerminationAttempts ?c)\<rparr>"
  have inv1: "ctl_inv R c1" using cancel_cdr_inv(1) [OF inv c1] .
  then have "tables_ok R (c_next_cdr c1) (bm_right_erase orq (c_transactions c1))
      (c_dialogs c1) (AList.delete orq (c_mapTerminationAttempts c1)) (c_mapDialogInfo c1)"
    by (simp add: ctl_inv_def tables_drop_transaction tables_drop_attempt)
  then have tab: "ctl_inv R ?d" using inv1 by (simp add: ctl_inv_def)
  obtain other where p: "peers (c_dialogs ?c) leg other"
    using c2 inv1 by (auto simp: clearDialog_def obind_Ret_iff getAssociatedDialog_Ret ctl_inv_dialogs)
  moreover have "dialogs_ok (c_dialogs ?c)" using inv1 ctl_inv_dialogs by simp
  ultimately have "dialog_cleared leg other ?c c2" using clearDialog_Ret [of ?c leg other] c2 by force
  with tab p show ?thesis by (auto simp: c' ctl_inv_def dialog_cleared_def intro: tables_clear_dialog)
qed

lemma bye_cdr_inv:
  assumes "ctl_inv R c" "bye_cdr env leg other c = Ret c'"
  shows "ctl_inv R c'" "same_tables c c'"
proof -
  have p: "p < c_next_cdr c" if "map_of (c_mapDialogInfo c) l = Some d" "di_pCdr d = Some p" for l d p
    using that assms(1) by (auto simp: ctl_inv_def tables_ok_def assoc_lookup info_ok_def split: if_splits)
  show "ctl_inv R c'" "same_tables c c'"
    using assms p ctl_inv_post by (auto simp: bye_cdr_def outcome_iffs Let_def split: option.splits if_splits)
qed

lemma processRequestInsideDialog_inv:
  assumes inv: "ctl_inv R c" and run: "processRequestInsideDialog env leg irq sip c = Ret (rc, c')"
  shows "ctl_inv R c'"
proof -
  obtain other rq_method where o: "getAssociatedDialog c leg = Ret other" "other \<noteq> 0" "sip_request sip = Some rq_method"
    using run by (auto simp: processRequestInsideDialog_def outcome_iffs)
  show ?thesis
  proof (cases "rq_method = sip_method_bye")
    case True
    then obtain c1 c2 where "bye_cdr env leg other (emit [OutgoingBye other] c) = Ret c1" "clearDialog leg c1 = Ret c2"
      "c' = emit [DestroyIncoming irq] c2"
      using run o by (auto simp: processRequestInsideDialog_def obind_Ret_iff)
    then show ?thesis using inv bye_cdr_inv(1) [of R "emit [OutgoingBye other] c"] clearDialog_inv [of R c1 leg c2] by auto
  next
    case False
    then show ?thesis using run o inv
      by (cases rq_method) (auto simp: processRequestInsideDialog_def Let_def intro!: addTransactions_inv)
  qed
qed

lemma processResponseInsideDialog_inv:
  assumes "ctl_inv R c" "map_of (c_mapTerminationAttempts c) orq = None"
    "processResponseInsideDialog env orq sip c = Ret (rc, c')"
  shows "ctl_inv R c'"
  using assms
  by (auto simp: processResponseInsideDialog_def outcome_iffs Let_def intro!: clearTransaction_inv
    split: option.splits if_splits)

lemma processSessionRefreshTimer_inv:
  assumes inv: "ctl_inv R c" and run: "processSessionRefreshTimer leg c = Ret (rc, c')"
  shows "ctl_inv R c'"
proof (cases "map_of (c_mapDialogInfo c) leg")
  case None
  then show ?thesis using run inv by (auto simp: processSessionRefreshTimer_def)
next
  case (Some d)
  have d: "info_ok (c_next_cdr c) (c_dialogs c) leg d"
    using inv Some by (auto simp: ctl_inv_def tables_ok_def assoc_lookup)
  define c1 where "c1 = (case di_timerSessionRefresh d of None \<Rightarrow> c
    | Some t \<Rightarrow> emit [DestroyTimer t] (c\<lparr>c_mapDialogInfo :=
        AList.update leg (d\<lparr>di_timerSessionRefresh := None\<rparr>) (c_mapDialogInfo c)\<rparr>))"
  have "ctl_inv R c1"
    using inv d by (auto simp: c1_def ctl_inv_def info_ok_def intro!: tables_put_info split: option.splits)
  moreover have "clearDialog leg c1 = Ret c'"
    using run Some by (auto simp: processSessionRefreshTimer_def Let_def outcome_iffs c1_def)
  ultimately show ?thesis using clearDialog_inv by blast
qed

lemma processRetransmittedResponse_inv:
  "ctl_inv R c \<Longrightarrow> processRetransmittedResponse f sip c = Ret (rc, c') \<Longrightarrow> ctl_inv R c'"
  by (auto simp: processRetransmittedResponse_def outcome_iffs split: option.splits if_splits)

section \<open>The controller as a state machine\<close>

text \<open>
  The configuration in use, and the one a signal read that the watchdog timer installs. A new
  connection to the database replaces the one in use; without settings for it that one stays.
\<close>

definition installConfig :: "bool \<Rightarrow> controller \<Rightarrow> controller" where
  "installConfig initial c =
     (let c1 = (case c_ConfigNew c of None \<Rightarrow> c | Some cfg \<Rightarrow> c\<lparr>c_config := cfg, c_ConfigNew := None\<rparr>);
          cfg = c_config c1;
          c2 = c1\<lparr>c_nTerminationRetries := min (getCountOfOutboundTrunks cfg) (m_nMaxTerminationAttempts cfg),
                  c_nFSTimerMsecs := m_nFSTimerMsecs cfg, c_current_severity_threshold := m_loglevel cfg\<rparr>
      in if \<not> initial \<and> getCdrConnectInfo cfg \<noteq> None then c2\<lparr>c_cdrWriter := True\<rparr> else c2)"

text \<open>\<open>handleSigHup\<close>; \<open>cfg\<close> is what reading the configuration file again gives.\<close>

definition handleSigHup :: "ssp_config \<Rightarrow> controller \<Rightarrow> controller" where
  "handleSigHup cfg c =
     (if c_ConfigNew c = None then (if m_bIsValid cfg then c\<lparr>c_ConfigNew := Some cfg\<rparr> else c) else c)"

text \<open>The constructor, for a valid configuration and the iteration count of the command line.\<close>

definition SipLbController_new :: "ssp_config \<Rightarrow> int \<Rightarrow> controller" where
  "SipLbController_new cfg iterations = installConfig True
     \<lparr>c_config = cfg, c_ConfigNew = None, c_fsMonitor = FsMonitor_new, c_nIterationCount = iterations,
      c_nTerminationRetries = 0, c_nFSTimerMsecs = 0, c_current_severity_threshold = log_notice,
      c_cdrWriter = False, c_my = \<lparr>my_host = [], my_port = None\<rparr>, c_user_agent = [],
      c_transactions = [], c_dialogs = [], c_mapTerminationAttempts = [], c_mapDialogInfo = [],
      c_mapTrunkStats = [], c_cdrs = (\<lambda>_. CdrInfo_new origination_request), c_next_cdr = 0,
      c_posted = [], c_out = []\<rparr>"

definition generateUserAgent :: "string \<Rightarrow> controller \<Rightarrow> controller" where
  "generateUserAgent version c = c\<lparr>c_user_agent := ''Raytheon/BBN Avoke Edge Server/'' @ version\<rparr>"

text \<open>The steps of \<open>run\<close> before the event loop that set the state: the writer, the own contact, the pool.\<close>

definition create_writer :: "controller \<Rightarrow> controller" where
  "create_writer c = (if getCdrConnectInfo (c_config c) \<noteq> None then c\<lparr>c_cdrWriter := True\<rparr> else c)"

definition start_monitor :: "controller \<Rightarrow> (fs_action list \<times> controller) outcome" where
  "start_monitor c =
     obind (reset (getAppservers (c_config c)) (c_fsMonitor c)) (\<lambda>(acts, m).
       Ret (acts, c\<lparr>c_fsMonitor := setRoundRobinInterval (m_nMaxRoundRobins (c_config c)) m\<rparr>))"

definition run_agent :: "agent_contact \<Rightarrow> string \<Rightarrow> controller \<Rightarrow> (fs_action list \<times> controller) outcome" where
  "run_agent my_contact version c =
     start_monitor (generateUserAgent version ((create_writer c)\<lparr>c_my := my_contact\<rparr>))"

definition resetOutboundTrunkStats :: "controller \<Rightarrow> controller" where
  "resetOutboundTrunkStats c =
     c\<lparr>c_mapTrunkStats := map (\<lambda>(address, tr). (address, trunk_reset tr)) (c_mapTrunkStats c)\<rparr>"

text \<open>
  One event of the SIP stack or a timer handled to its end. The premises about \<open>env\<close> say that what
  the stack hands out is new, that a response to an INVITE belongs to an outgoing leg, and that a
  response to a request inside a dialog is not one to an INVITE outside. Between events the
  configuration may be read anew and replaced, the pool of servers change and the statistics of the trunks be
  reset. \<open>R\<close> bounds the number of attempts of every configuration that is installed, if it is not 0.
\<close>

inductive ctl_step :: "u32 \<Rightarrow> controller \<Rightarrow> controller \<Rightarrow> bool" for R where
  new_request: "fresh_call env irq c \<Longrightarrow> processRequestOutsideDialog env irq sip c = Ret (rc, c') \<Longrightarrow> ctl_step R c c'"
| invite_response: "fresh_retry env c \<Longrightarrow> processInviteResponseInsideDialog env orq sip c = Ret (rc, c') \<Longrightarrow>
    ctl_step R c c'"
| ack_or_cancel: "processAckOrCancel env irq sip c = Ret (rc, c') \<Longrightarrow> ctl_step R c c'"
| dialog_request: "processRequestInsideDialog env leg irq sip c = Ret (rc, c') \<Longrightarrow> ctl_step R c c'"
| dialog_response: "map_of (c_mapTerminationAttempts c) orq = None \<Longrightarrow>
    processResponseInsideDialog env orq sip c = Ret (rc, c') \<Longrightarrow> ctl_step R c c'"
| session_timer: "processSessionRefreshTimer leg c = Ret (rc, c') \<Longrightarrow> ctl_step R c c'"
| retransmission: "processRetransmittedResponse f sip c = Ret (rc, c') \<Longrightarrow> ctl_step R c c'"
| reload_signal: "ctl_step R c (handleSigHup cfg c)"
| reconfigured: "c_ConfigNew c \<noteq> None \<Longrightarrow> 0 < R \<longrightarrow> 0 < c_nTerminationRetries (installConfig False c) \<and>
    c_nTerminationRetries (installConfig False c) \<le> R \<Longrightarrow> ctl_step R c (installConfig False c)"
| outside: "ctl_step R c (c\<lparr>c_fsMonitor := m, c_mapTrunkStats := ts\<rparr>)"

inductive ctl_reachable :: "u32 \<Rightarrow> controller \<Rightarrow> controller \<Rightarrow> bool" for R c0 where
  initial: "ctl_reachable R c0 c0"
| step: "ctl_reachable R c0 c \<Longrightarrow> ctl_step R c c' \<Longrightarrow> ctl_reachable R c0 c'"

lemma ctl_step_inv:
  assumes "ctl_step R c c'" "ctl_inv R c"
  shows "ctl_inv R c'"
  using assms
proof cases
  case new_request
  then show ?thesis using processRequestOutsideDialog_inv [OF assms(2)] by simp
next
  case invite_response
  then show ?thesis using processInviteResponseInsideDialog_inv [OF assms(2)] by simp
next
  case ack_or_cancel
  then show ?thesis using processAckOrCancel_inv [OF assms(2)] by simp
next
  case dialog_request
  then show ?thesis using processRequestInsideDialog_inv [OF assms(2)] by simp
next
  case dialog_response
  then show ?thesis using processResponseInsideDialog_inv [OF assms(2)] by simp
next
  case session_timer
  then show ?thesis using processSessionRefreshTimer_inv [OF assms(2)] by simp
next
  case retransmission
  then show ?thesis using processRetransmittedResponse_inv [OF assms(2)] by simp
next
  case (reload_signal cfg)
  then show ?thesis using assms(2) by (simp add: ctl_inv_def handleSigHup_def)
next
  case reconfigured
  then show ?thesis using assms(2) by (auto simp: ctl_inv_def installConfig_def Let_def)
next
  case (outside m ts)
  then show ?thesis using assms(2) by (simp add: ctl_inv_def)
qed

lemma ctl_reachable_inv: "ctl_reachable R c0 c \<Longrightarrow> ctl_inv R c0 \<Longrightarrow> ctl_inv R c"
  by (induction rule: ctl_reachable.induct) (blast intro: ctl_step_inv)+

text \<open>The controller when the event loop starts.\<close>

lemma SipLbController_new_inv:
  assumes "0 < R \<longrightarrow> 0 < min (getCountOfOutboundTrunks cfg) (m_nMaxTerminationAttempts cfg) \<and>
    min (getCountOfOutboundTrunks cfg) (m_nMaxTerminationAttempts cfg) \<le> R"
  shows "ctl_inv R (SipLbController_new cfg iterations)"
  using assms by (simp add: ctl_inv_def tables_ok_def dialogs_ok_def bm_wf_def SipLbController_new_def installConfig_def)

lemma run_agent_inv:
  assumes "ctl_inv R c" "run_agent my version c = Ret (acts, c')"
  shows "ctl_inv R c'"
  using assms
  by (auto simp: run_agent_def start_monitor_def generateUserAgent_def create_writer_def outcome_iffs ctl_inv_def
    split: if_splits)

end
