(* ===== verification/Stateless.thy ===== *)
theory Stateless
  imports Controller_Calls
begin

text \<open>
  The stateless side of \<open>SipLbController\<close> (\<open>statelessCallback\<close>, \<open>setCompleted\<close>), the calls it
  remembers (\<open>sip-inbound-call.h\<close>, \<open>sip-inbound-call.cpp\<close>) and the watchdog timer of both modes
  (\<open>processWatchdogTimer\<close>): forwarding by Call-ID, forgetting completed calls, the shutdown after
  the configured number of calls, and the installation of a configuration that was read again.
\<close>

section \<open>Calls in progress\<close>

record SipInboundCall =
  iip_strCallId :: string
  iip_strDestUrl :: string
  iip_latestStatus :: u32
  iip_bComplete :: bool
  iip_expireTime :: time_t

abbreviation MAX_RETRANSMISSION_WAIT :: time_t where
  "MAX_RETRANSMISSION_WAIT \<equiv> 8"

definition SipInboundCall_new :: "string \<Rightarrow> string \<Rightarrow> SipInboundCall" where
  "SipInboundCall_new strCallId szDestUrl =
     \<lparr>iip_strCallId = strCallId, iip_strDestUrl = szDestUrl, iip_latestStatus = 0,
      iip_bComplete = False, iip_expireTime = 0\<rparr>"

definition setLatestStatus :: "u32 \<Rightarrow> SipInboundCall \<Rightarrow> SipInboundCall" where
  "setLatestStatus status i = i\<lparr>iip_latestStatus := status\<rparr>"

definition updateExpireTime :: "time_t \<Rightarrow> SipInboundCall \<Rightarrow> SipInboundCall" where
  "updateExpireTime now i = i\<lparr>iip_expireTime := now + MAX_RETRANSMISSION_WAIT\<rparr>"

definition iip_setCompleted :: "time_t \<Rightarrow> SipInboundCall \<Rightarrow> SipInboundCall" where
  "iip_setCompleted now i = updateExpireTime now (i\<lparr>iip_bComplete := True\<rparr>)"

section \<open>State\<close>

text \<open>
  The controller with what only the stateless mode and the watchdog use: the calls in progress and
  the completed ones in the order of their completion, the file-level variables \<open>counter\<close> and
  \<open>timerCount\<close>, whether \<open>m_timer\<close> and \<open>m_nta\<close> are set, whether the event loop goes on, the
  statistics connector and the messages handed to the stack.
\<close>

datatype msg_action =
  MsgSend "string option" sip_t
  | MsgReply nat sip_t
  | MsgDiscard sip_t

record agent =
  ag_controller :: controller
  ag_mapInvitesInProgress :: "(string, SipInboundCall) assoc"
  ag_deqCompletedCallIds :: "string list"
  ag_counter :: int
  ag_timerCount :: u64
  ag_timer :: bool
  ag_nta :: bool
  ag_loop :: bool
  ag_stats :: "(string \<times> u32) option"
  ag_msgs :: "msg_action list"

text \<open>What the clock, the stack and the sort of the pool return to one run of the callback.\<close>

record stateless_env =
  se_now :: time_t
  se_rv :: int
  se_sorter :: "FsInstance list \<Rightarrow> FsInstance list"

definition send_msgs :: "msg_action list \<Rightarrow> agent \<Rightarrow> agent" where
  "send_msgs ms a = a\<lparr>ag_msgs := ag_msgs a @ ms\<rparr>"

definition put_call :: "string \<Rightarrow> SipInboundCall \<Rightarrow> agent \<Rightarrow> agent" where
  "put_call i call a = a\<lparr>ag_mapInvitesInProgress := AList.update i call (ag_mapInvitesInProgress a)\<rparr>"

section \<open>The stateless callback\<close>

definition setCompleted :: "time_t \<Rightarrow> string \<Rightarrow> agent \<Rightarrow> agent outcome" where
  "setCompleted now i a =
     deref (map_of (ag_mapInvitesInProgress a) i) (\<lambda>iip.
       if iip_bComplete iip then Ret a
       else Ret ((put_call i (iip_setCompleted now iip) a)
         \<lparr>ag_deqCompletedCallIds := ag_deqCompletedCallIds a @ [iip_strCallId iip]\<rparr>))"

definition forward_request :: "stateless_env \<Rightarrow> string \<Rightarrow> SipInboundCall \<Rightarrow> sip_t \<Rightarrow> agent \<Rightarrow> (int \<times> agent) outcome" where
  "forward_request env strCallId iip sip a =
     (let a1 = put_call strCallId (updateExpireTime (se_now env) iip) a
      in obind (url_buffer (iip_strDestUrl iip)) (\<lambda>str. Ret (0, send_msgs [MsgSend (Some str) sip] a1)))"

definition dest_url :: "string \<Rightarrow> FsInstance \<Rightarrow> string" where
  "dest_url user server =
     ''sip:'' @ user @ ''@'' @ fs_strSipAddress server @ '':'' @ show_u32 (fs_nSipPort server)"

definition stateless_invite :: "stateless_env \<Rightarrow> string \<Rightarrow> sip_t \<Rightarrow> agent \<Rightarrow> (int \<times> agent) outcome" where
  "stateless_invite env strCallId sip a =
     (let c = ag_controller a in
      if \<not> m_bIsActive (c_config c) then Ret (0, send_msgs [MsgDiscard sip] a)
      else if c_nIterationCount c = 0 then Ret (0, send_msgs [MsgDiscard sip] a)
      else deref (getAvailableServers (se_sorter env) (c_fsMonitor c)) (\<lambda>(servers, monitor).
        let c1 = c\<lparr>c_fsMonitor := monitor\<rparr>; a1 = a\<lparr>ag_controller := c1\<rparr> in
        case servers of
          [] \<Rightarrow> Ret (486, a1)
        | server # _ \<Rightarrow>
            obind (to_user sip) (\<lambda>user.
            obind (url_buffer (dest_url user server)) (\<lambda>str.
              let a2 = send_msgs [MsgSend (Some str) sip] a1 in
              if se_rv env \<noteq> 0 then Ret (se_rv env, a2)
              else let a3 = a2\<lparr>ag_mapInvitesInProgress :=
                       assoc_insert strCallId (SipInboundCall_new strCallId str) (ag_mapInvitesInProgress a2)\<rparr>
                in Ret (0, if c_nIterationCount c1 > 0
                     then a3\<lparr>ag_controller := c1\<lparr>c_nIterationCount := c_nIterationCount c1 - 1\<rparr>\<rparr> else a3)))))"

definition stateless_new_request ::
  "stateless_env \<Rightarrow> string \<Rightarrow> sip_method \<Rightarrow> sip_t \<Rightarrow> agent \<Rightarrow> (int \<times> agent) outcome" where
  "stateless_new_request env strCallId rq_method sip a =
     (case rq_method of
        sip_method_options \<Rightarrow>
          if \<not> m_bIsActive (c_config (ag_controller a)) then Ret (0, send_msgs [MsgDiscard sip] a)
          else Ret (0, send_msgs [MsgReply 200 sip] a)
      | sip_method_invite \<Rightarrow> stateless_invite env strCallId sip a
      | sip_method_ack \<Rightarrow>
          obind (setCompleted (se_now env) strCallId a) (\<lambda>a1. Ret (0, send_msgs [MsgDiscard sip] a1))
      | _ \<Rightarrow> Ret (0, send_msgs [MsgDiscard sip] a))"

definition stateless_response :: "stateless_env \<Rightarrow> string \<Rightarrow> sip_t \<Rightarrow> agent \<Rightarrow> (int \<times> agent) outcome" where
  "stateless_response env strCallId sip a =
     obind (case map_of (ag_mapInvitesInProgress a) strCallId of
              None \<Rightarrow> Ret a
            | Some iip \<Rightarrow>
                deref (sip_cseq sip) (\<lambda>cs_method.
                  if cs_method = sip_method_invite then
                    deref (sip_status sip) (\<lambda>(status, phrase).
                      let a1 = put_call strCallId (setLatestStatus (word_of_int status) iip) a
                      in if status = 200 then setCompleted (se_now env) strCallId a1 else Ret a1)
                  else Ret a))
       (\<lambda>a1. Ret (0, send_msgs [MsgSend None sip] a1))"

definition statelessCallback :: "stateless_env \<Rightarrow> sip_t \<Rightarrow> agent \<Rightarrow> (int \<times> agent) outcome" where
  "statelessCallback env sip a =
     obind (call_id sip) (\<lambda>strCallId.
       case sip_request sip of
         Some rq_method \<Rightarrow>
           (case map_of (ag_mapInvitesInProgress a) strCallId of
              Some iip \<Rightarrow> forward_request env strCallId iip sip a
            | None \<Rightarrow> stateless_new_request env strCallId rq_method sip a)
       | None \<Rightarrow> stateless_response env strCallId sip a)"

section \<open>The watchdog timer\<close>

text \<open>The loop over the completed calls, and its assertion that each of them is still in the table.\<close>

fun forget_completed ::
  "time_t \<Rightarrow> string list \<Rightarrow> (string, SipInboundCall) assoc \<Rightarrow>
   (string list \<times> (string, SipInboundCall) assoc) outcome" where
  "forget_completed now [] m = Ret ([], m)"
| "forget_completed now (i # is) m =
     (case map_of m i of
        None \<Rightarrow> Aborted
      | Some pCall \<Rightarrow>
          if now < iip_expireTime pCall then Ret (i # is, m)
          else forget_completed now is (AList.delete i m))"

text \<open>Stopping the timer, destroying the agent and breaking the event loop.\<close>

definition shut_down :: "agent \<Rightarrow> agent" where
  "shut_down a = a\<lparr>ag_timer := False, ag_nta := False, ag_loop := False\<rparr>"

definition stateless_watchdog :: "time_t \<Rightarrow> agent \<Rightarrow> agent outcome" where
  "stateless_watchdog now a =
     obind (forget_completed now (ag_deqCompletedCallIds a) (ag_mapInvitesInProgress a)) (\<lambda>(is, m).
       let a1 = a\<lparr>ag_deqCompletedCallIds := is, ag_mapInvitesInProgress := m\<rparr>
       in Ret (if c_nIterationCount (ag_controller a1) = 0 \<and> is = [] \<and> m = [] then
                 let a2 = a1\<lparr>ag_counter := ag_counter a1 - 1\<rparr>
                 in if ag_counter a2 = 0 then shut_down a2 else a2
               else a1))"

text \<open>\<open>used\<close> is the number of transactions the stack still has, incoming and outgoing.\<close>

definition stateful_watchdog :: "u64 \<Rightarrow> agent \<Rightarrow> agent" where
  "stateful_watchdog used a =
     (let c = ag_controller a in
      if c_nIterationCount c = 0 \<and> c_dialogs c = [] \<and> c_mapTerminationAttempts c = [] \<and> c_transactions c = [] \<and>
         used = 0
      then shut_down (a\<lparr>ag_controller := c\<lparr>c_mapTrunkStats := [], c_cdrWriter := False\<rparr>\<rparr>)
      else a)"

definition install_new_config :: "agent \<Rightarrow> agent" where
  "install_new_config a =
     (if c_ConfigNew (ag_controller a) = None then a
      else let c = installConfig False (ag_controller a)
           in a\<lparr>ag_controller := c,
                ag_stats := (if m_statsPort (c_config c) \<noteq> 0
                  then Some (m_statsAddress (c_config c), m_statsPort (c_config c)) else None)\<rparr>)"

definition processWatchdogTimer :: "time_t \<Rightarrow> u64 \<Rightarrow> agent \<Rightarrow> (int \<times> agent) outcome" where
  "processWatchdogTimer now used a =
     obind (if m_agent_mode (c_config (ag_controller a)) = agent_mode_stateless
            then stateless_watchdog now a else Ret (stateful_watchdog used a))
       (\<lambda>a1. let a2 = install_new_config a1 in Ret (0, a2\<lparr>ag_timerCount := ag_timerCount a2 + 1\<rparr>))"

section \<open>Runs\<close>

text \<open>
  Messages, ticks of the watchdog, reload signals and changes of the server pool, in the order in
  which they happen.
\<close>

datatype agent_event =
  Message stateless_env sip_t
  | Tick time_t u64
  | Reload ssp_config
  | Pool FsMonitor

fun agent_step :: "agent_event \<Rightarrow> agent \<Rightarrow> agent outcome" where
  "agent_step (Message env sip) a = obind (statelessCallback env sip a) (\<lambda>(rc, a'). Ret a')"
| "agent_step (Tick now used) a = obind (processWatchdogTimer now used a) (\<lambda>(rc, a'). Ret a')"
| "agent_step (Reload cfg) a = Ret (a\<lparr>ag_controller := handleSigHup cfg (ag_controller a)\<rparr>)"
| "agent_step (Pool m) a = Ret (a\<lparr>ag_controller := (ag_controller a)\<lparr>c_fsMonitor := m\<rparr>\<rparr>)"

fun agent_run :: "agent_event list \<Rightarrow> agent \<Rightarrow> agent outcome" where
  "agent_run [] a = Ret a"
| "agent_run (e # es) a = obind (agent_step e a) (agent_run es)"

definition agent_new :: "controller \<Rightarrow> agent" where
  "agent_new c =
     \<lparr>ag_controller = c, ag_mapInvitesInProgress = [], ag_deqCompletedCallIds = [], ag_counter = 5,
      ag_timerCount = 0, ag_timer = True, ag_nta = True, ag_loop = True,
      ag_stats = (if m_statsPort (c_config c) \<noteq> 0
        then Some (m_statsAddress (c_config c), m_statsPort (c_config c)) else None), ag_msgs = []\<rparr>"

lemma agent_run_induct:
  assumes "agent_run es a = Ret a'" "P a"
    and step: "\<And>e b b'. e \<in> set es \<Longrightarrow> agent_step e b = Ret b' \<Longrightarrow> P b \<Longrightarrow> P b'"
  shows "P a'"
  using assms
proof (induction es arbitrary: a)
  case (Cons e es)
  then show ?case by (auto simp: obind_Ret_iff)
qed simp

section \<open>Invariant\<close>

text \<open>
  Every call in the table is there under its own Call-ID, with a destination that fits the buffer,
  and is completed exactly if it is in the queue of completed calls, where it is once; every call
  of the queue is in the table.
\<close>

definition calls_ok :: "string list \<Rightarrow> (string, SipInboundCall) assoc \<Rightarrow> bool" where
  "calls_ok is m \<longleftrightarrow> distinct is \<and> set is \<subseteq> dom (map_of m) \<and>
     (\<forall>i iip. map_of m i = Some iip \<longrightarrow> iip_strCallId iip = i \<and> length (iip_strDestUrl iip) < URL_MAXLEN \<and>
        iip_bComplete iip = (i \<in> set is))"

abbreviation agent_inv :: "agent \<Rightarrow> bool" where
  "agent_inv a \<equiv> calls_ok (ag_deqCompletedCallIds a) (ag_mapInvitesInProgress a)"

lemmas call_defs = SipInboundCall_new_def setLatestStatus_def updateExpireTime_def iip_setCompleted_def
  put_call_def send_msgs_def

lemma calls_ok_put:
  assumes "calls_ok is m" "map_of m i = Some iip" "iip_strCallId iip' = iip_strCallId iip"
    "iip_strDestUrl iip' = iip_strDestUrl iip" "iip_bComplete iip' = iip_bComplete iip"
  shows "calls_ok is (AList.update i iip' m)"
  using assms by (auto simp: calls_ok_def)

lemma calls_ok_complete:
  assumes "calls_ok is m" "map_of m i = Some iip" "\<not> iip_bComplete iip"
  shows "calls_ok (is @ [iip_strCallId iip]) (AList.update i (iip_setCompleted now iip) m)"
  using assms by (auto simp: calls_ok_def iip_setCompleted_def updateExpireTime_def)

lemma calls_ok_new:
  assumes "calls_ok is m" "map_of m i = None" "length url < URL_MAXLEN"
  shows "calls_ok is (assoc_insert i (SipInboundCall_new i url) m)"
  using assms by (auto simp: calls_ok_def SipInboundCall_new_def)

lemma calls_ok_forget:
  assumes "calls_ok (i # is) m"
  shows "calls_ok is (AList.delete i m)"
  using assms by (auto simp: calls_ok_def)

lemma put_call_inv:
  assumes "agent_inv a" "map_of (ag_mapInvitesInProgress a) i = Some iip" "iip_strCallId iip' = iip_strCallId iip"
    "iip_strDestUrl iip' = iip_strDestUrl iip" "iip_bComplete iip' = iip_bComplete iip"
  shows "agent_inv (put_call i iip' a)"
  using calls_ok_put [OF assms] by (simp add: put_call_def)

lemma send_msgs_calls [simp]:
  "ag_mapInvitesInProgress (send_msgs ms a) = ag_mapInvitesInProgress a"
  "ag_deqCompletedCallIds (send_msgs ms a) = ag_deqCompletedCallIds a"
  by (simp_all add: send_msgs_def)

lemma setCompleted_inv:
  assumes "agent_inv a" "setCompleted now i a = Ret a'"
  shows "agent_inv a'"
  using assms by (auto simp: setCompleted_def put_call_def deref_Ret_iff calls_ok_complete split: if_splits)

lemma stateless_invite_calls:
  assumes "stateless_invite env i sip a = Ret (rc, a')"
  shows "ag_deqCompletedCallIds a' = ag_deqCompletedCallIds a \<and>
    (ag_mapInvitesInProgress a' = ag_mapInvitesInProgress a \<or>
     (\<exists>url. length url < URL_MAXLEN \<and>
        ag_mapInvitesInProgress a' = assoc_insert i (SipInboundCall_new i url) (ag_mapInvitesInProgress a)))"
proof (cases "\<not> m_bIsActive (c_config (ag_controller a)) \<or> c_nIterationCount (ag_controller a) = 0")
  case True
  with assms show ?thesis by (auto simp: stateless_invite_def Let_def split: if_splits)
next
  case False
  with assms obtain servers monitor where
    g: "getAvailableServers (se_sorter env) (c_fsMonitor (ag_controller a)) = Some (servers, monitor)"
    by (auto simp: stateless_invite_def outcome_iffs Let_def)
  show ?thesis
  proof (cases servers)
    case Nil
    with g False assms show ?thesis by (auto simp: stateless_invite_def Let_def split: if_splits)
  next
    case (Cons server rest)
    with g False assms obtain user where "to_user sip = Ret user" "length (dest_url user server) < URL_MAXLEN"
      by (auto simp: stateless_invite_def outcome_iffs Let_def)
    with Cons g False assms show ?thesis
      by (auto simp: stateless_invite_def url_buffer_def Let_def split: if_splits)
  qed
qed

lemma statelessCallback_inv:
  assumes inv: "agent_inv a" and run: "statelessCallback env sip a = Ret (rc, a')"
  shows "agent_inv a'"
proof -
  obtain i where i: "sip_call_id sip = Some i"
    using run by (auto simp: statelessCallback_def call_id_def outcome_iffs)
  show ?thesis
  proof (cases "sip_request sip")
    case None
    have put: "agent_inv (put_call i (setLatestStatus st iip) a)" if "map_of (ag_mapInvitesInProgress a) i = Some iip" for st iip
      using put_call_inv [OF inv that] by (simp add: setLatestStatus_def)
    with None run i inv show ?thesis
      by (auto simp: statelessCallback_def call_id_def stateless_response_def outcome_iffs Let_def
        dest: setCompleted_inv [OF put] split: option.splits if_splits)
  next
    case (Some rq)
    show ?thesis
    proof (cases "map_of (ag_mapInvitesInProgress a) i")
      case None
      have "agent_inv a'" if "stateless_invite env i sip a = Ret (rc, a')"
        using stateless_invite_calls [OF that] inv calls_ok_new [OF inv None] by auto
      with None Some run i inv show ?thesis
        by (auto simp: statelessCallback_def call_id_def stateless_new_request_def send_msgs_def outcome_iffs
          setCompleted_def split: sip_method.splits if_splits)
    next
      case (Some iip)
      have "agent_inv (put_call i (updateExpireTime (se_now env) iip) a)"
        using put_call_inv [OF inv Some] by (simp add: updateExpireTime_def)
      with Some \<open>sip_request sip = Some rq\<close> run i show ?thesis
        by (auto simp: statelessCallback_def call_id_def forward_request_def outcome_iffs)
    qed
  qed
qed

section \<open>Forgetting completed calls\<close>

definition expired :: "time_t \<Rightarrow> (string, SipInboundCall) assoc \<Rightarrow> string \<Rightarrow> bool" where
  "expired now m i \<longleftrightarrow> (\<exists>call. map_of m i = Some call \<and> iip_expireTime call \<le> now)"

text \<open>
  The loop removes the longest prefix of expired calls from the queue and these calls from the
  table; its assertion holds.
\<close>

lemma forget_completed_Ret:
  assumes "calls_ok is m"
  shows "\<exists>m'. forget_completed now is m = Ret (dropWhile (expired now m) is, m') \<and>
    map_of m' = map_of m |` (- set (takeWhile (expired now m) is)) \<and>
    calls_ok (dropWhile (expired now m) is) m'"
  using assms
proof (induction "is" arbitrary: m)
  case (Cons i "is")
  then obtain call where call: "map_of m i = Some call" by (auto simp: calls_ok_def)
  show ?case
  proof (cases "now < iip_expireTime call")
    case True
    with call Cons.prems show ?thesis by (simp add: expired_def)
  next
    case False
    let ?m = "AList.delete i m"
    have "i \<notin> set is" using Cons.prems by (simp add: calls_ok_def)
    then have same: "expired now ?m j = expired now m j" if "j \<in> set is" for j
      using that by (auto simp: expired_def)
    have tw: "takeWhile (expired now ?m) is = takeWhile (expired now m) is"
      "dropWhile (expired now ?m) is = dropWhile (expired now m) is"
      using same by (auto intro: takeWhile_cong dropWhile_cong)
    have e: "expired now m i" using call False by (simp add: expired_def)
    from Cons.IH [OF calls_ok_forget [OF Cons.prems]] obtain m' where
      m': "forget_completed now is ?m = Ret (dropWhile (expired now m) is, m')"
        "map_of m' = map_of ?m |` (- set (takeWhile (expired now m) is))"
        "calls_ok (dropWhile (expired now m) is) m'"
      unfolding tw by blast
    moreover have "map_of ?m |` (- set (takeWhile (expired now m) is)) =
        map_of m |` (- set (takeWhile (expired now m) (i # is)))"
      using e by (auto simp: restrict_map_def)
    ultimately show ?thesis using call False e by (intro exI [of _ m']) simp
  qed
qed (simp add: restrict_map_def)

lemma shut_down_calls [simp]:
  "ag_mapInvitesInProgress (shut_down a) = ag_mapInvitesInProgress a"
  "ag_deqCompletedCallIds (shut_down a) = ag_deqCompletedCallIds a"
  by (simp_all add: shut_down_def)

lemma install_new_config_calls [simp]:
  "ag_mapInvitesInProgress (install_new_config a) = ag_mapInvitesInProgress a"
  "ag_deqCompletedCallIds (install_new_config a) = ag_deqCompletedCallIds a"
  by (simp_all add: install_new_config_def Let_def)

lemma stateful_watchdog_calls [simp]:
  "ag_mapInvitesInProgress (stateful_watchdog used a) = ag_mapInvitesInProgress a"
  "ag_deqCompletedCallIds (stateful_watchdog used a) = ag_deqCompletedCallIds a"
  by (simp_all add: stateful_watchdog_def Let_def)

lemma stateless_watchdog_Ret:
  assumes "agent_inv a"
  obtains a' where "stateless_watchdog now a = Ret a'" "agent_inv a'"
    "ag_deqCompletedCallIds a' = dropWhile (expired now (ag_mapInvitesInProgress a)) (ag_deqCompletedCallIds a)"
    "map_of (ag_mapInvitesInProgress a') = map_of (ag_mapInvitesInProgress a) |`
      (- set (takeWhile (expired now (ag_mapInvitesInProgress a)) (ag_deqCompletedCallIds a)))"
proof -
  obtain m' where "forget_completed now (ag_deqCompletedCallIds a) (ag_mapInvitesInProgress a) =
      Ret (dropWhile (expired now (ag_mapInvitesInProgress a)) (ag_deqCompletedCallIds a), m')"
    "map_of m' = map_of (ag_mapInvitesInProgress a) |`
      (- set (takeWhile (expired now (ag_mapInvitesInProgress a)) (ag_deqCompletedCallIds a)))"
    "calls_ok (dropWhile (expired now (ag_mapInvitesInProgress a)) (ag_deqCompletedCallIds a)) m'"
    using forget_completed_Ret [OF assms, of now] by blast
  moreover from this(1) obtain a' where "stateless_watchdog now a = Ret a'" by (simp add: stateless_watchdog_def Let_def)
  ultimately show ?thesis by (intro that [of a']) (auto simp: stateless_watchdog_def Let_def split: if_splits)
qed

lemma watchdog_returns:
  assumes "agent_inv a"
  obtains a' where "processWatchdogTimer now used a = Ret (0, a')" "agent_inv a'"
proof (cases "m_agent_mode (c_config (ag_controller a)) = agent_mode_stateless")
  case True
  obtain a1 where "stateless_watchdog now a = Ret a1" "agent_inv a1" using stateless_watchdog_Ret [OF assms] .
  with True that show ?thesis by (simp add: processWatchdogTimer_def Let_def)
next
  case False
  with assms that show ?thesis by (simp add: processWatchdogTimer_def Let_def)
qed

lemma agent_step_inv:
  assumes "agent_step e a = Ret a'" "agent_inv a"
  shows "agent_inv a'"
proof (cases e)
  case (Message env sip)
  with assms statelessCallback_inv [OF assms(2)] show ?thesis by (auto simp: outcome_iffs)
next
  case (Tick now used)
  obtain a1 where "processWatchdogTimer now used a = Ret (0, a1)" "agent_inv a1" using watchdog_returns [OF assms(2)] .
  with Tick assms show ?thesis by simp
qed (use assms in auto)

lemma agent_run_inv: "agent_run es a = Ret a' \<Longrightarrow> agent_inv a \<Longrightarrow> agent_inv a'"
  using agent_run_induct [of es a a' agent_inv] agent_step_inv by blast

lemma agent_new_inv: "agent_inv (agent_new c)"
  by (simp add: agent_new_def calls_ok_def)

section \<open>Calls without an answer\<close>

text \<open>The event that completes a call: a 200 to its INVITE.\<close>

definition answers :: "string \<Rightarrow> agent_event \<Rightarrow> bool" where
  "answers i e =
     (case e of
        Message env sip \<Rightarrow> sip_request sip = None \<and> sip_call_id sip = Some i \<and> sip_cseq sip = Some sip_method_invite \<and>
          map_option fst (sip_status sip) = Some 200
      | _ \<Rightarrow> False)"

text \<open>A call in progress that was sent to a destination and is not completed.\<close>

definition pending_call :: "string \<Rightarrow> string \<Rightarrow> agent \<Rightarrow> bool" where
  "pending_call i url a \<longleftrightarrow>
     (\<exists>iip. map_of (ag_mapInvitesInProgress a) i = Some iip \<and> iip_strDestUrl iip = url \<and> \<not> iip_bComplete iip)"

lemma pending_put [simp]:
  "pending_call i url (put_call j iip a) =
     (if j = i then iip_strDestUrl iip = url \<and> \<not> iip_bComplete iip else pending_call i url a)"
  by (simp add: pending_call_def put_call_def)

lemma pending_frame [simp]: "pending_call i url (send_msgs ms a) = pending_call i url a"
  by (simp add: pending_call_def)

lemma pending_complete:
  assumes "setCompleted now j a = Ret a'" "j \<noteq> i" "pending_call i url a"
  shows "pending_call i url a'"
  using assms by (auto simp: setCompleted_def pending_call_def put_call_def outcome_iffs split: if_splits)

lemma pending_callback:
  assumes run: "statelessCallback env sip a = Ret (rc, a')" and p: "pending_call i url a"
    and no: "\<not> answers i (Message env sip)"
  shows "pending_call i url a'"
proof -
  obtain j where j: "sip_call_id sip = Some j"
    using run by (auto simp: statelessCallback_def call_id_def outcome_iffs)
  show ?thesis
  proof (cases "sip_request sip")
    case None
    obtain iip where iip: "map_of (ag_mapInvitesInProgress a) i = Some iip" "iip_strDestUrl iip = url" "\<not> iip_bComplete iip"
      using p by (auto simp: pending_call_def)
    have put: "pending_call i url (put_call j (setLatestStatus st x) a)"
      if "map_of (ag_mapInvitesInProgress a) j = Some x" for st x
      using that iip p by (auto simp: setLatestStatus_def)
    from None show ?thesis using run j p no
      by (auto simp: statelessCallback_def call_id_def stateless_response_def outcome_iffs answers_def Let_def
        simp del: pending_put intro!: put dest: pending_complete [OF _ _ put] split: option.splits if_splits)
  next
    case (Some rq)
    have new: "pending_call i url a'" if "map_of (ag_mapInvitesInProgress a) j = None" "stateless_invite env j sip a = Ret (rc, a')"
      using stateless_invite_calls [OF that(2)] that(1) p by (auto simp: pending_call_def)
    show ?thesis
      using Some run j p new
      by (auto simp: statelessCallback_def call_id_def forward_request_def stateless_new_request_def outcome_iffs
        setCompleted_def updateExpireTime_def pending_call_def put_call_def Let_def split: option.splits sip_method.splits if_splits)
  qed
qed

lemma pending_watchdog:
  assumes "agent_inv a" "pending_call i url a" "processWatchdogTimer now used a = Ret (rc, a')"
  shows "pending_call i url a'"
proof (cases "m_agent_mode (c_config (ag_controller a)) = agent_mode_stateless")
  case True
  obtain a1 where a1: "stateless_watchdog now a = Ret a1"
    "map_of (ag_mapInvitesInProgress a1) = map_of (ag_mapInvitesInProgress a) |`
      (- set (takeWhile (expired now (ag_mapInvitesInProgress a)) (ag_deqCompletedCallIds a)))"
    using stateless_watchdog_Ret [OF assms(1)] .
  have "i \<notin> set (ag_deqCompletedCallIds a)" using assms(1,2) by (auto simp: calls_ok_def pending_call_def)
  then have "i \<notin> set (takeWhile (expired now (ag_mapInvitesInProgress a)) (ag_deqCompletedCallIds a))"
    by (auto dest: set_takeWhileD)
  with a1(2) assms(2) have "pending_call i url a1" by (simp add: pending_call_def)
  with True a1(1) assms(3) show ?thesis by (auto simp: processWatchdogTimer_def Let_def pending_call_def)
next
  case False
  with assms show ?thesis by (auto simp: processWatchdogTimer_def Let_def pending_call_def)
qed

lemma pending_step:
  assumes "agent_step e a = Ret a'" "agent_inv a" "pending_call i url a" "\<not> answers i e"
  shows "pending_call i url a'"
  using assms pending_callback pending_watchdog
  by (cases e) (fastforce simp: outcome_iffs, fastforce simp: outcome_iffs, auto simp: pending_call_def)

lemma pending_run:
  assumes "agent_run es a = Ret a'" "agent_inv a" "pending_call i url a" "\<forall>e \<in> set es. \<not> answers i e"
  shows "pending_call i url a'"
  using agent_run_induct [OF assms(1), of "\<lambda>a. agent_inv a \<and> pending_call i url a"] assms(2-) agent_step_inv pending_step
  by blast

section \<open>The end of the program\<close>

text \<open>Once no call is left, every tick of the stateless watchdog only counts down.\<close>

definition agent_idle :: "agent \<Rightarrow> bool" where
  "agent_idle a \<longleftrightarrow> m_agent_mode (c_config (ag_controller a)) = agent_mode_stateless \<and>
     c_nIterationCount (ag_controller a) = 0 \<and> c_ConfigNew (ag_controller a) = None \<and>
     ag_deqCompletedCallIds a = [] \<and> ag_mapInvitesInProgress a = []"

lemma idle_tick:
  assumes "agent_idle a"
  shows "agent_step (Tick now used) a =
    Ret ((if ag_counter a = 1 then shut_down (a\<lparr>ag_counter := 0\<rparr>) else a\<lparr>ag_counter := ag_counter a - 1\<rparr>)
      \<lparr>ag_timerCount := ag_timerCount a + 1\<rparr>)"
  using assms
  by (simp add: agent_idle_def processWatchdogTimer_def stateless_watchdog_def install_new_config_def shut_down_def Let_def)

lemma idle_runs_down:
  assumes "agent_idle a" "ag_counter a = int (length ts)" "ts \<noteq> []"
  shows "\<exists>a'. agent_run (map (\<lambda>(now, used). Tick now used) ts) a = Ret a' \<and> \<not> ag_loop a' \<and> \<not> ag_timer a' \<and> \<not> ag_nta a'"
  using assms
proof (induction ts arbitrary: a)
  case (Cons t ts)
  show ?case
  proof (cases "ts = []")
    case True
    with Cons.prems show ?thesis
      by (simp add: split_beta idle_tick shut_down_def del: agent_step.simps)
  next
    case False
    let ?b = "a\<lparr>ag_counter := ag_counter a - 1, ag_timerCount := ag_timerCount a + 1\<rparr>"
    have "agent_idle ?b" "ag_counter ?b = int (length ts)" using Cons.prems by (simp_all add: agent_idle_def)
    from Cons.IH [OF this False] False Cons.prems show ?thesis
      by (simp add: split_beta idle_tick del: agent_step.simps)
  qed
qed simp

lemma last_tick_forgets:
  assumes "agent_inv a" "m_agent_mode (c_config (ag_controller a)) = agent_mode_stateless"
    "c_nIterationCount (ag_controller a) = 0" "c_ConfigNew (ag_controller a) = None"
    "\<forall>i iip. map_of (ag_mapInvitesInProgress a) i = Some iip \<longrightarrow> iip_bComplete iip \<and> iip_expireTime iip \<le> now"
    "1 < ag_counter a"
  obtains a' where "agent_step (Tick now used) a = Ret a'" "agent_idle a'" "ag_counter a' = ag_counter a - 1"
proof -
  let ?m = "ag_mapInvitesInProgress a" and ?is = "ag_deqCompletedCallIds a"
  have "expired now ?m i" if "i \<in> set ?is" for i
    using that assms(1,5) by (fastforce simp: calls_ok_def expired_def)
  then have tw: "takeWhile (expired now ?m) ?is = ?is" "dropWhile (expired now ?m) ?is = []"
    by (simp_all add: takeWhile_eq_all_conv dropWhile_eq_Nil_conv)
  obtain m' where m': "forget_completed now ?is ?m = Ret ([], m')" "map_of m' = map_of ?m |` (- set ?is)"
    using forget_completed_Ret [OF assms(1), of now] unfolding tw by blast
  have "map_of ?m i = None" if "i \<notin> set ?is" for i
    using that assms(1,5) by (cases "map_of ?m i") (auto simp: calls_ok_def)
  then have "m' = []" using m'(2) by (auto simp: assoc_empty_iff restrict_map_def fun_eq_iff)
  with m'(1) assms show ?thesis
    by (intro that [of "a\<lparr>ag_deqCompletedCallIds := [], ag_mapInvitesInProgress := [], ag_counter := ag_counter a - 1,
        ag_timerCount := ag_timerCount a + 1\<rparr>"])
      (simp_all add: processWatchdogTimer_def stateless_watchdog_def install_new_config_def agent_idle_def)
qed

section \<open>Properties\<close>

text \<open>
  A new INVITE in stateless mode, when the configuration is active and the program is not
  shutting down: with a server offered by the pool it is sent on to the first one, to the called
  user, and remembered as pending with that destination, and one call less is left to be handled
  when their number is limited; with no server offered nothing is sent at all, since the status 486
  is only returned to the stack, which ignores it.
\<close>

theorem stateless_invite_forwarded:
  assumes sip: "sip_call_id sip = Some i" "sip_request sip = Some sip_method_invite" "to_user sip = Ret user"
    and new: "map_of (ag_mapInvitesInProgress a) i = None"
    and open_for_calls: "m_bIsActive (c_config (ag_controller a))" "c_nIterationCount (ag_controller a) \<noteq> 0"
    and pool: "getAvailableServers (se_sorter env) (c_fsMonitor (ag_controller a)) = Some (servers, monitor)"
    and sent: "se_rv env = 0"
  shows "case servers of
      [] \<Rightarrow> statelessCallback env sip a =
        Ret (486, a\<lparr>ag_controller := (ag_controller a)\<lparr>c_fsMonitor := monitor\<rparr>\<rparr>)
    | server # rest \<Rightarrow> length (dest_url user server) < URL_MAXLEN \<longrightarrow>
        (\<exists>a'. statelessCallback env sip a = Ret (0, a') \<and> pending_call i (dest_url user server) a' \<and>
          ag_msgs a' = ag_msgs a @ [MsgSend (Some (dest_url user server)) sip] \<and>
          (\<forall>j. j \<noteq> i \<longrightarrow> map_of (ag_mapInvitesInProgress a') j = map_of (ag_mapInvitesInProgress a) j) \<and>
          c_nIterationCount (ag_controller a') = c_nIterationCount (ag_controller a) -
            (if 0 < c_nIterationCount (ag_controller a) then 1 else 0))"
proof (cases servers)
  case Nil
  with assms show ?thesis
    by (simp add: statelessCallback_def call_id_def stateless_new_request_def stateless_invite_def Let_def)
next
  case (Cons server rest)
  with assms show ?thesis
    by (simp add: statelessCallback_def call_id_def stateless_new_request_def stateless_invite_def Let_def
        url_buffer_def send_msgs_def pending_call_def SipInboundCall_new_def)
qed

text \<open>An agent for the examples: two servers are available.\<close>

definition ex_agent :: agent where
  "ex_agent = agent_new ((SipLbController_new initial_config 1)\<lparr>c_fsMonitor := example_monitor\<rparr>)"

definition ex_senv :: "time_t \<Rightarrow> stateless_env" where
  "ex_senv now = \<lparr>se_now = now, se_rv = 0, se_sorter = sort_by capacity_sorter\<rparr>"

definition ex_sip :: "sip_method option \<Rightarrow> int \<Rightarrow> sip_t" where
  "ex_sip rq status =
     \<lparr>sip_request = rq, sip_status = (if rq = None then Some (status, ''phrase'') else None),
      sip_cseq = Some sip_method_invite, sip_call_id = Some ''i'', sip_contact = None,
      sip_to = Some \<lparr>a_display = None, a_url = \<lparr>url_user = Some ''u'', url_host = None, url_port = None\<rparr>, a_tag = None\<rparr>,
      sip_from = None, sip_payload = None, sip_session_expires = False, sip_min_se = None, sip_unknown = [],
      sip_p_asserted_identity = None, sip_remote_party_id = None\<rparr>"

lemma ex_pool:
  obtains m' where "getAvailableServers (sort_by capacity_sorter) example_monitor =
    Some ([example_server ''b'' 10 100, example_server ''a'' 90 100], m')"
proof -
  have "length (mon_servers example_monitor) < 2 ^ 32" by (simp add: example_monitor_def)
  moreover have "chosen (sort_by capacity_sorter) example_monitor =
      [example_server ''b'' 10 100, example_server ''a'' 90 100]"
    by (simp add: chosen_def offered_def least_loaded_turn_def rr_start_def example_monitor_def FsMonitor_new_def
        example_monitor_available)
  ultimately show ?thesis using that by (simp add: getAvailableServers_eq)
qed

lemma ex_dest_url: "dest_url ''u'' (example_server ''b'' 10 100) = ''sip:u@b:5060''"
  by (simp add: dest_url_def example_server_def FsInstance_new_def string_eval)

lemma ex_agent_config:
  "m_bIsActive (c_config (ag_controller ex_agent))" "c_nIterationCount (ag_controller ex_agent) = 1"
  "ag_mapInvitesInProgress ex_agent = []" "c_fsMonitor (ag_controller ex_agent) = example_monitor"
  "ag_msgs ex_agent = []"
  by (simp_all add: ex_agent_def agent_new_def SipLbController_new_def installConfig_def initial_config_def Let_def)

theorem stateless_invite_forwarded_witness:
  "\<exists>a'. statelessCallback (ex_senv 1000) (ex_sip (Some sip_method_invite) 0) ex_agent = Ret (0, a') \<and>
     pending_call ''i'' ''sip:u@b:5060'' a' \<and> length (ag_msgs a') = 1 \<and> c_nIterationCount (ag_controller a') = 0"
proof -
  obtain m' where "getAvailableServers (sort_by capacity_sorter) example_monitor =
      Some ([example_server ''b'' 10 100, example_server ''a'' 90 100], m')" by (rule ex_pool)
  then have "getAvailableServers (se_sorter (ex_senv 1000)) (c_fsMonitor (ag_controller ex_agent)) =
      Some ([example_server ''b'' 10 100, example_server ''a'' 90 100], m')"
    by (simp add: ex_agent_config ex_senv_def)
  from stateless_invite_forwarded [OF _ _ _ _ _ _ this, of "ex_sip (Some sip_method_invite) 0" "''i''" "''u''"]
  show ?thesis by (auto simp: ex_agent_config ex_senv_def ex_sip_def to_user_def ex_dest_url)
qed

text \<open>
  C35. All requests of a call go to the server its INVITE went to: a pending call stays pending with
  the same destination through every run without a 200 to its INVITE, however long, and each further
  request with its Call-ID is sent there. So a call that is refused is never forgotten either.
\<close>

theorem pending_call_sticks:
  assumes start: "agent_run before (agent_new c) = Ret a" and call: "pending_call i url a"
    and run: "agent_run es a = Ret a'" and unanswered: "\<forall>e \<in> set es. \<not> answers i e"
    and sip: "sip_call_id sip = Some i" "sip_request sip = Some rq_method"
  shows "pending_call i url a' \<and>
    (\<exists>a''. statelessCallback env sip a' = Ret (0, a'') \<and> ag_msgs a'' = ag_msgs a' @ [MsgSend (Some url) sip] \<and>
       pending_call i url a'')"
proof -
  have inv: "agent_inv a" using agent_run_inv [OF start agent_new_inv] .
  have p: "pending_call i url a'" using pending_run [OF run inv call unanswered] .
  then obtain iip where iip: "map_of (ag_mapInvitesInProgress a') i = Some iip" "iip_strDestUrl iip = url" "\<not> iip_bComplete iip"
    by (auto simp: pending_call_def)
  moreover have "length url < URL_MAXLEN" using agent_run_inv [OF run inv] iip by (auto simp: calls_ok_def)
  ultimately show ?thesis using p sip
    by (simp add: statelessCallback_def call_id_def forward_request_def url_buffer_def updateExpireTime_def
        pending_call_def send_msgs_def put_call_def)
qed

theorem pending_call_sticks_witness:
  "\<exists>a a'. agent_run [Message (ex_senv 1000) (ex_sip (Some sip_method_invite) 0)] ex_agent = Ret a \<and>
     agent_run [Message (ex_senv 1001) (ex_sip None 486), Tick 2000 0] a = Ret a' \<and> pending_call ''i'' ''sip:u@b:5060'' a'"
proof -
  obtain m' where m': "getAvailableServers (sort_by capacity_sorter) example_monitor =
      Some ([example_server ''b'' 10 100, example_server ''a'' 90 100], m')" by (rule ex_pool)
  define a where "a = snd (case statelessCallback (ex_senv 1000) (ex_sip (Some sip_method_invite) 0) ex_agent of
    Ret x \<Rightarrow> x | _ \<Rightarrow> (0, ex_agent))"
  have a: "agent_run [Message (ex_senv 1000) (ex_sip (Some sip_method_invite) 0)] ex_agent = Ret a"
    "pending_call ''i'' ''sip:u@b:5060'' a" "ag_deqCompletedCallIds a = []"
    using m' by (simp_all add: a_def statelessCallback_def call_id_def stateless_new_request_def stateless_invite_def Let_def
        url_buffer_def send_msgs_def pending_call_def SipInboundCall_new_def ex_agent_config ex_senv_def ex_sip_def
        to_user_def ex_dest_url ex_agent_def agent_new_def assoc_insert_def SipLbController_new_def installConfig_def
        initial_config_def)
  have "\<exists>a'. agent_run [Message (ex_senv 1001) (ex_sip None 486), Tick 2000 0] a = Ret a'"
    using a(2,3) watchdog_returns
    by (auto simp: statelessCallback_def call_id_def stateless_response_def ex_sip_def pending_call_def put_call_def
      send_msgs_def processWatchdogTimer_def stateless_watchdog_def Let_def)
  then obtain a' where a': "agent_run [Message (ex_senv 1001) (ex_sip None 486), Tick 2000 0] a = Ret a'" ..
  have "pending_call ''i'' ''sip:u@b:5060'' a'"
    using pending_call_sticks [OF a(1) [unfolded ex_agent_def] a(2) a', of "ex_sip (Some sip_method_bye) 0" sip_method_bye]
    by (simp add: answers_def ex_sip_def)
  with a(1) a' show ?thesis by blast
qed

text \<open>
  C34. The table of the stateless mode: in every state the program can reach, a call is completed
  exactly if it is once in the queue of completed calls, and every call of the queue is in the
  table, so the assertion of the watchdog holds; each of its runs in stateless mode removes exactly
  the calls before the first one in the queue whose waiting time is not over, and no other call.
\<close>

theorem completed_calls_forgotten:
  assumes "agent_run es (agent_new c) = Ret a" "m_agent_mode (c_config (ag_controller a)) = agent_mode_stateless"
  shows "\<exists>a'. processWatchdogTimer now used a = Ret (0, a') \<and>
    ag_deqCompletedCallIds a' = dropWhile (expired now (ag_mapInvitesInProgress a)) (ag_deqCompletedCallIds a) \<and>
    (\<forall>i. map_of (ag_mapInvitesInProgress a') i =
       (if i \<in> set (takeWhile (expired now (ag_mapInvitesInProgress a)) (ag_deqCompletedCallIds a)) then None
        else map_of (ag_mapInvitesInProgress a) i)) \<and>
    distinct (ag_deqCompletedCallIds a) \<and>
    set (ag_deqCompletedCallIds a) = {i. \<exists>iip. map_of (ag_mapInvitesInProgress a) i = Some iip \<and> iip_bComplete iip}"
proof -
  have inv: "agent_inv a" using agent_run_inv [OF assms(1) agent_new_inv] .
  then obtain a1 where "stateless_watchdog now a = Ret a1"
    "ag_deqCompletedCallIds a1 = dropWhile (expired now (ag_mapInvitesInProgress a)) (ag_deqCompletedCallIds a)"
    "map_of (ag_mapInvitesInProgress a1) = map_of (ag_mapInvitesInProgress a) |`
      (- set (takeWhile (expired now (ag_mapInvitesInProgress a)) (ag_deqCompletedCallIds a)))"
    by (rule stateless_watchdog_Ret)
  with assms(2) inv show ?thesis
    by (auto simp: processWatchdogTimer_def Let_def restrict_map_def calls_ok_def)
qed

text \<open>The agent after a call was answered.\<close>

lemma ex_run_answered:
  obtains a where "agent_run [Message (ex_senv 1000) (ex_sip (Some sip_method_invite) 0), Message (ex_senv 1002) (ex_sip None 200)]
      ex_agent = Ret a" "ag_deqCompletedCallIds a = [''i'']" "m_agent_mode (c_config (ag_controller a)) = agent_mode_stateless"
    "c_nIterationCount (ag_controller a) = 0" "c_ConfigNew (ag_controller a) = None" "ag_counter a = 5"
    "map_of (ag_mapInvitesInProgress a) =
      [''i'' \<mapsto> \<lparr>iip_strCallId = ''i'', iip_strDestUrl = ''sip:u@b:5060'', iip_latestStatus = 200,
        iip_bComplete = True, iip_expireTime = 1010\<rparr>]"
proof -
  obtain m' where m': "getAvailableServers (sort_by capacity_sorter) example_monitor =
      Some ([example_server ''b'' 10 100, example_server ''a'' 90 100], m')" by (rule ex_pool)
  show ?thesis
    by (rule that, simp add: m' statelessCallback_def call_id_def stateless_new_request_def stateless_invite_def Let_def
        url_buffer_def send_msgs_def SipInboundCall_new_def ex_senv_def ex_sip_def to_user_def ex_dest_url ex_agent_def
        agent_new_def assoc_insert_def SipLbController_new_def installConfig_def initial_config_def stateless_response_def
        put_call_def setLatestStatus_def setCompleted_def iip_setCompleted_def updateExpireTime_def, simp_all)
qed

theorem completed_calls_forgotten_witness:
  "\<exists>a a'. agent_run [Message (ex_senv 1000) (ex_sip (Some sip_method_invite) 0), Message (ex_senv 1002) (ex_sip None 200)]
      ex_agent = Ret a \<and> ag_deqCompletedCallIds a = [''i''] \<and>
    processWatchdogTimer 1010 0 a = Ret (0, a') \<and> ag_deqCompletedCallIds a' = [] \<and> map_of (ag_mapInvitesInProgress a') ''i'' = None"
proof -
  obtain a where a: "agent_run [Message (ex_senv 1000) (ex_sip (Some sip_method_invite) 0),
      Message (ex_senv 1002) (ex_sip None 200)] ex_agent = Ret a" "ag_deqCompletedCallIds a = [''i'']"
      "m_agent_mode (c_config (ag_controller a)) = agent_mode_stateless"
    and m: "map_of (ag_mapInvitesInProgress a) =
      [''i'' \<mapsto> \<lparr>iip_strCallId = ''i'', iip_strDestUrl = ''sip:u@b:5060'', iip_latestStatus = 200,
        iip_bComplete = True, iip_expireTime = 1010\<rparr>]" by (rule ex_run_answered)
  from m have "expired 1010 (ag_mapInvitesInProgress a) ''i''" by (simp add: expired_def)
  with a completed_calls_forgotten [OF a(1) [unfolded ex_agent_def] a(3), of 1010 0] show ?thesis by auto
qed

text \<open>
  C36. A program that was told to handle a number of calls ends: once the count is used up, all
  calls of the stateless mode are completed and their waiting time is over, and no configuration
  waits to be installed, the watchdog stops the event loop after as many ticks as \<open>counter\<close> says,
  five at the start.
\<close>

theorem agent_shuts_down:
  assumes run: "agent_run es (agent_new c) = Ret a" and mode: "m_agent_mode (c_config (ag_controller a)) = agent_mode_stateless"
    and used_up: "c_nIterationCount (ag_controller a) = 0" "c_ConfigNew (ag_controller a) = None"
    and complete: "\<forall>i iip. map_of (ag_mapInvitesInProgress a) i = Some iip \<longrightarrow> iip_bComplete iip \<and> iip_expireTime iip \<le> fst t"
    and ticks: "ag_counter a = int (length (t # ts))" "ts \<noteq> []"
  shows "\<exists>a'. agent_run (map (\<lambda>(now, used). Tick now used) (t # ts)) a = Ret a' \<and>
    \<not> ag_loop a' \<and> \<not> ag_timer a' \<and> \<not> ag_nta a'"
proof -
  have "1 < ag_counter a" using ticks by (cases ts) simp_all
  then obtain a1 where a1: "agent_step (Tick (fst t) (snd t)) a = Ret a1" "agent_idle a1" "ag_counter a1 = ag_counter a - 1"
    by (rule last_tick_forgets [OF agent_run_inv [OF run agent_new_inv] mode used_up complete, of "snd t"])
  with idle_runs_down [OF a1(2), of ts] ticks show ?thesis by (simp add: split_beta del: agent_step.simps)
qed

theorem agent_shuts_down_witness:
  "\<exists>a a'. agent_run [Message (ex_senv 1000) (ex_sip (Some sip_method_invite) 0), Message (ex_senv 1002) (ex_sip None 200)]
      ex_agent = Ret a \<and>
    agent_run (map (\<lambda>(now, used). Tick now used) [(1010, 0), (1020, 0), (1030, 0), (1040, 0), (1050, 0)]) a = Ret a' \<and>
    \<not> ag_loop a'"
proof -
  obtain a where a: "agent_run [Message (ex_senv 1000) (ex_sip (Some sip_method_invite) 0),
      Message (ex_senv 1002) (ex_sip None 200)] ex_agent = Ret a"
      "m_agent_mode (c_config (ag_controller a)) = agent_mode_stateless"
      "c_nIterationCount (ag_controller a) = 0" "c_ConfigNew (ag_controller a) = None" "ag_counter a = 5"
    and m: "map_of (ag_mapInvitesInProgress a) =
      [''i'' \<mapsto> \<lparr>iip_strCallId = ''i'', iip_strDestUrl = ''sip:u@b:5060'', iip_latestStatus = 200,
        iip_bComplete = True, iip_expireTime = 1010\<rparr>]" by (rule ex_run_answered)
  from m have "\<forall>i iip. map_of (ag_mapInvitesInProgress a) i = Some iip \<longrightarrow>
      iip_bComplete iip \<and> iip_expireTime iip \<le> fst (1010 :: time_t, 0 :: u64)" by auto
  from agent_shuts_down [OF a(1) [unfolded ex_agent_def] a(2-4) this, of "[(1020, 0), (1030, 0), (1040, 0), (1050, 0)]"] a(1,5)
  show ?thesis by (auto simp del: agent_run.simps)
qed

text \<open>An ACK whose Call-ID is not in the table makes the code follow the end iterator.\<close>

lemma ack_of_unknown_call:
  assumes "sip_call_id sip = Some i" "sip_request sip = Some sip_method_ack" "map_of (ag_mapInvitesInProgress a) i = None"
  shows "statelessCallback env sip a = Undefined"
  using assms by (simp add: statelessCallback_def call_id_def stateless_new_request_def setCompleted_def)

end
