(* ===== verification/Call_Properties.thy ===== *)
theory Call_Properties
  imports Controller_Calls
begin

text \<open>
  What happens to a call: a call under way is described by the tables of the controller, and each
  handler is shown to set it up, to move it on or to remove it, and nothing else.
\<close>

section \<open>Calls under way\<close>

definition call_up :: "controller \<Rightarrow> nat \<Rightarrow> nat \<Rightarrow> nat \<Rightarrow> nat \<Rightarrow> bool" where
  "call_up c irq orq a b \<longleftrightarrow>
     bm_left (c_transactions c) irq = Some orq \<and> bm_left (c_dialogs c) a = Some b"

text \<open>A call from a carrier to a server, with the reference of its record.\<close>

definition origination_up :: "controller \<Rightarrow> nat \<Rightarrow> nat \<Rightarrow> nat \<Rightarrow> nat \<Rightarrow> nat \<Rightarrow> bool" where
  "origination_up c irq orq a b p \<longleftrightarrow> call_up c irq orq a b \<and>
     map_of (c_mapTerminationAttempts c) orq = None \<and> map_of (c_mapDialogInfo c) b = None \<and>
     (\<exists>d. map_of (c_mapDialogInfo c) a = Some d \<and> di_bOrigination d \<and> di_pCdr d = Some p)"

text \<open>A call from a server to a carrier, with its present attempt.\<close>

definition termination_up ::
  "controller \<Rightarrow> nat \<Rightarrow> nat \<Rightarrow> nat \<Rightarrow> nat \<Rightarrow> TerminationAttempt \<Rightarrow> bool" where
  "termination_up c irq orq a b t \<longleftrightarrow> call_up c irq orq a b \<and>
     map_of (c_mapTerminationAttempts c) orq = Some t \<and> map_of (c_mapDialogInfo c) a = None \<and>
     (\<exists>d. map_of (c_mapDialogInfo c) b = Some d \<and> \<not> di_bOrigination d)"

text \<open>The tables without one call, every other call as it was.\<close>

definition call_removed :: "controller \<Rightarrow> nat \<Rightarrow> nat \<Rightarrow> nat \<Rightarrow> nat \<Rightarrow> controller \<Rightarrow> bool" where
  "call_removed c irq orq a b c' \<longleftrightarrow>
     bm_left (c_transactions c') = (bm_left (c_transactions c))(irq := None) \<and>
     bm_left (c_dialogs c') = (bm_left (c_dialogs c))(a := None) \<and>
     map_of (c_mapTerminationAttempts c') = (map_of (c_mapTerminationAttempts c))(orq := None) \<and>
     map_of (c_mapDialogInfo c') = (map_of (c_mapDialogInfo c))(a := None, b := None)"

text \<open>The stack's view of the call when a response to its INVITE arrives.\<close>

definition response_env :: "nta_env \<Rightarrow> nat \<Rightarrow> nat \<Rightarrow> nat \<Rightarrow> bool" where
  "response_env env irq a b \<longleftrightarrow> env_response_leg env = Some b \<and> env_leg_of_irq env irq = Some a"

lemma call_up_right:
  assumes "ctl_inv R c" "call_up c irq orq a b"
  shows "bm_right (c_transactions c) orq = Some irq" "bm_right (c_dialogs c) b = Some a" "peers (c_dialogs c) b a"
    "peers (c_dialogs c) a b" "a \<noteq> b" "a \<noteq> 0" "b \<noteq> 0"
  using assms bm.agree [OF ctl_inv_dialogs(3) [OF assms(1)], of irq orq] bm.agree [OF ctl_inv_dialogs(2) [OF assms(1)], of a b]
    dialogs_sides [OF ctl_inv_dialogs(1) [OF assms(1)], of a b]
  by (auto simp: call_up_def peers_def)

lemma right_erase_left:
  assumes "bm_wf m" "bm_left m x = Some y"
  shows "bm_left (bm_right_erase y m) = (bm_left m)(x := None)"
  using bm.right_erase [OF assms(1), of y] bm.left_inj [OF assms(1)] assms(2) by (auto simp: fun_eq_iff)

lemma drop_leg_left:
  assumes ok: "dialogs_ok ds" and ab: "bm_left ds a = Some b" and l: "l = a \<or> l = b"
  shows "bm_left (drop_leg l ds) = (bm_left ds)(a := None)"
proof
  fix x
  have wf: "bm_wf ds" using ok by (simp add: dialogs_ok_def)
  have p: "peers ds l (if l = a then b else a)" using ab l bm.agree [OF wf] by (auto simp: peers_def)
  have "bm_left ds b = None" using dialogs_sides(2) [OF ok ab] .
  then show "bm_left (drop_leg l ds) x = ((bm_left ds)(a := None)) x"
    using drop_leg_others(1) [OF ok p, of x] drop_leg_gone(1) [OF ok p, of x] l
    by (cases "x = a \<or> x = b") (auto split: if_splits)
qed

lemma response_start_origination:
  assumes "ctl_inv R c" "origination_up c irq orq a b p" "response_env env irq a b"
  obtains d where "map_of (c_mapDialogInfo c) a = Some d" "di_pCdr d = Some p" "di_bOrigination d"
    "response_start env orq c = Ret \<lparr>x_orq = orq, x_irq = irq, x_outgoing_leg = b, x_a_leg = a,
       x_attempt = None, x_pDialog = Some d, x_pCdr = p\<rparr>"
  using assms call_up_right(1) [OF assms(1)]
  by (auto simp: origination_up_def response_env_def response_start_def getAssociatedTransaction_of_orq_def)

lemma response_start_termination:
  assumes "ctl_inv R c" "termination_up c irq orq a b t" "response_env env irq a b"
  obtains p where "ta_pCdr t = Some p" "p < c_next_cdr c"
    "response_start env orq c = Ret \<lparr>x_orq = orq, x_irq = irq, x_outgoing_leg = b, x_a_leg = a,
       x_attempt = Some t, x_pDialog = None, x_pCdr = p\<rparr>"
proof -
  have "attempt_ok R (c_next_cdr c) (c_transactions c) orq t"
    using assms(1,2) by (auto simp: ctl_inv_def tables_ok_def termination_up_def assoc_lookup)
  then obtain p where "ta_pCdr t = Some p" "p < c_next_cdr c" by (auto simp: attempt_ok_def)
  then show ?thesis
    using that assms call_up_right(1) [OF assms(1)]
    by (auto simp: termination_up_def response_env_def response_start_def getAssociatedTransaction_of_orq_def)
qed

section \<open>A failed call\<close>

text \<open>A failure that is passed on: of an origination, or of an attempt that is not tried again.\<close>

definition passed_on :: "TerminationAttempt option \<Rightarrow> int \<Rightarrow> u32 \<Rightarrow> bool" where
  "passed_on t status retries \<longleftrightarrow> 300 \<le> status \<and> status < 700 \<and>
     (case t of
        None \<Rightarrow> True
      | Some t \<Rightarrow> 400 \<le> status \<and>
          (status = 503 \<or> status = 480 \<longrightarrow> \<not> ta_nAttemptCount t < retries - 1))"

lemma count_failure_below_700: "status < 700 \<Longrightarrow> \<exists>ts. count_failure x status c = Ret (c\<lparr>c_mapTrunkStats := ts\<rparr>)"
proof -
  assume "status < 700"
  then have "nat status < 700" by simp
  moreover have "\<exists>ts. Ret c = Ret (c\<lparr>c_mapTrunkStats := ts\<rparr>)" by (rule exI [of _ "c_mapTrunkStats c"]) simp
  ultimately show ?thesis
    by (auto simp: count_failure_def incrementFailureCount_def split: option.splits)
qed

lemma final_response_passed_on:
  assumes "passed_on (x_attempt x) status (c_nTerminationRetries c)"
  shows "\<exists>ts. final_response env x sip status f c =
    Ret (f\<lparr>bClearTransaction := True, bDestroyLegs := True\<rparr>, c\<lparr>c_mapTrunkStats := ts\<rparr>)"
proof -
  have "status < 700" using assms by (simp add: passed_on_def)
  then obtain ts where ts: "count_failure x status c = Ret (c\<lparr>c_mapTrunkStats := ts\<rparr>)"
    using count_failure_below_700 by blast
  have st: "status \<noteq> 200" "300 \<le> status" using assms by (auto simp: passed_on_def)
  have "redirect_call env x sip f' c' = Ret (f', c')" if "300 \<le> status" "status \<le> 399" for f' c'
    using assms that by (cases "x_attempt x") (simp_all add: passed_on_def redirect_call_def)
  moreover have "crankback_call env x sip status f' (c\<lparr>c_mapTrunkStats := ts\<rparr>) = Ret (f', c\<lparr>c_mapTrunkStats := ts\<rparr>)"
    if "status = 503 \<or> status = 480" for f'
    using assms that by (cases "x_attempt x") (simp_all add: passed_on_def crankback_call_def)
  ultimately have "final_response env x sip status f c =
    Ret (f\<lparr>bClearTransaction := True, bDestroyLegs := True\<rparr>, c\<lparr>c_mapTrunkStats := ts\<rparr>)"
    using st by (simp add: final_response_def ts Let_def)
  then show ?thesis by blast
qed

text \<open>The transaction and the dialog of a call are removed at the end of a failed call.\<close>

lemma clear_call:
  assumes inv: "ctl_inv R c" and up: "call_up c irq orq a b"
    and same: "c_transactions c2 = c_transactions c" "c_dialogs c2 = c_dialogs c" "c_mapDialogInfo c2 = c_mapDialogInfo c"
    and l: "(l, l') = (a, b) \<or> (l, l') = (b, a)"
  obtains c3 as where "clearDialog l (clearTransaction_orq orq c2) = Ret c3"
    "bm_left (c_transactions c3) = (bm_left (c_transactions c))(irq := None)"
    "bm_left (c_dialogs c3) = (bm_left (c_dialogs c))(a := None)"
    "map_of (c_mapDialogInfo c3) = (map_of (c_mapDialogInfo c))(a := None, b := None)"
    "c_mapTerminationAttempts c3 = c_mapTerminationAttempts c2" "c_next_cdr c3 = c_next_cdr c2"
    "c_cdrs c3 = c_cdrs c2" "c_posted c3 = c_posted c2" "c_cdrWriter c3 = c_cdrWriter c2"
    "c_out c3 = c_out c2 @ as" "{DestroyIncoming irq, DestroyOutgoing orq, DestroyLeg a, DestroyLeg b} \<subseteq> set as"
proof -
  note u = call_up_right [OF inv up]
  let ?c = "clearTransaction_orq orq c2"
  have p: "peers (c_dialogs ?c) l l'" "dialogs_ok (c_dialogs ?c)"
    using u l same ctl_inv_dialogs(1) [OF inv] by auto
  obtain c3 where c3: "clearDialog l ?c = Ret c3" "dialog_cleared l l' ?c c3"
    using clearDialog_Ret [OF p(2,1)] by blast
  have tx: "bm_left (bm_right_erase orq (c_transactions c)) = (bm_left (c_transactions c))(irq := None)"
    using right_erase_left ctl_inv_dialogs(3) [OF inv] up by (auto simp: call_up_def)
  have ds: "bm_left (drop_leg l (c_dialogs c)) = (bm_left (c_dialogs c))(a := None)"
    using drop_leg_left ctl_inv_dialogs(1) [OF inv] up l by (auto simp: call_up_def)
  have out: "c_out ?c = c_out c2 @ [DestroyIncoming irq, DestroyOutgoing orq]"
    using u(1) same by (simp add: clearTransaction_orq_def getAssociatedTransaction_of_orq_def)
  then obtain as where "c_out c3 = c_out c2 @ as"
    "{DestroyIncoming irq, DestroyOutgoing orq, DestroyLeg a, DestroyLeg b} \<subseteq> set as"
    using c3(2) l by (auto simp: dialog_cleared_def)
  with c3 tx ds l same show ?thesis
    by (intro that [of c3 as]) (auto simp: dialog_cleared_def fun_eq_iff)
qed

text \<open>The reply to the caller, with the carrier in the headers if the call is a termination.\<close>

definition carrier_headers :: "TerminationAttempt option \<Rightarrow> string list" where
  "carrier_headers t = (case t of None \<Rightarrow> []
     | Some t \<Rightarrow> [''X-Terminating-Carrier: '' @ ta_carrier t, ''X-Terminating-Carrier-IP: '' @ ta_sipTrunk t])"

lemma failed_call:
  assumes inv: "ctl_inv R c" and up: "call_up c irq orq a b"
    and start: "response_start env orq c = Ret x"
    and x: "x_irq x = irq" "x_outgoing_leg x = b" "x_pCdr x = p"
    and status: "sip_status sip = Some (status, phrase)" "passed_on (x_attempt x) status (c_nTerminationRetries c)"
  obtains c' as where "processInviteResponseInsideDialog env orq sip c = Ret (0, c')"
    "call_removed c irq orq a b c'" "c_out c' = c_out c @ as"
    "TReply irq status (Some sip) (carrier_headers (x_attempt x)) \<in> set as"
    "c_posted c' = (if c_cdrWriter c then c_posted c @ [c_next_cdr c] else c_posted c)"
    "c_cdrs c' (c_next_cdr c) = setCdrType
      (if x_attempt x = None then origination_final_response else termination_attempt)
      (populateFinalResponseCdr (env_now env) (word_of_int status) (c_cdrs c p))"
proof -
  let ?f = "\<lparr>bClearTransaction = False, bDestroyLegs = False, bProxyResponse = True, sessionTimer = None\<rparr>"
  let ?f1 = "?f\<lparr>bClearTransaction := True, bDestroyLegs := True\<rparr>"
  note xs = response_start_Ret [OF start]
  have st: "300 \<le> status" "status \<noteq> 100" "200 \<le> status" using status(2) by (auto simp: passed_on_def)
  obtain ts where fin: "final_response env x sip status ?f c = Ret (?f1, c\<lparr>c_mapTrunkStats := ts\<rparr>)"
    using final_response_passed_on [OF status(2)] by blast
  let ?c2 = "emit [TReply irq status (Some sip) (carrier_headers (x_attempt x))]
    (c\<lparr>c_mapTrunkStats := ts, c_mapTerminationAttempts :=
       (if x_attempt x = None then c_mapTerminationAttempts c else AList.delete orq (c_mapTerminationAttempts c))\<rparr>)"
  have proxy: "proxy_response x sip status ?f1 (c\<lparr>c_mapTrunkStats := ts\<rparr>) = Ret ?c2"
    using st x xs(1,5) by (cases "x_attempt x") (auto simp: proxy_response_def carrier_headers_def)
  obtain c3 as where c3: "clearDialog b (clearTransaction_orq orq ?c2) = Ret c3"
    and rest: "bm_left (c_transactions c3) = (bm_left (c_transactions c))(irq := None)"
      "bm_left (c_dialogs c3) = (bm_left (c_dialogs c))(a := None)"
      "map_of (c_mapDialogInfo c3) = (map_of (c_mapDialogInfo c))(a := None, b := None)"
      "c_mapTerminationAttempts c3 = c_mapTerminationAttempts ?c2" "c_next_cdr c3 = c_next_cdr ?c2"
      "c_cdrs c3 = c_cdrs ?c2" "c_posted c3 = c_posted ?c2" "c_cdrWriter c3 = c_cdrWriter ?c2"
      "c_out c3 = c_out ?c2 @ as"
    by (rule clear_call [OF inv up, of ?c2 b a]) simp_all
  have run: "processInviteResponseInsideDialog env orq sip c = Ret (0, response_cdr env x status ?f1 c3)"
    using start status(1) st fin proxy c3 x by (simp add: processInviteResponseInsideDialog_def Let_def)
  have att: "map_of (c_mapTerminationAttempts c3) = (map_of (c_mapTerminationAttempts c))(orq := None)"
    using rest(4) xs(5) by (auto simp: fun_eq_iff)
  show ?thesis
    by (rule that [OF run, of "TReply irq status (Some sip) (carrier_headers (x_attempt x)) # as"])
      (use rest att st x in \<open>auto simp: call_removed_def response_cdr_def Let_def populateFinalResponseCdr_def cdr_set\<close>)
qed

section \<open>An answered call\<close>

text \<open>The INVITE is over, the dialog stays, and the leg of the caller keeps its record.\<close>

definition call_answered :: "controller \<Rightarrow> nat \<Rightarrow> nat \<Rightarrow> nat \<Rightarrow> controller \<Rightarrow> bool" where
  "call_answered c irq orq a c' \<longleftrightarrow>
     bm_left (c_transactions c') = (bm_left (c_transactions c))(irq := None) \<and> c_dialogs c' = c_dialogs c \<and>
     map_of (c_mapTerminationAttempts c') = (map_of (c_mapTerminationAttempts c))(orq := None) \<and>
     (\<forall>l. l \<noteq> a \<longrightarrow> map_of (c_mapDialogInfo c') l = map_of (c_mapDialogInfo c) l) \<and>
     map_option (\<lambda>d. (di_bOrigination d, di_pCdr d)) (map_of (c_mapDialogInfo c') a) =
     map_option (\<lambda>d. (di_bOrigination d, di_pCdr d)) (map_of (c_mapDialogInfo c) a)"

lemma answer_call_Ret:
  assumes "sip_to sip \<noteq> None" "sip_contact sip \<noteq> None" "x_pDialog x \<noteq> None \<longrightarrow> sip_payload sip \<noteq> None"
    "x_pDialog x = None \<or> map_of (c_mapDialogInfo c) (x_a_leg x) = x_pDialog x"
  obtains f' info as where "answer_call env x sip f c = Ret (f\<lparr>bDestroyLegs := False, sessionTimer := f'\<rparr>,
      c\<lparr>c_out := c_out c @ OutgoingAck (x_outgoing_leg x) # as, c_mapDialogInfo := info\<rparr>)"
    "\<forall>l. l \<noteq> x_a_leg x \<longrightarrow> map_of info l = map_of (c_mapDialogInfo c) l"
    "map_option (\<lambda>d. (di_bOrigination d, di_pCdr d)) (map_of info (x_a_leg x)) =
     map_option (\<lambda>d. (di_bOrigination d, di_pCdr d)) (map_of (c_mapDialogInfo c) (x_a_leg x))"
proof -
  obtain to_hdr contact where h: "sip_to sip = Some to_hdr" "sip_contact sip = Some contact" using assms(1,2) by auto
  show ?thesis
  proof (cases "x_pDialog x")
    case None
    then show ?thesis
      by (intro that [of "sessionTimer f" "c_mapDialogInfo c" "[]"]) (simp_all add: answer_call_def h emit_def)
  next
    case (Some d)
    then obtain sdp where sdp: "sip_payload sip = Some sdp" and d: "map_of (c_mapDialogInfo c) (x_a_leg x) = Some d"
      using assms(3,4) by auto
    let ?secs = "ucast (di_nSessionTimer d) :: u32" and ?d = "d\<lparr>di_localSdp := sdp\<rparr>"
    show ?thesis
    proof (cases "?secs > 0 \<and> env_timer env \<noteq> None")
      case True
      then obtain t where "env_timer env = Some t" by auto
      with True show ?thesis
        by (intro that [of "Some ?secs" "AList.update (x_a_leg x) (?d\<lparr>di_timerSessionRefresh := Some t\<rparr>) (c_mapDialogInfo c)"
          "[StartSessionTimer (x_a_leg x) (?secs * 1000)]"])
          (simp_all add: answer_call_def h Some sdp d emit_def Let_def)
    next
      case False
      then show ?thesis
        by (intro that [of "if ?secs > 0 then Some 0 else sessionTimer f"
          "AList.update (x_a_leg x) ?d (c_mapDialogInfo c)" "[]"])
          (auto simp: answer_call_def h Some sdp d emit_def Let_def)
    qed
  qed
qed

lemma answered_call:
  assumes inv: "ctl_inv R c" and up: "call_up c irq orq a b"
    and start: "response_start env orq c = Ret x"
    and x: "x_irq x = irq" "x_outgoing_leg x = b" "x_a_leg x = a" "x_pCdr x = p"
    and sip: "sip_status sip = Some (200, phrase)" "sip_to sip \<noteq> None" "sip_contact sip \<noteq> None"
      "x_attempt x = None \<longrightarrow> sip_payload sip \<noteq> None"
  obtains c' as hdrs where "processInviteResponseInsideDialog env orq sip c = Ret (0, c')"
    "call_answered c irq orq a c'" "c_out c' = c_out c @ as"
    "OutgoingAck b \<in> set as" "TReply irq 200 (Some sip) hdrs \<in> set as" "set (carrier_headers (x_attempt x)) \<subseteq> set hdrs"
    "c_posted c' = (if c_cdrWriter c then c_posted c @ [c_next_cdr c] else c_posted c)"
    "c_cdrs c' (c_next_cdr c) = setCdrType
      (if x_attempt x = None then origination_final_response else termination_attempt)
      (populateFinalResponseCdr (env_now env) 200 (c_cdrs c p))"
    "c_cdrs c' p = (if p = c_next_cdr c then c_cdrs c' p else c_cdrs c p)" "c_next_cdr c' = Suc (c_next_cdr c)"
    "c_cdrWriter c' = c_cdrWriter c"
proof -
  let ?f = "\<lparr>bClearTransaction = False, bDestroyLegs = False, bProxyResponse = True, sessionTimer = None\<rparr>"
  let ?f1 = "?f\<lparr>bClearTransaction := True, bDestroyLegs := True\<rparr>"
  note xs = response_start_Ret [OF start]
  have dlg: "x_pDialog x \<noteq> None \<longrightarrow> sip_payload sip \<noteq> None" "x_pDialog x = None \<or> map_of (c_mapDialogInfo c) (x_a_leg x) = x_pDialog x"
    using sip(4) xs(6) by (auto split: if_splits)
  obtain st info ev where ans: "answer_call env x sip ?f1 c = Ret (?f1\<lparr>bDestroyLegs := False, sessionTimer := st\<rparr>,
      c\<lparr>c_out := c_out c @ OutgoingAck (x_outgoing_leg x) # ev, c_mapDialogInfo := info\<rparr>)"
    and info: "\<forall>l. l \<noteq> x_a_leg x \<longrightarrow> map_of info l = map_of (c_mapDialogInfo c) l"
      "map_option (\<lambda>d. (di_bOrigination d, di_pCdr d)) (map_of info (x_a_leg x)) =
       map_option (\<lambda>d. (di_bOrigination d, di_pCdr d)) (map_of (c_mapDialogInfo c) (x_a_leg x))"
    by (rule answer_call_Ret [OF sip(2,3) dlg])
  let ?f2 = "?f1\<lparr>bDestroyLegs := False, sessionTimer := st\<rparr>"
  let ?c1 = "c\<lparr>c_out := c_out c @ OutgoingAck b # ev, c_mapDialogInfo := info\<rparr>"
  let ?hdrs = "(case st of None \<Rightarrow> [] | Some s \<Rightarrow> [''Session-Expires: '' @ show_u32 s]) @ carrier_headers (x_attempt x)"
  let ?c2 = "emit [TReply irq 200 (Some sip) ?hdrs] (?c1\<lparr>c_mapTerminationAttempts :=
      (if x_attempt x = None then c_mapTerminationAttempts c else AList.delete orq (c_mapTerminationAttempts c))\<rparr>)"
  have fin: "final_response env x sip 200 ?f c = Ret (?f2, ?c1)"
    using ans x by (simp add: final_response_def count_failure_def Let_def)
  have proxy: "proxy_response x sip 200 ?f2 ?c1 = Ret ?c2"
    using x xs(1,5) by (cases "x_attempt x") (auto simp: proxy_response_def carrier_headers_def)
  have run: "processInviteResponseInsideDialog env orq sip c =
      Ret (0, response_cdr env x 200 ?f2 (clearTransaction_orq orq ?c2))"
    using start sip(1) fin proxy by (simp add: processInviteResponseInsideDialog_def Let_def)
  have tx: "bm_left (bm_right_erase orq (c_transactions c)) = (bm_left (c_transactions c))(irq := None)"
    using right_erase_left ctl_inv_dialogs(3) [OF inv] up by (auto simp: call_up_def)
  have att: "map_of (c_mapTerminationAttempts ?c2) = (map_of (c_mapTerminationAttempts c))(orq := None)"
    using xs(5) by (auto simp: fun_eq_iff)
  have out: "c_out (clearTransaction_orq orq ?c2) = c_out c @ (OutgoingAck b # ev @ [TReply irq 200 (Some sip) ?hdrs] @
      [DestroyIncoming irq, DestroyOutgoing orq])"
    using call_up_right(1) [OF inv up] by (simp add: clearTransaction_orq_def getAssociatedTransaction_of_orq_def)
  show ?thesis
    by (rule that [OF run _ _ _ _ , of "OutgoingAck b # ev @ [TReply irq 200 (Some sip) ?hdrs] @
      [DestroyIncoming irq, DestroyOutgoing orq]" ?hdrs])
      (use tx att out info x in \<open>auto simp: call_answered_def response_cdr_def Let_def populateFinalResponseCdr_def cdr_set\<close>)
qed

section \<open>The end of a call\<close>

text \<open>The dialog of a call is gone, and with it what was known of its legs.\<close>

definition dialog_gone :: "controller \<Rightarrow> nat \<Rightarrow> nat \<Rightarrow> controller \<Rightarrow> bool" where
  "dialog_gone c a b c' \<longleftrightarrow>
     c_transactions c' = c_transactions c \<and> c_mapTerminationAttempts c' = c_mapTerminationAttempts c \<and>
     bm_left (c_dialogs c') = (bm_left (c_dialogs c))(a := None) \<and>
     map_of (c_mapDialogInfo c') = (map_of (c_mapDialogInfo c))(a := None, b := None)"

lemma outgoing_leg_info:
  assumes inv: "ctl_inv R c" and ab: "bm_left (c_dialogs c) a = Some b"
  shows "map_of (c_mapDialogInfo c) b = Some e \<Longrightarrow> \<not> di_bOrigination e"
proof
  assume e: "map_of (c_mapDialogInfo c) b = Some e" "di_bOrigination e"
  then have "info_ok (c_next_cdr c) (c_dialogs c) b e"
    using inv by (auto simp: ctl_inv_def tables_ok_def assoc_lookup)
  then show False using dialogs_sides(2) [OF ctl_inv_dialogs(1) [OF inv] ab] e(2) by (simp add: info_ok_def)
qed

lemma bye_call:
  assumes inv: "ctl_inv R c" and ab: "bm_left (c_dialogs c) a = Some b"
    and d: "map_of (c_mapDialogInfo c) a = Some d" "di_bOrigination d" "di_pCdr d = Some p"
    and l: "(leg, other) = (a, b) \<or> (leg, other) = (b, a)" and sip: "sip_request sip = Some sip_method_bye"
  obtains c' as where "processRequestInsideDialog env leg irq sip c = Ret (200, c')" "dialog_gone c a b c'"
    "c_out c' = c_out c @ as" "OutgoingBye other \<in> set as" "DestroyLeg a \<in> set as" "DestroyLeg b \<in> set as"
    "c_posted c' = (if c_cdrWriter c then c_posted c @ [p] else c_posted c)"
    "c_cdrs c' = (c_cdrs c)(p := populateByeCdr (env_now env) (leg = a) (c_cdrs c p))"
    "c_next_cdr c' = c_next_cdr c" "c_cdrWriter c' = c_cdrWriter c"
proof -
  have ok: "dialogs_ok (c_dialogs c)" using ctl_inv_dialogs(1) [OF inv] .
  have peer: "peers (c_dialogs c) leg other" and ne: "a \<noteq> b" "other \<noteq> 0"
    using l ab dialogs_sides [OF ok ab] bm.agree [OF ctl_inv_dialogs(2) [OF inv]] by (auto simp: peers_def)
  let ?c1 = "post_cdr p (update_cdr p (populateByeCdr (env_now env) (leg = a)) (emit [OutgoingBye other] c))"
  have cdr: "bye_cdr env leg other (emit [OutgoingBye other] c) = Ret ?c1"
  proof -
    have "(case map_of (c_mapDialogInfo c) b of Some e \<Rightarrow> if di_bOrigination e then Some e else None | None \<Rightarrow> None) = None"
      using outgoing_leg_info [OF inv ab] by (simp split: option.split)
    then show ?thesis using l d ne(1) by (elim disjE) (simp_all add: bye_cdr_def Let_def)
  qed
  obtain c2 where c2: "clearDialog leg ?c1 = Ret c2" "dialog_cleared leg other ?c1 c2"
    using clearDialog_Ret [of ?c1 leg other] ok peer by auto
  obtain as where out: "c_out c2 = c_out c @ as" "OutgoingBye other \<in> set as" "DestroyLeg a \<in> set as" "DestroyLeg b \<in> set as"
    using c2(2) l by (auto simp: dialog_cleared_def)
  have run: "processRequestInsideDialog env leg irq sip c = Ret (200, emit [DestroyIncoming irq] c2)"
    using getAssociatedDialog_Ret [OF ok, of leg other] peer ne(2) sip cdr c2(1)
    by (simp add: processRequestInsideDialog_def)
  have ds: "bm_left (drop_leg leg (c_dialogs c)) = (bm_left (c_dialogs c))(a := None)"
    using drop_leg_left [OF ok ab] l by auto
  show ?thesis
    by (rule that [OF run, of "as @ [DestroyIncoming irq]"])
      (use c2(2) ds l out in \<open>auto simp: dialog_cleared_def dialog_gone_def fun_eq_iff\<close>)
qed

text \<open>A CANCEL: the record of an origination is closed, that of a termination copied.\<close>

lemma cancel_call:
  assumes inv: "ctl_inv R c" and up: "call_up c irq orq a b" and leg: "env_leg_of_irq env irq = Some a"
    and sip: "sip_request sip = Some sip_method_cancel"
    and cdr: "cancel_cdr env orq a c = Ret c1" and same: "same_tables c c1" and out: "c_out c1 = c_out c"
  obtains c' as where "processAckOrCancel env irq sip c = Ret (0, c')" "call_removed c irq orq a b c'"
    "c_out c' = c_out c @ as" "OutgoingCancel orq \<in> set as"
    "c_posted c' = c_posted c1" "c_cdrs c' = c_cdrs c1" "c_next_cdr c' = c_next_cdr c1" "c_cdrWriter c' = c_cdrWriter c1"
proof -
  let ?c2 = "emit [OutgoingCancel orq, DestroyOutgoing orq] c1"
  obtain c3 as where c3: "clearDialog a (clearTransaction_orq orq ?c2) = Ret c3"
    and rest: "bm_left (c_transactions c3) = (bm_left (c_transactions c))(irq := None)"
      "bm_left (c_dialogs c3) = (bm_left (c_dialogs c))(a := None)"
      "map_of (c_mapDialogInfo c3) = (map_of (c_mapDialogInfo c))(a := None, b := None)"
      "c_mapTerminationAttempts c3 = c_mapTerminationAttempts ?c2" "c_next_cdr c3 = c_next_cdr ?c2"
      "c_cdrs c3 = c_cdrs ?c2" "c_posted c3 = c_posted ?c2" "c_cdrWriter c3 = c_cdrWriter ?c2"
      "c_out c3 = c_out ?c2 @ as"
    by (rule clear_call [OF inv up, of ?c2 a b]) (use same in \<open>simp_all add: same_tables_def\<close>)
  have run: "processAckOrCancel env irq sip c = Ret (0, c3\<lparr>c_mapTerminationAttempts :=
      AList.delete orq (c_mapTerminationAttempts c3)\<rparr>)"
    using sip up leg cdr c3 by (simp add: processAckOrCancel_def getAssociatedTransaction_of_irq_def call_up_def)
  show ?thesis
    by (rule that [OF run, of "[OutgoingCancel orq, DestroyOutgoing orq] @ as"])
      (use rest same out in \<open>auto simp: call_removed_def same_tables_def\<close>)
qed

lemma cancel_cdr_origination:
  assumes "origination_up c irq orq a b p"
  shows "cancel_cdr env orq a c = Ret (post_cdr p (update_cdr p (populateCancelCdr (env_now env)) c))"
  using assms by (auto simp: origination_up_def cancel_cdr_def)

lemma cancel_cdr_termination:
  assumes "termination_up c irq orq a b t" "ta_pCdr t = Some p"
  shows "cancel_cdr env orq a c = Ret (post_new_cdr (setCdrType termination_attempt
    (populateFinalResponseCdr (env_now env) 487 (c_cdrs c p))) c)"
  using assms by (auto simp: termination_up_def cancel_cdr_def)

section \<open>A retry over another carrier\<close>

text \<open>
  A 503 or 480 from a carrier, with attempts left and another route: the failed attempt is recorded,
  and the call goes on over the next carrier without the caller noticing.
\<close>

lemma replace_attempt_Ret:
  assumes inv: "ctl_inv R c" and up: "call_up c irq orq a b" and info: "map_of (c_mapDialogInfo c) b = Some d"
    and new: "bm_right (c_transactions c) orqNew = None" "fresh_leg (c_dialogs c) bNew"
    and x: "x_orq x = orq" "x_irq x = irq" "x_outgoing_leg x = b"
  obtains c' where "replace_attempt x t orqNew bNew f c =
      Ret (f\<lparr>bClearTransaction := False, bProxyResponse := False, bDestroyLegs := False\<rparr>, c')"
    "bm_left (c_transactions c') = (bm_left (c_transactions c))(irq \<mapsto> orqNew)"
    "bm_left (c_dialogs c') = (bm_left (c_dialogs c))(a \<mapsto> bNew)"
    "c_mapTerminationAttempts c' = assoc_insert orqNew t (AList.delete orq (c_mapTerminationAttempts c))"
    "c_mapDialogInfo c' = AList.delete b (assoc_insert bNew (d\<lparr>di_leg := bNew\<rparr>) (c_mapDialogInfo c))"
    "c_out c' = c_out c @ [DestroyOutgoing orq, DestroyLeg b]" "c_cdrs c' = c_cdrs c" "c_posted c' = c_posted c"
    "c_next_cdr c' = c_next_cdr c" "c_cdrWriter c' = c_cdrWriter c" "c_nTerminationRetries c' = c_nTerminationRetries c" "c_config c' = c_config c"
proof -
  note u = call_up_right [OF inv up]
  have ab: "bm_left (c_dialogs c) a = Some b" and io: "bm_left (c_transactions c) irq = Some orq"
    using up by (simp_all add: call_up_def)
  let ?tx = "bm_right_erase orq (c_transactions c)" and ?ds = "bm_right_erase b (c_dialogs c)"
  have wf: "bm_wf ?tx" "bm_left ?tx = (bm_left (c_transactions c))(irq := None)" "bm_right ?tx orqNew = None"
    using bm.right_erase [OF ctl_inv_dialogs(3) [OF inv]] right_erase_left [OF ctl_inv_dialogs(3) [OF inv] io]
      bm.right_find_right_erase [OF ctl_inv_dialogs(3) [OF inv]] new(1) by simp_all
  have tx: "bm_left (bm_insert irq orqNew ?tx) = (bm_left (c_transactions c))(irq \<mapsto> orqNew)"
    using bm.insert_new [OF wf(1)] wf(2,3) by (simp add: fun_eq_iff)
  have wd: "bm_wf ?ds" "bm_left ?ds = (bm_left (c_dialogs c))(a := None)" "bm_right ?ds bNew = None"
    using bm.right_erase [OF ctl_inv_dialogs(2) [OF inv]] right_erase_left [OF ctl_inv_dialogs(2) [OF inv] ab]
      bm.right_find_right_erase [OF ctl_inv_dialogs(2) [OF inv]] new(2) by (simp_all add: fresh_leg_def)
  have ds: "bm_left (bm_insert a bNew ?ds) = (bm_left (c_dialogs c))(a \<mapsto> bNew)"
    using bm.insert_new [OF wd(1)] wd(2,3) by (simp add: fun_eq_iff)
  let ?c1 = "(updateOutgoingTransaction irq orq orqNew c)\<lparr>c_mapTerminationAttempts :=
    assoc_insert orqNew t (AList.delete orq (c_mapTerminationAttempts c))\<rparr>"
  have "getAssociatedDialog ?c1 b = Ret a"
    using getAssociatedDialog_Ret [of ?c1 b a] ctl_inv_dialogs(1) [OF inv] u(3)
    by (simp add: updateOutgoingTransaction_def addTransactions_def)
  then show ?thesis
    using that info x u(7) new(2) tx ds
    by (simp add: replace_attempt_def Let_def updateDialog_def updateOutgoingTransaction_def addTransactions_def
      addDialogs_def fresh_leg_def)
qed

text \<open>The attempt after a crankback, and the INVITE it sends.\<close>

definition next_attempt :: "string \<Rightarrow> route \<Rightarrow> TerminationAttempt \<Rightarrow> TerminationAttempt" where
  "next_attempt user rt t = (case rt of (address, carrier, charge) \<Rightarrow>
     t\<lparr>ta_url := ''sip:'' @ user @ ''@'' @ address, ta_carrier := carrier, ta_sipTrunk := address,
       ta_p_charge_info_header := charge_info charge address, ta_nAttemptCount := ta_nAttemptCount t + 1\<rparr>)"

definition invite_of :: "controller \<Rightarrow> nat \<Rightarrow> nat \<Rightarrow> TerminationAttempt \<Rightarrow> nta_action" where
  "invite_of c orq b t = OutgoingInvite orq b (ta_url t) (ta_sip t)
     [ta_from t, ta_to t, ta_contact t, c_user_agent c, ta_p_charge_info_header t]"

lemma generateTerminationRequest_Ret:
  assumes "env_b_leg env = Some b" "env_orq env = Some (orq, callId)" "ta_pCdr t = Some p"
    and "length (ta_url t) < URL_MAXLEN"
  shows "generateTerminationRequest env t c = Ret (Some (orq, b),
    count_attempt t (update_cdr p (setDLegCallId callId) (emit [invite_of c orq b t] c)))"
  using assms by (simp add: generateTerminationRequest_def invite_of_def Let_def url_buffer_def)

lemma unknown_keys:
  assumes inv: "ctl_inv R c"
  shows "bm_right (c_transactions c) q = None \<Longrightarrow> map_of (c_mapTerminationAttempts c) q = None"
    "fresh_leg (c_dialogs c) l \<Longrightarrow> map_of (c_mapDialogInfo c) l = None"
proof -
  have "attempt_ok R (c_next_cdr c) (c_transactions c) q t" if "map_of (c_mapTerminationAttempts c) q = Some t" for t
    using that inv by (auto simp: ctl_inv_def tables_ok_def assoc_lookup)
  then show "bm_right (c_transactions c) q = None \<Longrightarrow> map_of (c_mapTerminationAttempts c) q = None"
    by (cases "map_of (c_mapTerminationAttempts c) q") (auto simp: attempt_ok_def)
  have "info_ok (c_next_cdr c) (c_dialogs c) l d" if "map_of (c_mapDialogInfo c) l = Some d" for d
    using that inv by (auto simp: ctl_inv_def tables_ok_def assoc_lookup)
  then show "fresh_leg (c_dialogs c) l \<Longrightarrow> map_of (c_mapDialogInfo c) l = None"
    by (cases "map_of (c_mapDialogInfo c) l") (auto simp: info_ok_def fresh_leg_def split: if_splits)
qed

lemma retry_invite_Ret:
  assumes inv: "ctl_inv R c" and up: "termination_up c irq orq a b t0" and t: "ta_pCdr t = Some p"
    and env: "env_b_leg env = Some bNew" "env_orq env = Some (orqNew, callId)"
    and new: "bm_right (c_transactions c) orqNew = None" "fresh_leg (c_dialogs c) bNew"
    and x: "x_orq x = orq" "x_irq x = irq" "x_outgoing_leg x = b"
    and out: "attempt_ok R (c_next_cdr c) (c_transactions c) orq t" and fit: "length (ta_url t) < URL_MAXLEN"
  obtains c' where "retry_invite env x t f c =
      Ret (f\<lparr>bClearTransaction := False, bProxyResponse := False, bDestroyLegs := False\<rparr>, c')"
    "termination_up c' irq orqNew a bNew t"
    "c_out c' = c_out c @ [invite_of c orqNew bNew t, DestroyOutgoing orq, DestroyLeg b]"
    "c_cdrs c' = (c_cdrs c)(p := setDLegCallId callId (c_cdrs c p))" "c_posted c' = c_posted c"
    "c_next_cdr c' = c_next_cdr c" "c_cdrWriter c' = c_cdrWriter c"
    "c_nTerminationRetries c' = c_nTerminationRetries c" "c_config c' = c_config c"
proof -
  obtain d where d: "map_of (c_mapDialogInfo c) b = Some d" "\<not> di_bOrigination d" and na: "map_of (c_mapDialogInfo c) a = None"
    and cu: "call_up c irq orq a b" using up by (auto simp: termination_up_def)
  let ?c0 = "store_attempt orq t c"
  let ?c1 = "count_attempt t (update_cdr p (setDLegCallId callId) (emit [invite_of c orqNew bNew t] ?c0))"
  have gen: "generateTerminationRequest env t ?c0 = Ret (Some (orqNew, bNew), ?c1)"
    using generateTerminationRequest_Ret [OF env t fit, of ?c0] by (simp add: invite_of_def store_attempt_def)
  have inv1: "ctl_inv R ?c1" using inv out by (simp add: ctl_inv_def store_attempt_def tables_put_attempt)
  have c1: "call_up ?c1 irq orq a b" "map_of (c_mapDialogInfo ?c1) b = Some d"
    "bm_right (c_transactions ?c1) orqNew = None" "fresh_leg (c_dialogs ?c1) bNew"
    using cu d new by (simp_all add: call_up_def store_attempt_def)
  obtain c' where c': "replace_attempt x t orqNew bNew f ?c1 =
      Ret (f\<lparr>bClearTransaction := False, bProxyResponse := False, bDestroyLegs := False\<rparr>, c')"
    and r: "bm_left (c_transactions c') = (bm_left (c_transactions ?c1))(irq \<mapsto> orqNew)"
    "bm_left (c_dialogs c') = (bm_left (c_dialogs ?c1))(a \<mapsto> bNew)"
    "c_mapTerminationAttempts c' = assoc_insert orqNew t (AList.delete orq (c_mapTerminationAttempts ?c1))"
    "c_mapDialogInfo c' = AList.delete b (assoc_insert bNew (d\<lparr>di_leg := bNew\<rparr>) (c_mapDialogInfo ?c1))"
    "c_out c' = c_out ?c1 @ [DestroyOutgoing orq, DestroyLeg b]" "c_cdrs c' = c_cdrs ?c1" "c_posted c' = c_posted ?c1"
    "c_next_cdr c' = c_next_cdr ?c1" "c_cdrWriter c' = c_cdrWriter ?c1"
    "c_nTerminationRetries c' = c_nTerminationRetries ?c1" "c_config c' = c_config ?c1"
    by (rule replace_attempt_Ret [OF inv1 c1 x])
  have fresh_keys: "map_of (c_mapTerminationAttempts c) orqNew = None" "map_of (c_mapDialogInfo c) bNew = None"
    "orqNew \<noteq> orq" "bNew \<noteq> b" "bNew \<noteq> a"
    using unknown_keys [OF inv] new call_up_right [OF inv cu] cu by (auto simp: fresh_leg_def call_up_def)
  have "termination_up c' irq orqNew a bNew t"
    using r fresh_keys d na by (auto simp: termination_up_def call_up_def store_attempt_def)
  then show ?thesis
    using that [of c'] c' gen r x by (simp add: retry_invite_def store_attempt_def)
qed

lemma crankback_call_Ret:
  assumes inv: "ctl_inv R c" and up: "termination_up c irq orq a b t"
    and x: "x = \<lparr>x_orq = orq, x_irq = irq, x_outgoing_leg = b, x_a_leg = a, x_attempt = Some t, x_pDialog = None, x_pCdr = p\<rparr>"
    and p: "ta_pCdr t = Some p" "p < c_next_cdr c"
    and less: "ta_nAttemptCount t < c_nTerminationRetries c - 1"
    and rt: "getTerminationRouteForAltCarrier (c_config c) (ta_carrier t) = Ret (Some rt, cfg)"
    and env: "env_b_leg env = Some bNew" "env_orq env = Some (orqNew, callId)"
    and new: "bm_right (c_transactions c) orqNew = None" "fresh_leg (c_dialogs c) bNew"
    and user: "to_user sip = Ret user" and fit: "length (ta_url (next_attempt user rt t)) < URL_MAXLEN"
  obtains c' as where "crankback_call env x sip status f c =
      Ret (f\<lparr>bClearTransaction := False, bProxyResponse := False, bDestroyLegs := False\<rparr>, c')"
    "termination_up c' irq orqNew a bNew (next_attempt user rt t)"
    "c_out c' = c_out c @ [invite_of c orqNew bNew (next_attempt user rt t), DestroyOutgoing orq, DestroyLeg b]"
    "c_posted c' = (if c_cdrWriter c then c_posted c @ [c_next_cdr c] else c_posted c)"
    "c_cdrs c' (c_next_cdr c) = setCdrType termination_attempt
      (populateFinalResponseCdr (env_now env) (word_of_int status) (c_cdrs c p))"
    "c_nTerminationRetries c' = c_nTerminationRetries c" "c_config c' = cfg"
proof -
  obtain address carrier charge where r: "rt = (address, carrier, charge)" by (cases rt)
  let ?t = "next_attempt user rt t"
  let ?cdr = "setCdrType termination_attempt (populateFinalResponseCdr (env_now env) (word_of_int status) (c_cdrs c p))"
  let ?c1 = "post_new_cdr ?cdr (c\<lparr>c_config := cfg\<rparr>)"
  let ?c2 = "update_cdr p (\<lambda>cdr. setTerminatingCarrierAddress address (setTerminatingCarrier carrier cdr)) ?c1"
  have cr: "crankback_route (''sip:'' @ user @ ''@'' @ address) carrier address (charge_info charge address) t ?c1 = (?t, ?c2)"
    using p(1) by (simp add: crankback_route_def next_attempt_def r)
  have inv2: "ctl_inv R ?c2" using inv by (simp add: post_new_cdr_inv)
  have up2: "termination_up ?c2 irq orq a b t" using up by (simp add: termination_up_def call_up_def)
  have new2: "bm_right (c_transactions ?c2) orqNew = None" "fresh_leg (c_dialogs ?c2) bNew" using new by simp_all
  have tp: "ta_pCdr ?t = Some p" using p(1) by (simp add: next_attempt_def r)
  have "0 < R \<longrightarrow> 0 < c_nTerminationRetries c \<and> c_nTerminationRetries c \<le> R" using inv by (simp add: ctl_inv_def)
  moreover have "bm_right (c_transactions c) orq \<noteq> None"
    using call_up_right(1) [OF inv] up by (auto simp: termination_up_def)
  ultimately have at: "attempt_ok R (c_next_cdr ?c2) (c_transactions ?c2) orq ?t"
    using p word_pred_less [OF _ less] by (auto simp: attempt_ok_def next_attempt_def r)
  have xs: "x_orq x = orq" "x_irq x = irq" "x_outgoing_leg x = b" by (simp_all add: x)
  obtain c' where c': "retry_invite env x ?t f ?c2 =
      Ret (f\<lparr>bClearTransaction := False, bProxyResponse := False, bDestroyLegs := False\<rparr>, c')"
    "termination_up c' irq orqNew a bNew ?t"
    "c_out c' = c_out ?c2 @ [invite_of ?c2 orqNew bNew ?t, DestroyOutgoing orq, DestroyLeg b]"
    "c_cdrs c' = (c_cdrs ?c2)(p := setDLegCallId callId (c_cdrs ?c2 p))" "c_posted c' = c_posted ?c2"
    "c_nTerminationRetries c' = c_nTerminationRetries ?c2" "c_config c' = c_config ?c2"
    by (rule retry_invite_Ret [OF inv2 up2 tp env new2 xs at fit])
  have "crankback_call env x sip status f c = retry_invite env x ?t f ?c2"
    using less rt user cr by (simp add: crankback_call_def crankback_over_def Let_def x r)
  then show ?thesis
    using that [of c'] c' p(2) by (simp add: invite_of_def)
qed

lemma cranked_back_call:
  assumes inv: "ctl_inv R c" and up: "termination_up c irq orq a b t" and resp: "response_env env irq a b"
    and status: "sip_status sip = Some (status, phrase)" "status = 503 \<or> status = 480"
    and less: "ta_nAttemptCount t < c_nTerminationRetries c - 1"
    and rt: "getTerminationRouteForAltCarrier (c_config c) (ta_carrier t) = Ret (Some rt, cfg)"
    and env: "env_b_leg env = Some bNew" "env_orq env = Some (orqNew, callId)"
    and new: "bm_right (c_transactions c) orqNew = None" "fresh_leg (c_dialogs c) bNew"
    and user: "to_user sip = Ret user" and fit: "length (ta_url (next_attempt user rt t)) < URL_MAXLEN"
  obtains c' p where "processInviteResponseInsideDialog env orq sip c = Ret (0, c')" "ta_pCdr t = Some p"
    "termination_up c' irq orqNew a bNew (next_attempt user rt t)"
    "c_out c' = c_out c @ [invite_of c orqNew bNew (next_attempt user rt t), DestroyOutgoing orq, DestroyLeg b]"
    "c_posted c' = (if c_cdrWriter c then c_posted c @ [c_next_cdr c] else c_posted c)"
    "c_cdrs c' (c_next_cdr c) = setCdrType termination_attempt
      (populateFinalResponseCdr (env_now env) (word_of_int status) (c_cdrs c p))"
    "c_nTerminationRetries c' = c_nTerminationRetries c" "c_config c' = cfg"
proof -
  obtain p where p: "ta_pCdr t = Some p" "p < c_next_cdr c"
    and start: "response_start env orq c = Ret \<lparr>x_orq = orq, x_irq = irq, x_outgoing_leg = b, x_a_leg = a,
       x_attempt = Some t, x_pDialog = None, x_pCdr = p\<rparr>" (is "_ = Ret ?x")
    using response_start_termination [OF inv up resp] by blast
  have st: "status < 700" "status \<noteq> 200" "200 \<le> status" "status \<noteq> 100" "\<not> (300 \<le> status \<and> status \<le> 399)" using status(2) by auto
  obtain ts where ts: "count_failure ?x status c = Ret (c\<lparr>c_mapTrunkStats := ts\<rparr>)"
    using count_failure_below_700 [OF st(1)] by blast
  let ?c = "c\<lparr>c_mapTrunkStats := ts\<rparr>"
  let ?f = "\<lparr>bClearTransaction = False, bDestroyLegs = False, bProxyResponse = True, sessionTimer = None\<rparr>"
  let ?f1 = "?f\<lparr>bClearTransaction := True, bDestroyLegs := True\<rparr>"
  let ?f2 = "?f1\<lparr>bClearTransaction := False, bProxyResponse := False, bDestroyLegs := False\<rparr>"
  have hyps: "ctl_inv R ?c" "termination_up ?c irq orq a b t" "p < c_next_cdr ?c"
    "ta_nAttemptCount t < c_nTerminationRetries ?c - 1"
    "getTerminationRouteForAltCarrier (c_config ?c) (ta_carrier t) = Ret (Some rt, cfg)"
    "bm_right (c_transactions ?c) orqNew = None" "fresh_leg (c_dialogs ?c) bNew"
    using inv up p less rt new by (simp_all add: termination_up_def call_up_def)
  obtain c' where c': "crankback_call env ?x sip status ?f1 ?c = Ret (?f2, c')"
    "termination_up c' irq orqNew a bNew (next_attempt user rt t)"
    "c_out c' = c_out ?c @ [invite_of ?c orqNew bNew (next_attempt user rt t), DestroyOutgoing orq, DestroyLeg b]"
    "c_posted c' = (if c_cdrWriter ?c then c_posted ?c @ [c_next_cdr ?c] else c_posted ?c)"
    "c_cdrs c' (c_next_cdr ?c) = setCdrType termination_attempt
      (populateFinalResponseCdr (env_now env) (word_of_int status) (c_cdrs ?c p))"
    "c_nTerminationRetries c' = c_nTerminationRetries ?c" "c_config c' = cfg"
    by (rule crankback_call_Ret [OF hyps(1,2) refl p(1) hyps(3-5) env hyps(6,7) user fit])
  have "final_response env ?x sip status ?f c = Ret (?f2, c')"
    using ts st(2) status(2) c'(1) by (elim disjE) (simp_all add: final_response_def Let_def)
  then have "processInviteResponseInsideDialog env orq sip c = Ret (0, response_cdr env ?x status ?f2 c')"
    using start status(1) st by (simp add: processInviteResponseInsideDialog_def Let_def)
  then show ?thesis using that [of c' p] c' p by (simp add: response_cdr_def Let_def invite_of_def)
qed

text \<open>A retry whose address does not fit its buffer.\<close>

lemma overlong_retry:
  assumes inv: "ctl_inv R c" and up: "termination_up c irq orq a b t" and resp: "response_env env irq a b"
    and status: "sip_status sip = Some (status, phrase)" "status = 503 \<or> status = 480"
    and less: "ta_nAttemptCount t < c_nTerminationRetries c - 1"
    and rt: "getTerminationRouteForAltCarrier (c_config c) (ta_carrier t) = Ret (Some rt, cfg)"
    and env: "env_b_leg env = Some bNew" and user: "to_user sip = Ret user"
    and long: "\<not> length (ta_url (next_attempt user rt t)) < URL_MAXLEN"
  shows "processInviteResponseInsideDialog env orq sip c = Undefined"
proof -
  obtain p where start: "response_start env orq c = Ret \<lparr>x_orq = orq, x_irq = irq, x_outgoing_leg = b, x_a_leg = a,
       x_attempt = Some t, x_pDialog = None, x_pCdr = p\<rparr>" (is "_ = Ret ?x")
    using response_start_termination [OF inv up resp] by blast
  have st: "status < 700" "status \<noteq> 200" "200 \<le> status" "status \<noteq> 100" "\<not> (300 \<le> status \<and> status \<le> 399)" using status(2) by auto
  obtain ts where ts: "count_failure ?x status c = Ret (c\<lparr>c_mapTrunkStats := ts\<rparr>)"
    using count_failure_below_700 [OF st(1)] by blast
  have "retry_invite env ?x t1 f c1 = Undefined" if "ta_url t1 = ta_url (next_attempt user rt t)" for t1 f c1
    using that env long by (simp add: retry_invite_def generateTerminationRequest_def url_buffer_def)
  then have "crankback_call env ?x sip status f (c\<lparr>c_mapTrunkStats := ts\<rparr>) = Undefined" for f
    using less rt user
    by (simp add: crankback_call_def crankback_over_def crankback_route_def next_attempt_def Let_def split_beta)
  then show ?thesis using start ts st status
    by (auto simp: processInviteResponseInsideDialog_def final_response_def Let_def)
qed

end
