(* ===== verification/Call_Setup.thy ===== *)
theory Call_Setup
  imports Call_Properties
begin

text \<open>
  New calls: which INVITEs are accepted, where they are sent, what they leave in the tables and in
  the call detail records, and how the others are turned away.
\<close>

section \<open>Shared facts\<close>

definition invite_ok :: "sip_t \<Rightarrow> bool" where
  "invite_ok sip \<longleftrightarrow> validateSipMessage sip = 0 \<and> sip_request sip = Some sip_method_invite"

lemma new_origination_cdr_Ret:
  assumes "invite_ok sip"
  obtains cdr where "new_origination_cdr env sip carrier c = Ret (make_cdr cdr c)"
    "cdr_uuid cdr = env_uuid env" "cdr_cdrType cdr = origination_request" "cdr_originatingCarrier cdr = carrier"
    "cdr_tmStart cdr = env_now env" "cdr_sipStatus cdr = 0"
proof -
  obtain contact host i to_hdr user from_hdr where
    h: "sip_contact sip = Some contact" "url_host (a_url contact) = Some host" "sip_call_id sip = Some i"
      "sip_to sip = Some to_hdr" "url_user (a_url to_hdr) = Some user" "sip_from sip = Some from_hdr"
    using valid_invite assms unfolding invite_ok_def by metis
  show ?thesis
    using that by (simp add: new_origination_cdr_def populateOriginationCdr_def h Let_def cdr_set CdrInfo_new_def split: option.split)
qed

lemma process_outside_invite: "invite_ok sip \<Longrightarrow> processRequestOutsideDialog env irq sip c = process_invite env irq sip c"
  by (simp add: invite_ok_def processRequestOutsideDialog_def)

lemma invite_ok_parts:
  assumes "invite_ok sip"
  obtains host user i fromStr toStr contactStr where "contact_host sip = Ret host" "to_user sip = Ret user"
    "call_id sip = Ret i"
    "generateOutgoingFrom my sip = Ret fromStr" "generateOutgoingTo my sip = Ret toStr"
    "generateOutgoingContact my sip = Ret contactStr"
proof -
  obtain contact host i to_hdr user from_hdr where
    "sip_contact sip = Some contact" "url_host (a_url contact) = Some host" "sip_call_id sip = Some i"
    "sip_to sip = Some to_hdr" "url_user (a_url to_hdr) = Some user" "sip_from sip = Some from_hdr"
    using valid_invite assms unfolding invite_ok_def by metis
  then show ?thesis
    using that by (simp add: contact_host_def to_user_def call_id_def generateOutgoingFrom_def generateOutgoingTo_def
      generateOutgoingContact_def)
qed

lemma fst_make_cdr [simp]: "fst (make_cdr cdr c) = c_next_cdr c"
  by (simp add: make_cdr_def)

lemma make_cdr_frame [simp]:
  "c_transactions (snd (make_cdr cdr c)) = c_transactions c" "c_dialogs (snd (make_cdr cdr c)) = c_dialogs c"
  "c_mapTerminationAttempts (snd (make_cdr cdr c)) = c_mapTerminationAttempts c"
  "c_mapDialogInfo (snd (make_cdr cdr c)) = c_mapDialogInfo c"
  "c_nTerminationRetries (snd (make_cdr cdr c)) = c_nTerminationRetries c"
  "c_posted (snd (make_cdr cdr c)) = c_posted c" "c_cdrWriter (snd (make_cdr cdr c)) = c_cdrWriter c"
  "c_config (snd (make_cdr cdr c)) = c_config c" "c_fsMonitor (snd (make_cdr cdr c)) = c_fsMonitor c"
  "c_my (snd (make_cdr cdr c)) = c_my c" "c_out (snd (make_cdr cdr c)) = c_out c"
  "c_nIterationCount (snd (make_cdr cdr c)) = c_nIterationCount c"
  "c_user_agent (snd (make_cdr cdr c)) = c_user_agent c"
  "c_cdrs (snd (make_cdr cdr c)) = (c_cdrs c)(c_next_cdr c := cdr)"
  "c_next_cdr (snd (make_cdr cdr c)) = Suc (c_next_cdr c)"
  by (simp_all add: make_cdr_def)

section \<open>Calls turned away\<close>

text \<open>
  The reason to turn an INVITE away: an unknown peer; an origination while the program is inactive
  or shutting down; an origination for which no server is available.
\<close>

definition rejection :: "controller \<Rightarrow> string \<Rightarrow> (int \<times> ReleaseCause_t) option" where
  "rejection c host =
     (case getCarrier (c_config c) host of
        None \<Rightarrow>
          if isAppserver (c_fsMonitor c) host then None else Some (403, call_rejected_due_to_unauthorized_peer)
      | Some carrier \<Rightarrow>
          if \<not> m_bIsActive (c_config c) \<or> c_nIterationCount c = 0 then Some (503, call_rejected_due_to_being_offline)
          else if \<forall>fs \<in> set (mon_servers (c_fsMonitor c)). \<not> isAvailable fs
            then Some (486, call_rejected_due_to_system_error)
          else None)"

definition turned_away :: "controller \<Rightarrow> int \<Rightarrow> ReleaseCause_t \<Rightarrow> controller \<Rightarrow> bool" where
  "turned_away c status cause c' \<longleftrightarrow> same_tables c c' \<and>
     c_posted c' = (if c_cdrWriter c then c_posted c @ [c_next_cdr c] else c_posted c) \<and>
     cdr_sipStatus (c_cdrs c' (c_next_cdr c)) = word_of_int status \<and>
     cdr_releaseCause (c_cdrs c' (c_next_cdr c)) = cause \<and>
     cdr_cdrType (c_cdrs c' (c_next_cdr c)) = origination_request"

lemma reject_new_call:
  assumes "cdr_cdrType cdr = origination_request"
  shows "\<exists>c'. reject_call status cause (c_next_cdr c) (snd (make_cdr cdr c)) = (status, c') \<and> turned_away c status cause c'"
  using assms by (simp add: reject_call_def turned_away_def same_tables_def cdr_set)

lemma turned_away_frame:
  "turned_away (emit as c) status cause c' = turned_away c status cause c'"
  "turned_away c status cause (c'\<lparr>c_nIterationCount := k\<rparr>) = turned_away c status cause c'"
  by (simp_all add: turned_away_def same_tables_def)

lemma no_server_rejected:
  assumes ok: "invite_ok sip" and none: "\<forall>fs \<in> set (mon_servers (c_fsMonitor c)). \<not> isAvailable fs"
    and len: "length (mon_servers (c_fsMonitor c)) < 2 ^ 32"
  shows "\<exists>c'. processOriginationRequest env irq sip carrier c = Ret (486, c') \<and>
    turned_away c 486 call_rejected_due_to_system_error c'"
proof -
  obtain cdr where cdr: "new_origination_cdr env sip carrier c = Ret (make_cdr cdr c)"
    "cdr_cdrType cdr = origination_request" using new_origination_cdr_Ret [OF ok] by metis
  have "chosen (env_sorter env) (c_fsMonitor c) = []" using none offered_empty_iff by (simp add: chosen_def)
  then have "getAvailableServers (env_sorter env) (c_fsMonitor c) = Some ([], moved_on (c_fsMonitor c))"
    using getAvailableServers_eq [OF len] by simp
  then have "processOriginationRequest env irq sip carrier c = Ret (reject_call 486 call_rejected_due_to_system_error
      (c_next_cdr c) ((snd (make_cdr cdr c))\<lparr>c_fsMonitor := moved_on (c_fsMonitor c)\<rparr>))"
    using cdr(1) by (simp add: processOriginationRequest_def split_beta)
  then show ?thesis using cdr(2) by (simp add: reject_call_def turned_away_def same_tables_def cdr_set)
qed

lemma rejected_invite:
  assumes ok: "invite_ok sip" and host: "contact_host sip = Ret host" and rej: "rejection c host = Some (status, cause)"
    and len: "length (mon_servers (c_fsMonitor c)) < 2 ^ 32"
  shows "\<exists>c'. processRequestOutsideDialog env irq sip c = Ret (status, c') \<and> turned_away c status cause c'"
proof (cases "getCarrier (c_config c) host")
  case None
  let ?c = "emit [TReply irq 100 None []] c"
  obtain cdr where "new_origination_cdr env sip [] ?c = Ret (make_cdr cdr ?c)" "cdr_cdrType cdr = origination_request"
    using new_origination_cdr_Ret [OF ok] by metis
  then show ?thesis
    using None rej host reject_new_call [of cdr 403 call_rejected_due_to_unauthorized_peer ?c]
    by (auto simp: process_outside_invite [OF ok] process_invite_def determineCallType_def rejection_def turned_away_frame
      split_beta split: if_splits)
next
  case (Some carrier)
  let ?c = "emit [TReply irq 100 None []] c"
  obtain cdr where cdr: "new_origination_cdr env sip carrier ?c = Ret (make_cdr cdr ?c)" "cdr_cdrType cdr = origination_request"
    using new_origination_cdr_Ret [OF ok] by metis
  have inv: "processRequestOutsideDialog env irq sip c =
      (if \<not> m_bIsActive (c_config c) \<or> c_nIterationCount c = 0
       then Ret (reject_call 503 call_rejected_due_to_being_offline (c_next_cdr ?c) (snd (make_cdr cdr ?c)))
       else obind (processOriginationRequest env irq sip carrier ?c) (\<lambda>(rc, c2).
         Ret (rc, if c_nIterationCount c2 > 0 then c2\<lparr>c_nIterationCount := c_nIterationCount c2 - 1\<rparr> else c2)))"
    using Some host cdr(1)
    by (simp add: process_outside_invite [OF ok] process_invite_def determineCallType_def split_beta)
  show ?thesis
  proof (cases "\<not> m_bIsActive (c_config c) \<or> c_nIterationCount c = 0")
    case True
    then show ?thesis using inv rej Some cdr(2) reject_new_call [of cdr 503 call_rejected_due_to_being_offline ?c]
      by (auto simp: rejection_def turned_away_frame)
  next
    case False
    then have "\<forall>fs \<in> set (mon_servers (c_fsMonitor ?c)). \<not> isAvailable fs" "status = 486" "cause = call_rejected_due_to_system_error"
      using rej Some by (auto simp: rejection_def split: if_splits)
    then show ?thesis using inv False no_server_rejected [OF ok, of ?c env irq carrier] len
      by (auto simp: turned_away_frame)
  qed
qed

section \<open>An origination that is accepted\<close>

text \<open>The objects the stack hands out for a new call, none of which is in use.\<close>

definition call_env :: "nta_env \<Rightarrow> nat \<Rightarrow> controller \<Rightarrow> nat \<Rightarrow> nat \<Rightarrow> nat \<Rightarrow> string \<Rightarrow> bool" where
  "call_env env irq c orq a b callId \<longleftrightarrow>
     env_a_leg env = Some a \<and> env_b_leg env = Some b \<and> env_orq env = Some (orq, callId) \<and>
     bm_left (c_transactions c) irq = None \<and> bm_right (c_transactions c) orq = None \<and>
     fresh_leg (c_dialogs c) a \<and> fresh_leg (c_dialogs c) b \<and> a \<noteq> b"

lemma call_env_frame:
  "same_tables c c' \<Longrightarrow> call_env env irq c' orq a b callId = call_env env irq c orq a b callId"
  by (simp add: call_env_def same_tables_def)

lemma record_origination_up:
  assumes inv: "ctl_inv R c" and env: "call_env env irq c orq a b callId"
  shows "origination_up (record_origination irq orq a b p timer c) irq orq a b p"
proof -
  have "bm_left (bm_insert irq orq (c_transactions c)) irq = Some orq" "bm_left (bm_insert a b (c_dialogs c)) a = Some b"
    using bm.insert_new [OF ctl_inv_dialogs(3) [OF inv]] bm.insert_new [OF ctl_inv_dialogs(2) [OF inv]] env
    by (simp_all add: call_env_def fresh_leg_def)
  then show ?thesis using env unknown_keys [OF inv]
    by (simp add: origination_up_def call_up_def record_origination_def Let_def addDialogs_def addTransactions_def
      call_env_def)
qed

definition server_url :: "string \<Rightarrow> FsInstance \<Rightarrow> string" where
  "server_url user server = ''sip:'' @ user @ ''@'' @ fs_strSipAddress server @ '':'' @ show_u32 (fs_nSipPort server)"

text \<open>
  The addresses a call may be sent to fit the buffers of the code: those of the dialled number at
  any server, and at any trunk.
\<close>

definition servers_fit :: "FsMonitor \<Rightarrow> string \<Rightarrow> bool" where
  "servers_fit m user \<longleftrightarrow> (\<forall>fs \<in> set (mon_servers m). length (server_url user fs) < URL_MAXLEN)"

definition routes_fit :: "ssp_config \<Rightarrow> string \<Rightarrow> bool" where
  "routes_fit cfg user \<longleftrightarrow>
     (\<forall>rt. valid_route cfg rt \<longrightarrow> length (''sip:'' @ user @ ''@'' @ fst rt) < URL_MAXLEN)"

lemma routes_fitD:
  "routes_fit cfg user \<Longrightarrow> valid_route cfg rt \<Longrightarrow> length (ta_url (next_attempt user rt t)) < URL_MAXLEN"
proof -
  assume "routes_fit cfg user" "valid_route cfg rt"
  then have "length (''sip:'' @ user @ ''@'' @ fst rt) < URL_MAXLEN" unfolding routes_fit_def by blast
  then show ?thesis by (simp add: next_attempt_def split_beta)
qed

definition uuid_header :: "string \<Rightarrow> string" where
  "uuid_header uuid = X_SESSION_UUID @ '': '' @ uuid"

lemma start_origination_Ret:
  assumes ok: "invite_ok sip" and user: "to_user sip = Ret user" and inv: "ctl_inv R c"
    and env: "call_env env irq c orq a b callId" and fit: "length (server_url user server) < URL_MAXLEN"
  obtains c' hdrs where "start_origination env irq sip carrier p server c = Ret (0, c')"
    "origination_up c' irq orq a b p"
    "c_out c' = c_out c @ [BindAckOrCancel irq, OutgoingInvite orq b (server_url user server) sip hdrs]"
    "uuid_header (cdr_uuid (c_cdrs c p)) \<in> set hdrs"
    "''X-Originating-Carrier: '' @ (if carrier = [] then ''unknown'' else carrier) \<in> set hdrs"
    "c_posted c' = (if c_cdrWriter c then c_posted c @ [p] else c_posted c)"
    "c_cdrs c' = (c_cdrs c)(p := setFsAddress (fs_strSipAddress server) (setBLegCallId callId (c_cdrs c p)))"
    "c_next_cdr c' = c_next_cdr c" "c_fsMonitor c' = c_fsMonitor c" "c_cdrWriter c' = c_cdrWriter c"
proof -
  obtain host fromStr toStr contactStr where h: "contact_host sip = Ret host" "generateOutgoingFrom (c_my c) sip = Ret fromStr"
    "generateOutgoingTo (c_my c) sip = Ret toStr" "generateOutgoingContact (c_my c) sip = Ret contactStr"
    using invite_ok_parts [OF ok, of "c_my c"] by metis
  let ?hdrs = "[fromStr, toStr, contactStr,
    ''X-Originating-Carrier: '' @ (if carrier = [] then ''unknown'' else carrier),
    ''X-Originating-Carrier-IP: '' @ host, uuid_header (cdr_uuid (c_cdrs c p))]"
  let ?c3 = "update_cdr p (\<lambda>cdr. setFsAddress (fs_strSipAddress server) (setBLegCallId callId cdr))
    (emit [OutgoingInvite orq b (server_url user server) sip ?hdrs] (emit [BindAckOrCancel irq] c))"
  let ?c' = "record_origination irq orq a b p (origination_session_timer (c_config c) sip) ?c3"
  have run: "start_origination env irq sip carrier p server c = Ret (0, ?c')"
    using env h user fit
    by (simp add: start_origination_def call_env_def server_url_def uuid_header_def Let_def url_buffer_def)
  have up: "origination_up ?c' irq orq a b p"
    by (rule record_origination_up [of R _ env irq orq a b callId])
      (use inv env in \<open>simp_all add: call_env_def\<close>)
  show ?thesis
    by (rule that [OF run up, of ?hdrs])
      (simp_all add: record_origination_def Let_def addDialogs_def addTransactions_def)
qed

lemma accepted_origination:
  assumes ok: "invite_ok sip" and host: "contact_host sip = Ret host" and user: "to_user sip = Ret user"
    and carrier: "getCarrier (c_config c) host = Some carrier" and rej: "rejection c host = None"
    and len: "length (mon_servers (c_fsMonitor c)) < 2 ^ 32"
    and inv: "ctl_inv R c" and env: "call_env env irq c orq a b callId"
    and fit: "length (server_url user (hd (chosen (env_sorter env) (c_fsMonitor c)))) < URL_MAXLEN"
  obtains c' server hdrs where "processRequestOutsideDialog env irq sip c = Ret (0, c')"
    "server = hd (chosen (env_sorter env) (c_fsMonitor c))" "chosen (env_sorter env) (c_fsMonitor c) \<noteq> []"
    "origination_up c' irq orq a b (c_next_cdr c)"
    "c_out c' = c_out c @ [TReply irq 100 None [], BindAckOrCancel irq,
       OutgoingInvite orq b (server_url user server) sip hdrs]"
    "uuid_header (env_uuid env) \<in> set hdrs"
    "c_posted c' = (if c_cdrWriter c then c_posted c @ [c_next_cdr c] else c_posted c)"
    "cdr_cdrType (c_cdrs c' (c_next_cdr c)) = origination_request" "cdr_uuid (c_cdrs c' (c_next_cdr c)) = env_uuid env"
    "cdr_originatingCarrier (c_cdrs c' (c_next_cdr c)) = carrier"
    "cdr_fsAddress (c_cdrs c' (c_next_cdr c)) = fs_strSipAddress server"
    "c_next_cdr c' = Suc (c_next_cdr c)" "c_fsMonitor c' = moved_on (c_fsMonitor c)" "c_cdrWriter c' = c_cdrWriter c"
    "cdr_tmStart (c_cdrs c' (c_next_cdr c)) = env_now env"
proof -
  have act: "m_bIsActive (c_config c)" "c_nIterationCount c \<noteq> 0"
    and av: "\<not> (\<forall>fs \<in> set (mon_servers (c_fsMonitor c)). \<not> isAvailable fs)"
    using rej carrier by (auto simp: rejection_def split: if_splits)
  let ?c = "emit [TReply irq 100 None []] c" and ?p = "c_next_cdr c"
  have "chosen (env_sorter env) (c_fsMonitor c) \<noteq> []" using av offered_empty_iff by (auto simp: chosen_def)
  then obtain server rest where ch: "chosen (env_sorter env) (c_fsMonitor c) = server # rest"
    by (cases "chosen (env_sorter env) (c_fsMonitor c)") auto
  obtain cdr where cdr: "new_origination_cdr env sip carrier ?c = Ret (make_cdr cdr ?c)" "cdr_uuid cdr = env_uuid env"
    "cdr_cdrType cdr = origination_request" "cdr_originatingCarrier cdr = carrier" "cdr_tmStart cdr = env_now env"
    using new_origination_cdr_Ret [OF ok] by metis
  let ?c2 = "(snd (make_cdr cdr ?c))\<lparr>c_fsMonitor := moved_on (c_fsMonitor c)\<rparr>"
  have inv2: "ctl_inv R ?c2" using make_cdr_inv(1) [of cdr ?c ?p "snd (make_cdr cdr ?c)" R] inv
    by (simp add: make_cdr_def)
  have env2: "call_env env irq ?c2 orq a b callId" using env by (simp add: call_env_def)
  obtain c' hdrs where c': "start_origination env irq sip carrier ?p server ?c2 = Ret (0, c')"
    "origination_up c' irq orq a b ?p"
    "c_out c' = c_out ?c2 @ [BindAckOrCancel irq, OutgoingInvite orq b (server_url user server) sip hdrs]"
    "uuid_header (cdr_uuid (c_cdrs ?c2 ?p)) \<in> set hdrs"
    "c_posted c' = (if c_cdrWriter ?c2 then c_posted ?c2 @ [?p] else c_posted ?c2)"
    "c_cdrs c' = (c_cdrs ?c2)(?p := setFsAddress (fs_strSipAddress server) (setBLegCallId callId (c_cdrs ?c2 ?p)))"
    "c_next_cdr c' = c_next_cdr ?c2" "c_fsMonitor c' = c_fsMonitor ?c2" "c_cdrWriter c' = c_cdrWriter ?c2"
    by (rule start_origination_Ret [OF ok user inv2 env2]) (use fit ch in simp)
  have "processOriginationRequest env irq sip carrier ?c = Ret (0, c')"
    using cdr(1) getAvailableServers_eq [OF len, of "env_sorter env"] ch c'(1)
    by (simp add: processOriginationRequest_def split_beta)
  then have run: "processRequestOutsideDialog env irq sip c = Ret (0, if c_nIterationCount c' > 0
      then c'\<lparr>c_nIterationCount := c_nIterationCount c' - 1\<rparr> else c')"
    using act carrier host
    by (simp add: process_outside_invite [OF ok] process_invite_def determineCallType_def)
  show ?thesis
    by (rule that [OF run, of server hdrs])
      (use c' ch cdr in \<open>auto simp: origination_up_def call_up_def cdr_set\<close>)
qed

text \<open>The server an accepted origination goes to.\<close>

lemma chosen_first:
  assumes "getCarrier (c_config c) host = Some carrier" "rejection c host = None"
    and sorter: "sort_result capacity_sorter (mon_servers (c_fsMonitor c)) (sorter (mon_servers (c_fsMonitor c)))"
  shows "hd (chosen sorter (c_fsMonitor c)) \<in> set (mon_servers (c_fsMonitor c))"
    "isAvailable (hd (chosen sorter (c_fsMonitor c)))"
proof -
  have "chosen sorter (c_fsMonitor c) \<noteq> []"
    using assms(1,2) offered_empty_iff by (auto simp: chosen_def rejection_def split: if_splits)
  then show "hd (chosen sorter (c_fsMonitor c)) \<in> set (mon_servers (c_fsMonitor c))"
    "isAvailable (hd (chosen sorter (c_fsMonitor c)))"
    using set_chosen [of "c_fsMonitor c" sorter, OF sorter] hd_in_set by fastforce+
qed

text \<open>The same INVITE when the address does not fit: it is written past the end of its buffer.\<close>

lemma overlong_origination:
  assumes ok: "invite_ok sip" and host: "contact_host sip = Ret host" and user: "to_user sip = Ret user"
    and carrier: "getCarrier (c_config c) host = Some carrier" and rej: "rejection c host = None"
    and len: "length (mon_servers (c_fsMonitor c)) < 2 ^ 32"
    and long: "\<not> length (server_url user (hd (chosen (env_sorter env) (c_fsMonitor c)))) < URL_MAXLEN"
  shows "processRequestOutsideDialog env irq sip c = Undefined"
proof -
  have act: "m_bIsActive (c_config c)" "c_nIterationCount c \<noteq> 0"
    and av: "\<not> (\<forall>fs \<in> set (mon_servers (c_fsMonitor c)). \<not> isAvailable fs)"
    using rej carrier by (auto simp: rejection_def split: if_splits)
  let ?c = "emit [TReply irq 100 None []] c"
  have "chosen (env_sorter env) (c_fsMonitor c) \<noteq> []" using av offered_empty_iff by (auto simp: chosen_def)
  then obtain server rest where ch: "chosen (env_sorter env) (c_fsMonitor c) = server # rest"
    by (cases "chosen (env_sorter env) (c_fsMonitor c)") auto
  obtain cdr where cdr: "new_origination_cdr env sip carrier ?c = Ret (make_cdr cdr ?c)"
    using new_origination_cdr_Ret [OF ok] by metis
  have "start_origination env irq sip carrier p server c2 = Undefined" for p c2
    using user long ch by (simp add: start_origination_def url_buffer_def server_url_def)
  then have "processOriginationRequest env irq sip carrier ?c = Undefined"
    using cdr getAvailableServers_eq [OF len, of "env_sorter env"] ch
    by (simp add: processOriginationRequest_def split_beta)
  then show ?thesis using act carrier host
    by (simp add: process_outside_invite [OF ok] process_invite_def determineCallType_def)
qed

section \<open>A termination that is accepted\<close>

text \<open>The carrier for anonymous calls, when one is configured and the caller gives no number.\<close>

definition anonymous_carrier :: "ssp_config \<Rightarrow> sip_t \<Rightarrow> string option" where
  "anonymous_carrier cfg sip =
     (case getAnonymousCallRouting cfg of
        Some carrier \<Rightarrow> if isAnonymousCall sip \<and> carrier \<in> fst ` set (m_mapTerminationCarrierByName cfg)
          then Some carrier else None
      | None \<Rightarrow> None)"

lemma same_setup_routes:
  assumes "same_setup c c'" "valid_route c' rt"
  shows "valid_route c rt"
proof -
  obtain trunk carrier charge where rt: "rt = (trunk, carrier, charge)" by (cases rt)
  then obtain r' where r': "map_of (m_mapTerminationCarrierByName c') carrier = Some r'"
    "trunk \<in> trunk_text ` set (m_vecTrunks r')" "charge = m_chargeNumber r'"
    using assms(2) by (auto simp: valid_route_def)
  moreover have "map_option (\<lambda>r. (map trunk_key (m_vecTrunks r), m_chargeNumber r)) (map_of (m_mapTerminationCarrierByName c') carrier) =
      map_option (\<lambda>r. (map trunk_key (m_vecTrunks r), m_chargeNumber r)) (map_of (m_mapTerminationCarrierByName c) carrier)"
    using assms(1) unfolding same_setup_def by blast
  ultimately obtain r where r: "map_of (m_mapTerminationCarrierByName c) carrier = Some r"
    "map trunk_key (m_vecTrunks r) = map trunk_key (m_vecTrunks r')" "m_chargeNumber r = m_chargeNumber r'"
    by (cases "map_of (m_mapTerminationCarrierByName c) carrier") auto
  have "trunk_text ` set (m_vecTrunks r) = fst ` set (map trunk_key (m_vecTrunks r))"
    "trunk_text ` set (m_vecTrunks r') = fst ` set (map trunk_key (m_vecTrunks r'))"
    by (force simp: trunk_key_def)+
  with r r' rt show ?thesis by (auto simp: valid_route_def)
qed

lemma termination_route_ok:
  assumes "routable cfg"
  obtains rt cfg' where "termination_route cfg sip = Ret (Some rt, cfg')" "routable cfg'" "valid_route cfg rt"
    "\<And>carrier. anonymous_carrier cfg sip = Some carrier \<Longrightarrow> fst (snd rt) = carrier" "same_setup cfg cfg'"
proof (cases "\<exists>carrier. getAnonymousCallRouting cfg = Some carrier \<and> isAnonymousCall sip")
  case False
  obtain rt cfg' where "getTerminationRoute cfg = Ret (Some rt, cfg')" "config_wf cfg'" "same_setup cfg cfg'" "valid_route cfg rt"
    using assms getTerminationRoute_ok [of cfg] by (metis routable_def)
  with False assms show ?thesis using same_setup_vec [of cfg cfg']
    by (intro that [of rt cfg']) (auto simp: termination_route_def anonymous_carrier_def routable_def split: option.splits)
next
  case True
  then obtain n where n: "getAnonymousCallRouting cfg = Some n" "isAnonymousCall sip" by blast
  obtain rt1 cfg1 where r1: "getTerminationRouteForCarrier cfg n = Ret (rt1, cfg1)" "routable cfg1" "same_setup cfg cfg1"
    "(rt1 = None) = (n \<notin> fst ` set (m_mapTerminationCarrierByName cfg))"
    "\<forall>x. rt1 = Some x \<longrightarrow> valid_route cfg x \<and> fst (snd x) = n"
    by (rule getTerminationRouteForCarrier_ok [OF assms])
  show ?thesis
  proof (cases rt1)
    case (Some rt)
    with n r1 show ?thesis by (intro that [of rt cfg1]) (auto simp: termination_route_def anonymous_carrier_def)
  next
    case None
    obtain rt cfg' where "getTerminationRoute cfg1 = Ret (Some rt, cfg')" "config_wf cfg'" "same_setup cfg1 cfg'" "valid_route cfg1 rt"
      using r1(2) getTerminationRoute_ok [of cfg1] by (metis routable_def)
    with None n r1 show ?thesis using same_setup_vec [of cfg1 cfg'] same_setup_routes [OF r1(3)] same_setup_trans [OF r1(3)]
      by (intro that [of rt cfg']) (auto simp: termination_route_def anonymous_carrier_def routable_def)
  qed
qed

lemma record_termination_up:
  assumes inv: "ctl_inv R c" and env: "call_env env irq c orq a b callId"
  shows "termination_up (record_termination irq orq a b t sdp c) irq orq a b t"
proof -
  have "bm_left (bm_insert irq orq (c_transactions c)) irq = Some orq" "bm_left (bm_insert a b (c_dialogs c)) a = Some b"
    using bm.insert_new [OF ctl_inv_dialogs(3) [OF inv]] bm.insert_new [OF ctl_inv_dialogs(2) [OF inv]] env
    by (simp_all add: call_env_def fresh_leg_def)
  then show ?thesis using env unknown_keys [OF inv]
    by (simp add: termination_up_def call_up_def record_termination_def Let_def addDialogs_def addTransactions_def
      call_env_def)
qed

lemma start_termination_Ret:
  assumes ok: "invite_ok sip" and user: "to_user sip = Ret user" and sdp: "sip_payload sip = Some sdp"
    and inv: "ctl_inv R c" and env: "call_env env irq c orq a b callId"
    and fit: "length (''sip:'' @ user @ ''@'' @ fst rt) < URL_MAXLEN"
  obtains c' t where "start_termination env irq sip rt c = Ret (0, c')"
    "termination_up c' irq orq a b t" "ta_nAttemptCount t = 0" "ta_sipTrunk t = fst rt" "ta_carrier t = fst (snd rt)"
    "ta_url t = ''sip:'' @ user @ ''@'' @ fst rt" "ta_pCdr t = Some (c_next_cdr c)"
    "c_out c' = c_out c @ [BindAckOrCancel irq, invite_of c orq b t]" "c_posted c' = c_posted c"
    "c_config c' = c_config c" "c_nTerminationRetries c' = c_nTerminationRetries c"
    "c_transactions c' = bm_insert irq orq (c_transactions c)" "c_dialogs c' = bm_insert a b (c_dialogs c)"
proof -
  obtain address carrier charge where rt: "rt = (address, carrier, charge)" by (cases rt)
  obtain i fromStr toStr contactStr where h: "call_id sip = Ret i" "generateOutgoingFrom (c_my c) sip = Ret fromStr"
    "generateOutgoingTo (c_my c) sip = Ret toStr" "generateOutgoingContact (c_my c) sip = Ret contactStr"
    using invite_ok_parts [OF ok, of "c_my c"] by metis
  obtain cdr where cdr: "populateTerminationCdr (c_my c) (env_now env) sip carrier address
      (header_or_empty sip X_AVOKE_BROWSER) (header_or_empty sip X_AVOKE_CALL_ID)
      (header_or_empty sip X_SESSION_UUID) (CdrInfo_new termination_attempt) = Ret cdr"
    using h(1) user by (simp add: populateTerminationCdr_def Let_def)
  let ?p = "c_next_cdr c" and ?c1 = "emit [BindAckOrCancel irq] (snd (make_cdr cdr c))"
  obtain t where t: "first_attempt (c_my c) sip rt ?p = Ret t" "ta_url t = ''sip:'' @ user @ ''@'' @ address"
    using h user fit by (simp add: first_attempt_def rt url_buffer_def)
  note tf = first_attempt_Ret [OF t(1)]
  let ?c2 = "count_attempt t (update_cdr ?p (setDLegCallId callId) (emit [invite_of c orq b t] ?c1))"
  have gen: "generateTerminationRequest env t ?c1 = Ret (Some (orq, b), ?c2)"
    using generateTerminationRequest_Ret [of env b orq callId t ?p ?c1] env tf(2) t(2) fit rt
    by (simp add: call_env_def invite_of_def)
  have run: "start_termination env irq sip rt c = Ret (0, record_termination irq orq a b t sdp ?c2)"
    using cdr t(1) gen env sdp by (simp add: start_termination_def rt split_beta call_env_def)
  have inv2: "ctl_inv R ?c2" using make_cdr_inv(1) [of cdr c ?p "snd (make_cdr cdr c)" R] inv
    by (simp add: make_cdr_def)
  have up: "termination_up (record_termination irq orq a b t sdp ?c2) irq orq a b t"
    by (rule record_termination_up [OF inv2, of env irq orq a b callId]) (use env in \<open>simp add: call_env_def\<close>)
  show ?thesis
    by (rule that [OF run up])
      (use tf t(2) in \<open>simp_all add: rt record_termination_def Let_def addDialogs_def addTransactions_def\<close>)
qed

lemma accepted_termination:
  assumes ok: "invite_ok sip" and host: "contact_host sip = Ret host" and user: "to_user sip = Ret user"
    and sdp: "sip_payload sip = Some sdp"
    and peer: "getCarrier (c_config c) host = None" "isAppserver (c_fsMonitor c) host"
    and cfg: "routable (c_config c)" and inv: "ctl_inv R c" and env: "call_env env irq c orq a b callId"
    and fit: "routes_fit (c_config c) user"
  obtains c' t where "processRequestOutsideDialog env irq sip c = Ret (0, c')" "termination_up c' irq orq a b t"
    "\<exists>charge. valid_route (c_config c) (ta_sipTrunk t, ta_carrier t, charge)" "ta_nAttemptCount t = 0"
    "ta_url t = ''sip:'' @ user @ ''@'' @ ta_sipTrunk t"
    "\<forall>carrier. anonymous_carrier (c_config c) sip = Some carrier \<longrightarrow> ta_carrier t = carrier"
    "c_out c' = c_out c @ [TReply irq 100 None [], BindAckOrCancel irq, invite_of c orq b t]"
    "c_posted c' = c_posted c" "routable (c_config c')" "c_nTerminationRetries c' = c_nTerminationRetries c"
    "routes_fit (c_config c') user"
    "c_transactions c' = bm_insert irq orq (c_transactions c)" "c_dialogs c' = bm_insert a b (c_dialogs c)"
proof -
  let ?c = "emit [TReply irq 100 None []] c"
  obtain rt cfg' where rt: "termination_route (c_config c) sip = Ret (Some rt, cfg')" "routable cfg'" "valid_route (c_config c) rt"
    "\<And>carrier. anonymous_carrier (c_config c) sip = Some carrier \<Longrightarrow> fst (snd rt) = carrier"
    "same_setup (c_config c) cfg'"
    using termination_route_ok [OF cfg] by metis
  have fit1: "length (''sip:'' @ user @ ''@'' @ fst rt) < URL_MAXLEN" using fit rt(3) unfolding routes_fit_def by blast
  obtain i where i: "call_id sip = Ret i" using invite_ok_parts [OF ok] by metis
  let ?c1 = "?c\<lparr>c_config := cfg'\<rparr>"
  have hyps: "ctl_inv R ?c1" "call_env env irq ?c1 orq a b callId" using inv env by (simp_all add: call_env_def)
  obtain c' t where c': "start_termination env irq sip rt ?c1 = Ret (0, c')" "termination_up c' irq orq a b t"
    "ta_nAttemptCount t = 0" "ta_sipTrunk t = fst rt" "ta_carrier t = fst (snd rt)" "ta_url t = ''sip:'' @ user @ ''@'' @ fst rt"
    "c_out c' = c_out ?c1 @ [BindAckOrCancel irq, invite_of ?c1 orq b t]" "c_posted c' = c_posted ?c1"
    "c_config c' = c_config ?c1" "c_nTerminationRetries c' = c_nTerminationRetries ?c1"
    "c_transactions c' = bm_insert irq orq (c_transactions ?c1)" "c_dialogs c' = bm_insert a b (c_dialogs ?c1)"
    using start_termination_Ret [OF ok user sdp hyps fit1] by metis
  have run: "processRequestOutsideDialog env irq sip c = Ret (0, if c_nIterationCount c' > 0
      then c'\<lparr>c_nIterationCount := c_nIterationCount c' - 1\<rparr> else c')"
    using peer host rt(1) i c'(1)
    by (simp add: process_outside_invite [OF ok] process_invite_def determineCallType_def processTerminationRequest_def)
  have "routes_fit cfg' user" using fit same_setup_routes [OF rt(5)] unfolding routes_fit_def by blast
  then show ?thesis
    by (intro that [OF run, of t])
      (use c' rt in \<open>auto simp: termination_up_def call_up_def invite_of_def intro!: exI [of _ "snd (snd rt)"]\<close>)
qed

end
