(* ===== verification/Call_Theorems.thy ===== *)
theory Call_Theorems
  imports Call_Setup
begin

text \<open>The properties of the calls the controller handles, with concrete instances.\<close>

section \<open>The program at its start, and examples\<close>

definition ex_config :: ssp_config where
  "ex_config = two_carriers\<lparr>
     m_mapInboundCarrier := [(''10.0.0.9'', CarrierAddressSpace ''level3'' ''10.0.0.9'' 5060 [] 0)],
     m_cdrHost := ''localhost'', m_cdrUser := ''ssp'', m_cdrPassword := ''x'', m_cdrSchema := ''cdr''\<rparr>"

definition ex_controller :: controller where
  "ex_controller = (SipLbController_new ex_config (- 1))
     \<lparr>c_fsMonitor := example_monitor\<lparr>mon_setServers := [''10.0.1.1'']\<rparr>, c_cdrWriter := True,
      c_my := \<lparr>my_host = ''10.0.0.1'', my_port = None\<rparr>, c_user_agent := ''Raytheon/BBN Avoke Edge Server/1.0''\<rparr>"

lemmas ex_controller_simps = ex_controller_def SipLbController_new_def installConfig_def Let_def

lemma ex_start:
  obtains c0 where "run_agent (c_my ex_controller) ''1.0'' (SipLbController_new ex_config (- 1)) = Ret ([], c0)"
    "c0\<lparr>c_fsMonitor := c_fsMonitor ex_controller, c_mapTrunkStats := []\<rparr> = ex_controller"
  by (simp add: run_agent_def start_monitor_def generateUserAgent_def create_writer_def SipLbController_new_def installConfig_def Let_def
    ex_controller_def ex_config_def two_carriers_def initial_config_def getAppservers_def reset_def
    getCdrConnectInfo_def)

definition ex_addr :: "string \<Rightarrow> string \<Rightarrow> sip_addr" where
  "ex_addr user host = \<lparr>a_display = None, a_url = \<lparr>url_user = Some user, url_host = Some host, url_port = None\<rparr>,
     a_tag = Some ''t''\<rparr>"

text \<open>A request from a host, and a response.\<close>

definition ex_request :: "sip_method \<Rightarrow> string \<Rightarrow> sip_t" where
  "ex_request rq_method host =
     \<lparr>sip_request = Some rq_method, sip_status = None, sip_cseq = Some rq_method, sip_call_id = Some ''i'',
      sip_contact = Some (ex_addr ''c'' host), sip_to = Some (ex_addr ''5551212'' ''h''),
      sip_from = Some (ex_addr ''6171234567'' host), sip_payload = Some ''sdp'', sip_session_expires = False,
      sip_min_se = None, sip_unknown = [], sip_p_asserted_identity = None, sip_remote_party_id = None\<rparr>"

definition ex_response :: "int \<Rightarrow> sip_t" where
  "ex_response status = (ex_request sip_method_invite ''10.0.0.7'')
     \<lparr>sip_request := None, sip_status := Some (status, ''phrase'')\<rparr>"

text \<open>The stack hands out the legs \<open>a\<close> and \<open>b\<close> and the transaction \<open>orq\<close>; responses come on \<open>r\<close>.\<close>

definition ex_env :: "nat \<Rightarrow> nat \<Rightarrow> nat \<Rightarrow> nat \<Rightarrow> nta_env" where
  "ex_env a b orq r =
     \<lparr>env_now = 1000, env_uuid = ''u'', env_a_leg = Some a, env_b_leg = Some b, env_orq = Some (orq, ''bcid''),
      env_leg_of_irq = (\<lambda>_. Some a), env_leg_of_orq = (\<lambda>_. Some b), env_response_leg = Some r,
      env_timer = None, env_sorter = sort_by capacity_sorter\<rparr>"

lemma ex_retries: "c_nTerminationRetries ex_controller = 3"
  by (simp add: ex_controller_simps ex_config_def two_carriers_def initial_config_def
    getCountOfOutboundTrunks_def getCountOfTrunks_def TerminationRoute_def)

lemma ex_controller_inv: "ctl_inv 3 ex_controller"
  using ex_retries by (simp add: ex_controller_simps ctl_inv_def tables_ok_def dialogs_ok_def bm_wf_def)

lemma ex_invite: "invite_ok (ex_request sip_method_invite h)" "contact_host (ex_request rq h) = Ret h"
  "to_user (ex_request rq h) = Ret ''5551212''" "sip_payload (ex_request rq h) = Some ''sdp''"
  by (simp_all add: invite_ok_def validateSipMessage_def ex_request_def ex_addr_def contact_host_def to_user_def)

lemma ex_call_env: "a \<noteq> 0 \<Longrightarrow> b \<noteq> 0 \<Longrightarrow> a \<noteq> b \<Longrightarrow> call_env (ex_env a b orq r) irq ex_controller orq a b ''bcid''"
  by (simp add: call_env_def ex_env_def ex_controller_simps fresh_leg_def bm_left_def bm_right_def)

lemma ex_routable: "routable (c_config ex_controller)"
proof -
  have "config_wf ex_config" using two_carriers_wf(1) by (simp add: config_wf_def ex_config_def)
  then show ?thesis using two_carriers_wf(2)
    by (simp add: routable_def ex_controller_simps ex_config_def)
qed

lemma ex_fresh_call: "a \<noteq> 0 \<Longrightarrow> b \<noteq> 0 \<Longrightarrow> a \<noteq> b \<Longrightarrow> fresh_call (ex_env a b orq r) irq ex_controller"
  using ex_call_env [of a b orq r irq] by (auto simp: fresh_call_def call_env_def)

lemma ex_accepted: "getCarrier (c_config ex_controller) ''10.0.0.9'' = Some ''level3''"
  "rejection ex_controller ''10.0.0.9'' = None" "length (mon_servers (c_fsMonitor ex_controller)) < 2 ^ 32"
  using example_monitor_available
  by (simp_all add: ex_controller_simps ex_config_def getCarrier_def rejection_def
    CarrierAddressSpace_def two_carriers_def initial_config_def example_monitor_def)

lemma show_nat_length: "length (show_nat n) \<le> Suc n"
proof (induction n rule: show_nat.induct)
  case (1 n)
  show ?case
  proof (cases "n < 10")
    case False
    then have "length (show_nat (n div 10)) \<le> Suc (n div 10)" by (rule 1)
    then show ?thesis using False by (subst show_nat.simps) simp
  qed (simp add: show_nat.simps [of n])
qed

lemma show_u32_length: "length (show_u32 w) \<le> Suc (unat w)"
  unfolding show_u32_def by (rule show_nat_length)

lemma ex_servers_fit: "servers_fit (c_fsMonitor ex_controller) ''5551212''"
proof -
  have "length (show_u32 0) \<le> 1" "length (show_u32 5060) \<le> 5061"
    using show_u32_length [of 0] show_u32_length [of 5060] by simp_all
  then show ?thesis
    by (simp add: servers_fit_def server_url_def ex_controller_def example_monitor_def example_server_def FsInstance_new_def)
qed

lemma ex_routes_fit: "routes_fit (c_config ex_controller) ''5551212''"
  by (auto simp: routes_fit_def valid_route_def ex_controller_simps ex_config_def two_carriers_def TerminationRoute_def
    CarrierAddressSpace_def trunk_text_def split: if_splits)

lemma ex_chosen_fits:
  "length (server_url ''5551212'' (hd (chosen (sort_by capacity_sorter) (c_fsMonitor ex_controller)))) < URL_MAXLEN"
proof -
  have "chosen (sort_by capacity_sorter) (c_fsMonitor ex_controller) \<noteq> []"
    using example_monitor_available(1) by (auto simp: chosen_def offered_empty_iff ex_controller_def example_monitor_def)
  then show ?thesis
    using ex_servers_fit set_chosen [of "c_fsMonitor ex_controller" "sort_by capacity_sorter"]
    by (auto simp: servers_fit_def capacity.sort_by_result dest: hd_in_set)
qed

lemma ex_writer: "c_cdrWriter ex_controller"
  by (simp add: ex_controller_simps ex_config_def getCdrConnectInfo_def)

text \<open>A call from a carrier that is waiting for an answer, and one from a server.\<close>

lemma ex_origination:
  obtains c where "ctl_inv 3 c" "origination_up c 7 5 1 2 0" "c_cdrWriter c" "c_posted c = [0]" "c_next_cdr c = 1"
proof -
  obtain c' where run: "processRequestOutsideDialog (ex_env 1 2 5 2) 7 (ex_request sip_method_invite ''10.0.0.9'') ex_controller =
      Ret (0, c')" and c': "origination_up c' 7 5 1 2 (c_next_cdr ex_controller)" "c_cdrWriter c' = c_cdrWriter ex_controller"
    "c_posted c' = (if c_cdrWriter ex_controller then c_posted ex_controller @ [c_next_cdr ex_controller] else c_posted ex_controller)"
    "c_next_cdr c' = Suc (c_next_cdr ex_controller)"
    by (rule accepted_origination [OF ex_invite(1-3) ex_accepted ex_controller_inv ex_call_env, of 1 2 5 2 7])
      (use ex_chosen_fits in \<open>simp_all add: ex_env_def\<close>)
  have "ctl_inv 3 c'" using processRequestOutsideDialog_inv [OF ex_controller_inv ex_fresh_call run] by simp
  with c' show ?thesis using that ex_writer by (simp add: ex_controller_simps)
qed

lemma ex_termination:
  obtains c t where "ctl_inv 3 c" "termination_up c 7 5 1 2 t" "ta_nAttemptCount t = 0" "routable (c_config c)"
    "c_nTerminationRetries c = 3" "c_transactions c = [(7, 5)]" "c_dialogs c = [(1, 2)]" "routes_fit (c_config c) ''5551212''"
proof -
  have peer: "getCarrier (c_config ex_controller) ''10.0.1.1'' = None" "isAppserver (c_fsMonitor ex_controller) ''10.0.1.1''"
    by (simp_all add: ex_controller_simps ex_config_def getCarrier_def isAppserver_def)
  obtain c' t where run: "processRequestOutsideDialog (ex_env 1 2 5 2) 7 (ex_request sip_method_invite ''10.0.1.1'') ex_controller =
      Ret (0, c')" and c': "termination_up c' 7 5 1 2 t" "ta_nAttemptCount t = 0" "routable (c_config c')"
    "c_nTerminationRetries c' = c_nTerminationRetries ex_controller"
    "c_transactions c' = bm_insert 7 5 (c_transactions ex_controller)" "c_dialogs c' = bm_insert 1 2 (c_dialogs ex_controller)"
    "routes_fit (c_config c') ''5551212''"
    by (rule accepted_termination [OF ex_invite peer ex_routable ex_controller_inv ex_call_env ex_routes_fit, of 1 2 5 2 7]) simp_all
  have "ctl_inv 3 c'" using processRequestOutsideDialog_inv [OF ex_controller_inv ex_fresh_call run] by simp
  with c' show ?thesis using that ex_retries
    by (simp add: ex_controller_simps bm_insert_def bm_left_def bm_right_def)
qed

lemma ex_response_env: "response_env (ex_env 1 b orq 2) 7 1 2"
  by (simp add: response_env_def ex_env_def)

section \<open>New calls\<close>

text \<open>
  C14. A valid INVITE that must be turned away is answered with the right status, 403 for an unknown
  peer, 503 while the program is inactive or shutting down, 486 when no server is available, it
  leaves no trace in the tables, and one record is posted with that status and its cause.
\<close>

theorem invite_turned_away:
  assumes "invite_ok sip" and "contact_host sip = Ret host" and "rejection c host = Some (status, cause)"
    and "length (mon_servers (c_fsMonitor c)) < 2 ^ 32"
  shows "\<exists>c'. processRequestOutsideDialog env irq sip c = Ret (status, c') \<and> turned_away c status cause c'"
  by (rule rejected_invite [OF assms])

theorem invite_turned_away_witness:
  "\<exists>c'. processRequestOutsideDialog (ex_env 1 2 5 2) 7 (ex_request sip_method_invite ''6.6.6.6'') ex_controller =
      Ret (403, c') \<and> turned_away ex_controller 403 call_rejected_due_to_unauthorized_peer c'"
proof -
  have "rejection ex_controller ''6.6.6.6'' = Some (403, call_rejected_due_to_unauthorized_peer)"
    by (simp add: rejection_def ex_controller_simps ex_config_def getCarrier_def isAppserver_def)
  then show ?thesis using invite_turned_away [OF ex_invite(1,2)] ex_accepted(3) by blast
qed

text \<open>
  C4. A valid INVITE from a configured carrier that is not turned away, to a number that leaves room
  for the address of every server in its buffer, is sent to a server of the pool that is available,
  the first of the servers offered: the outgoing INVITE goes to the number dialled at that server's
  SIP address and carries the uuid of the call, the two sides of the call are entered in the tables,
  and its record, with the server's address, is posted.
\<close>

theorem origination_reaches_server:
  assumes "invite_ok sip" and "contact_host sip = Ret host" and "to_user sip = Ret user"
    and "getCarrier (c_config c) host = Some carrier" and "rejection c host = None"
    and "length (mon_servers (c_fsMonitor c)) < 2 ^ 32" and "ctl_inv R c" and "call_env env irq c orq a b callId"
    and fit: "servers_fit (c_fsMonitor c) user"
    and sorter: "sort_result capacity_sorter (mon_servers (c_fsMonitor c)) (env_sorter env (mon_servers (c_fsMonitor c)))"
  shows "\<exists>c' server hdrs. processRequestOutsideDialog env irq sip c = Ret (0, c') \<and>
    server \<in> set (mon_servers (c_fsMonitor c)) \<and> isAvailable server \<and>
    server = hd (chosen (env_sorter env) (c_fsMonitor c)) \<and>
    c_out c' = c_out c @ [TReply irq 100 None [], BindAckOrCancel irq,
      OutgoingInvite orq b (server_url user server) sip hdrs] \<and> uuid_header (env_uuid env) \<in> set hdrs \<and>
    origination_up c' irq orq a b (c_next_cdr c) \<and> ctl_inv R c' \<and>
    c_posted c' = (if c_cdrWriter c then c_posted c @ [c_next_cdr c] else c_posted c) \<and>
    cdr_originatingCarrier (c_cdrs c' (c_next_cdr c)) = carrier \<and>
    cdr_uuid (c_cdrs c' (c_next_cdr c)) = env_uuid env \<and>
    cdr_fsAddress (c_cdrs c' (c_next_cdr c)) = fs_strSipAddress server"
proof -
  note server = chosen_first [where sorter = "env_sorter env", OF assms(4,5) sorter]
  then have "length (server_url user (hd (chosen (env_sorter env) (c_fsMonitor c)))) < URL_MAXLEN"
    using fit by (simp add: servers_fit_def)
  then obtain c' server hdrs where run: "processRequestOutsideDialog env irq sip c = Ret (0, c')"
    and c': "server = hd (chosen (env_sorter env) (c_fsMonitor c))" "chosen (env_sorter env) (c_fsMonitor c) \<noteq> []"
    "origination_up c' irq orq a b (c_next_cdr c)"
    "c_out c' = c_out c @ [TReply irq 100 None [], BindAckOrCancel irq,
       OutgoingInvite orq b (server_url user server) sip hdrs]"
    "uuid_header (env_uuid env) \<in> set hdrs"
    "c_posted c' = (if c_cdrWriter c then c_posted c @ [c_next_cdr c] else c_posted c)"
    "cdr_uuid (c_cdrs c' (c_next_cdr c)) = env_uuid env"
    "cdr_originatingCarrier (c_cdrs c' (c_next_cdr c)) = carrier"
    "cdr_fsAddress (c_cdrs c' (c_next_cdr c)) = fs_strSipAddress server"
    by (rule accepted_origination [OF assms(1-8)])
  have "fresh_call env irq c" using assms(8) by (auto simp: fresh_call_def call_env_def)
  then have "ctl_inv R c'" using processRequestOutsideDialog_inv [OF assms(7) _ run] by blast
  with run c' server show ?thesis by blast
qed

theorem origination_reaches_server_witness:
  "\<exists>c' server hdrs. processRequestOutsideDialog (ex_env 1 2 5 2) 7 (ex_request sip_method_invite ''10.0.0.9'') ex_controller =
      Ret (0, c') \<and> isAvailable server \<and> origination_up c' 7 5 1 2 (c_next_cdr ex_controller) \<and>
      OutgoingInvite 5 2 (server_url ''5551212'' server) (ex_request sip_method_invite ''10.0.0.9'') hdrs \<in> set (c_out c')"
proof -
  have "sort_result capacity_sorter (mon_servers (c_fsMonitor ex_controller))
      (env_sorter (ex_env 1 2 5 2) (mon_servers (c_fsMonitor ex_controller)))"
    by (simp add: ex_env_def capacity.sort_by_result)
  then obtain c' server hdrs where
    "processRequestOutsideDialog (ex_env 1 2 5 2) 7 (ex_request sip_method_invite ''10.0.0.9'') ex_controller = Ret (0, c')"
    "isAvailable server" "c_out c' = c_out ex_controller @ [TReply 7 100 None [], BindAckOrCancel 7,
      OutgoingInvite 5 2 (server_url ''5551212'' server) (ex_request sip_method_invite ''10.0.0.9'') hdrs]"
    "origination_up c' 7 5 1 2 (c_next_cdr ex_controller)"
    using origination_reaches_server [OF ex_invite(1-3) ex_accepted ex_controller_inv ex_call_env ex_servers_fit, of 1 2 5 2 7] by auto
  then show ?thesis by auto
qed

text \<open>
  C15. Whether an accepted INVITE of a carrier is handled depends on a length nobody checks: the
  address of the outgoing INVITE is copied into a buffer of a fixed size, the number dialled
  included, which is the caller's. The handler overruns the buffer if and only if the address does
  not fit, whatever the state of the calls.
\<close>

theorem long_number_overruns:
  assumes "invite_ok sip" and "contact_host sip = Ret host" and "to_user sip = Ret user"
    and "getCarrier (c_config c) host = Some carrier" and "rejection c host = None"
    and "length (mon_servers (c_fsMonitor c)) < 2 ^ 32" and "ctl_inv R c" and "call_env env irq c orq a b callId"
  shows "processRequestOutsideDialog env irq sip c = Undefined \<longleftrightarrow>
    URL_MAXLEN \<le> length (server_url user (hd (chosen (env_sorter env) (c_fsMonitor c))))"
proof (cases "length (server_url user (hd (chosen (env_sorter env) (c_fsMonitor c)))) < URL_MAXLEN")
  case True
  obtain c' where "processRequestOutsideDialog env irq sip c = Ret (0, c')" by (rule accepted_origination [OF assms True])
  with True show ?thesis by simp
next
  case False
  with overlong_origination [OF assms(1-6) False] show ?thesis by simp
qed

theorem long_number_overruns_witness:
  "\<exists>sip. invite_ok sip \<and> contact_host sip = Ret ''10.0.0.9'' \<and> to_user sip = Ret (replicate 70000 (CHR ''5'')) \<and>
     processRequestOutsideDialog (ex_env 1 2 5 2) 7 sip ex_controller = Undefined"
proof -
  let ?user = "replicate 70000 (CHR ''5'')"
  let ?sip = "(ex_request sip_method_invite ''10.0.0.9'')\<lparr>sip_to := Some (ex_addr ?user ''h'')\<rparr>"
  have sip: "invite_ok ?sip" "contact_host ?sip = Ret ''10.0.0.9''" "to_user ?sip = Ret ?user"
    by (simp_all add: invite_ok_def validateSipMessage_def ex_request_def ex_addr_def contact_host_def to_user_def)
  have "URL_MAXLEN \<le> length (server_url ?user (hd (chosen (env_sorter (ex_env 1 2 5 2)) (c_fsMonitor ex_controller))))"
    by (simp add: server_url_def)
  then show ?thesis using long_number_overruns [OF sip ex_accepted ex_controller_inv ex_call_env, of 1 2 5 2 7] sip by auto
qed

text \<open>
  C7. A valid INVITE with SDP from a server goes to a trunk of a configured carrier, the carrier
  for anonymous calls if one is configured and the caller gives no number, as the first attempt of
  the call; both sides of the call are entered in the tables. The number is short enough for the
  buffer of the address on every route.
\<close>

theorem termination_reaches_carrier:
  assumes "invite_ok sip" and "contact_host sip = Ret host" and "to_user sip = Ret user"
    and "sip_payload sip = Some sdp" and "getCarrier (c_config c) host = None" and "isAppserver (c_fsMonitor c) host"
    and "routable (c_config c)" and "ctl_inv R c" and "call_env env irq c orq a b callId"
    and "routes_fit (c_config c) user"
  shows "\<exists>c' t charge. processRequestOutsideDialog env irq sip c = Ret (0, c') \<and>
    termination_up c' irq orq a b t \<and> ctl_inv R c' \<and>
    valid_route (c_config c) (ta_sipTrunk t, ta_carrier t, charge) \<and> ta_nAttemptCount t = 0 \<and>
    ta_url t = ''sip:'' @ user @ ''@'' @ ta_sipTrunk t \<and>
    (\<forall>carrier. anonymous_carrier (c_config c) sip = Some carrier \<longrightarrow> ta_carrier t = carrier) \<and>
    c_out c' = c_out c @ [TReply irq 100 None [], BindAckOrCancel irq, invite_of c orq b t]"
proof -
  obtain c' t where run: "processRequestOutsideDialog env irq sip c = Ret (0, c')"
    and c': "termination_up c' irq orq a b t"
    "\<exists>charge. valid_route (c_config c) (ta_sipTrunk t, ta_carrier t, charge)" "ta_nAttemptCount t = 0"
    "ta_url t = ''sip:'' @ user @ ''@'' @ ta_sipTrunk t"
    "\<forall>carrier. anonymous_carrier (c_config c) sip = Some carrier \<longrightarrow> ta_carrier t = carrier"
    "c_out c' = c_out c @ [TReply irq 100 None [], BindAckOrCancel irq, invite_of c orq b t]"
    by (rule accepted_termination [OF assms])
  have "fresh_call env irq c" using assms(9) by (auto simp: fresh_call_def call_env_def)
  then have "ctl_inv R c'" using processRequestOutsideDialog_inv [OF assms(8) _ run] by blast
  with run c' show ?thesis by blast
qed

theorem termination_reaches_carrier_witness:
  "\<exists>c' t. processRequestOutsideDialog (ex_env 1 2 5 2) 7 (ex_request sip_method_invite ''10.0.1.1'') ex_controller =
      Ret (0, c') \<and> termination_up c' 7 5 1 2 t \<and> ta_nAttemptCount t = 0"
proof -
  have "getCarrier (c_config ex_controller) ''10.0.1.1'' = None" "isAppserver (c_fsMonitor ex_controller) ''10.0.1.1''"
    by (simp_all add: ex_controller_simps ex_config_def getCarrier_def isAppserver_def)
  from termination_reaches_carrier [OF ex_invite this ex_routable ex_controller_inv ex_call_env ex_routes_fit, of 1 2 5 2 7]
  show ?thesis by auto
qed

section \<open>Responses\<close>

text \<open>A call that waits for its final response: an origination, or a termination with its attempt.\<close>

definition call_waiting :: "controller \<Rightarrow> nat \<Rightarrow> nat \<Rightarrow> nat \<Rightarrow> nat \<Rightarrow> TerminationAttempt option \<Rightarrow> nat \<Rightarrow> bool" where
  "call_waiting c irq orq a b t p \<longleftrightarrow>
     (case t of None \<Rightarrow> origination_up c irq orq a b p
      | Some t \<Rightarrow> termination_up c irq orq a b t \<and> ta_pCdr t = Some p)"

lemma call_waiting_start:
  assumes "ctl_inv R c" "call_waiting c irq orq a b t p" "response_env env irq a b"
  obtains d where "call_up c irq orq a b"
    "response_start env orq c = Ret \<lparr>x_orq = orq, x_irq = irq, x_outgoing_leg = b, x_a_leg = a,
       x_attempt = t, x_pDialog = d, x_pCdr = p\<rparr>"
proof (cases t)
  case None
  then show ?thesis using assms that response_start_origination [OF assms(1) _ assms(3), of orq p]
    by (auto simp: call_waiting_def origination_up_def)
next
  case (Some t')
  then show ?thesis using assms that response_start_termination [OF assms(1) _ assms(3), of orq t']
    by (auto simp: call_waiting_def termination_up_def)
qed

text \<open>The record that a final response leaves: of the call or of the attempt.\<close>

definition response_record :: "TerminationAttempt option \<Rightarrow> time_t \<Rightarrow> u32 \<Rightarrow> CdrInfo \<Rightarrow> CdrInfo" where
  "response_record t now status cdr =
     setCdrType (if t = None then origination_final_response else termination_attempt)
       (populateFinalResponseCdr now status cdr)"

text \<open>
  C6. A failure that is not retried ends the call: the response is passed to the caller, with the
  carrier and trunk of the attempt in the headers if the call is a termination, the call is removed
  from all tables while every other call stays as it is, and one record with the status is posted.
\<close>

theorem failed_call_removed:
  assumes "ctl_inv R c" and "call_waiting c irq orq a b t p" and "response_env env irq a b"
    and "sip_status sip = Some (status, phrase)" and "passed_on t status (c_nTerminationRetries c)"
  shows "\<exists>c' as. processInviteResponseInsideDialog env orq sip c = Ret (0, c') \<and> call_removed c irq orq a b c' \<and>
    c_out c' = c_out c @ as \<and> TReply irq status (Some sip) (carrier_headers t) \<in> set as \<and>
    c_posted c' = (if c_cdrWriter c then c_posted c @ [c_next_cdr c] else c_posted c) \<and>
    c_cdrs c' (c_next_cdr c) = response_record t (env_now env) (word_of_int status) (c_cdrs c p)"
proof -
  obtain d where up: "call_up c irq orq a b" and start: "response_start env orq c = Ret \<lparr>x_orq = orq, x_irq = irq,
      x_outgoing_leg = b, x_a_leg = a, x_attempt = t, x_pDialog = d, x_pCdr = p\<rparr>" (is "_ = Ret ?x")
    by (rule call_waiting_start [OF assms(1-3)])
  have x: "x_irq ?x = irq" "x_outgoing_leg ?x = b" "x_pCdr ?x = p" "passed_on (x_attempt ?x) status (c_nTerminationRetries c)"
    using assms(5) by simp_all
  obtain c' as where "processInviteResponseInsideDialog env orq sip c = Ret (0, c')"
    "call_removed c irq orq a b c'" "c_out c' = c_out c @ as"
    "TReply irq status (Some sip) (carrier_headers (x_attempt ?x)) \<in> set as"
    "c_posted c' = (if c_cdrWriter c then c_posted c @ [c_next_cdr c] else c_posted c)"
    "c_cdrs c' (c_next_cdr c) = setCdrType
      (if x_attempt ?x = None then origination_final_response else termination_attempt)
      (populateFinalResponseCdr (env_now env) (word_of_int status) (c_cdrs c p))"
    by (rule failed_call [OF assms(1) up start x(1-3) assms(4) x(4)])
  then show ?thesis by (intro exI [of _ c'] exI [of _ as]) (simp add: response_record_def)
qed

theorem failed_call_removed_witness:
  "\<exists>c c'. origination_up c 7 5 1 2 0 \<and>
     processInviteResponseInsideDialog (ex_env 1 2 5 2) 5 (ex_response 486) c = Ret (0, c') \<and> call_removed c 7 5 1 2 c'"
proof -
  obtain c where c: "ctl_inv 3 c" "origination_up c 7 5 1 2 0" by (rule ex_origination)
  have "call_waiting c 7 5 1 2 None 0" "sip_status (ex_response 486) = Some (486, ''phrase'')"
    "passed_on None 486 (c_nTerminationRetries c)"
    using c by (simp_all add: call_waiting_def ex_response_def passed_on_def)
  from failed_call_removed [OF c(1) this(1) ex_response_env this(2,3), of 2 5] c(2) show ?thesis by blast
qed

text \<open>
  C5. A 503 or 480 from a carrier is retried while attempts are left, if the number leaves room for
  the address of every route in its buffer: over a valid route of a carrier that differs from the failed one whenever another is configured, a new INVITE is sent and
  takes the place of the failed one in all tables, the count of attempts goes up by one and stays
  below the limit, the caller hears nothing, and a record of the failed attempt is posted.
\<close>

theorem crankback_next_carrier:
  assumes "ctl_inv R c" and "termination_up c irq orq a b t" and "response_env env irq a b"
    and "sip_status sip = Some (status, phrase)" and "status = 503 \<or> status = 480"
    and "ta_nAttemptCount t < c_nTerminationRetries c - 1" and "0 < c_nTerminationRetries c"
    and "routable (c_config c)" and "env_b_leg env = Some bNew" and "env_orq env = Some (orqNew, callId)"
    and "bm_right (c_transactions c) orqNew = None" and "fresh_leg (c_dialogs c) bNew" and "to_user sip = Ret user"
    and fit: "routes_fit (c_config c) user"
  shows "\<exists>c' t' p charge. processInviteResponseInsideDialog env orq sip c = Ret (0, c') \<and>
    termination_up c' irq orqNew a bNew t' \<and> ta_pCdr t = Some p \<and>
    valid_route (c_config c) (ta_sipTrunk t', ta_carrier t', charge) \<and>
    ((\<exists>n \<in> fst ` set (m_mapTerminationCarrierByName (c_config c)). n \<noteq> ta_carrier t) \<longrightarrow> ta_carrier t' \<noteq> ta_carrier t) \<and>
    ta_nAttemptCount t' = ta_nAttemptCount t + 1 \<and> ta_nAttemptCount t' < c_nTerminationRetries c \<and>
    c_out c' = c_out c @ [invite_of c orqNew bNew t', DestroyOutgoing orq, DestroyLeg b] \<and>
    c_posted c' = (if c_cdrWriter c then c_posted c @ [c_next_cdr c] else c_posted c) \<and>
    c_cdrs c' (c_next_cdr c) = response_record (Some t) (env_now env) (word_of_int status) (c_cdrs c p)"
proof -
  obtain rt cfg where rt: "getTerminationRouteForAltCarrier (c_config c) (ta_carrier t) = Ret (Some rt, cfg)"
    and ok: "valid_route (c_config c) rt"
      "(\<exists>n \<in> fst ` set (m_mapTerminationCarrierByName (c_config c)). n \<noteq> ta_carrier t) \<longrightarrow> fst (snd rt) \<noteq> ta_carrier t"
    by (rule getTerminationRouteForAltCarrier_ok [OF assms(8)])
  obtain c' p where c': "processInviteResponseInsideDialog env orq sip c = Ret (0, c')" "ta_pCdr t = Some p"
    "termination_up c' irq orqNew a bNew (next_attempt user rt t)"
    "c_out c' = c_out c @ [invite_of c orqNew bNew (next_attempt user rt t), DestroyOutgoing orq, DestroyLeg b]"
    "c_posted c' = (if c_cdrWriter c then c_posted c @ [c_next_cdr c] else c_posted c)"
    "c_cdrs c' (c_next_cdr c) = setCdrType termination_attempt
      (populateFinalResponseCdr (env_now env) (word_of_int status) (c_cdrs c p))"
    by (rule cranked_back_call [OF assms(1-6) rt assms(9-13) routes_fitD [OF fit ok(1)]])
  let ?t = "next_attempt user rt t"
  have "ta_sipTrunk ?t = fst rt" "ta_carrier ?t = fst (snd rt)" "ta_nAttemptCount ?t = ta_nAttemptCount t + 1"
    by (simp_all add: next_attempt_def split_beta)
  moreover have "ta_nAttemptCount t + 1 < c_nTerminationRetries c" using word_pred_less [OF assms(7,6)] .
  ultimately show ?thesis using c' ok
    by (intro exI [of _ c'] exI [of _ ?t] exI [of _ p] exI [of _ "snd (snd rt)"]) (simp add: response_record_def)
qed

theorem crankback_next_carrier_witness:
  "\<exists>c t c' t'. termination_up c 7 5 1 2 t \<and>
     processInviteResponseInsideDialog (ex_env 1 3 6 2) 5 (ex_response 503) c = Ret (0, c') \<and>
     termination_up c' 7 6 1 3 t' \<and> ta_nAttemptCount t' = 1"
proof -
  obtain c t where c: "ctl_inv 3 c" "termination_up c 7 5 1 2 t" "ta_nAttemptCount t = 0" "routable (c_config c)"
    "c_nTerminationRetries c = 3" "c_transactions c = [(7, 5)]" "c_dialogs c = [(1, 2)]"
    "routes_fit (c_config c) ''5551212''" by (rule ex_termination)
  have h: "sip_status (ex_response 503) = Some (503, ''phrase'')" "(503 :: int) = 503 \<or> (503 :: int) = 480"
    "ta_nAttemptCount t < c_nTerminationRetries c - 1" "0 < c_nTerminationRetries c"
    "env_b_leg (ex_env 1 3 6 2) = Some 3" "env_orq (ex_env 1 3 6 2) = Some (6, ''bcid'')"
    "bm_right (c_transactions c) 6 = None" "fresh_leg (c_dialogs c) 3" "to_user (ex_response 503) = Ret ''5551212''"
    using c by (simp_all add: ex_response_def ex_env_def bm_right_def bm_left_def fresh_leg_def to_user_def ex_request_def ex_addr_def)
  obtain c' t' where "processInviteResponseInsideDialog (ex_env 1 3 6 2) 5 (ex_response 503) c = Ret (0, c')"
    "termination_up c' 7 6 1 3 t'" "ta_nAttemptCount t' = ta_nAttemptCount t + 1"
    using crankback_next_carrier [OF c(1,2) ex_response_env h(1-4) c(4) h(5-9) c(8)] by blast
  with c(2,3) show ?thesis by auto
qed

text \<open>
  C8. A 200 connects the call: an ACK goes to the answering side, the 200 to the caller, the INVITE
  is over while the dialog stays, an attempt is no longer waiting, and a record with the time of the
  connection is posted.
\<close>

theorem answered_call_connected:
  assumes "ctl_inv R c" and "call_waiting c irq orq a b t p" and "response_env env irq a b"
    and "sip_status sip = Some (200, phrase)" and "sip_to sip \<noteq> None" and "sip_contact sip \<noteq> None"
    and "sip_payload sip \<noteq> None"
  shows "\<exists>c' as hdrs. processInviteResponseInsideDialog env orq sip c = Ret (0, c') \<and> call_answered c irq orq a c' \<and>
    c_out c' = c_out c @ as \<and> OutgoingAck b \<in> set as \<and> TReply irq 200 (Some sip) hdrs \<in> set as \<and>
    set (carrier_headers t) \<subseteq> set hdrs \<and>
    c_posted c' = (if c_cdrWriter c then c_posted c @ [c_next_cdr c] else c_posted c) \<and>
    c_cdrs c' (c_next_cdr c) = response_record t (env_now env) 200 (c_cdrs c p)"
proof -
  obtain d where up: "call_up c irq orq a b" and start: "response_start env orq c = Ret \<lparr>x_orq = orq, x_irq = irq,
      x_outgoing_leg = b, x_a_leg = a, x_attempt = t, x_pDialog = d, x_pCdr = p\<rparr>" (is "_ = Ret ?x")
    by (rule call_waiting_start [OF assms(1-3)])
  have x: "x_irq ?x = irq" "x_outgoing_leg ?x = b" "x_a_leg ?x = a" "x_pCdr ?x = p"
    "x_attempt ?x = None \<longrightarrow> sip_payload sip \<noteq> None" using assms(7) by simp_all
  obtain c' as hdrs where "processInviteResponseInsideDialog env orq sip c = Ret (0, c')"
    "call_answered c irq orq a c'" "c_out c' = c_out c @ as" "OutgoingAck b \<in> set as"
    "TReply irq 200 (Some sip) hdrs \<in> set as" "set (carrier_headers (x_attempt ?x)) \<subseteq> set hdrs"
    "c_posted c' = (if c_cdrWriter c then c_posted c @ [c_next_cdr c] else c_posted c)"
    "c_cdrs c' (c_next_cdr c) = setCdrType
      (if x_attempt ?x = None then origination_final_response else termination_attempt)
      (populateFinalResponseCdr (env_now env) 200 (c_cdrs c p))"
    by (rule answered_call [OF assms(1) up start x(1-4) assms(4-6) x(5)])
  then show ?thesis
    by (intro exI [of _ c'] exI [of _ as] exI [of _ hdrs]) (simp add: response_record_def)
qed

lemma ex_200: "sip_status (ex_response 200) = Some (200, ''phrase'')" "sip_to (ex_response 200) \<noteq> None"
  "sip_contact (ex_response 200) \<noteq> None" "sip_payload (ex_response 200) \<noteq> None"
  by (simp_all add: ex_response_def ex_request_def)

theorem answered_call_connected_witness:
  "\<exists>c c'. origination_up c 7 5 1 2 0 \<and>
     processInviteResponseInsideDialog (ex_env 1 2 5 2) 5 (ex_response 200) c = Ret (0, c') \<and> call_answered c 7 5 1 c'"
proof -
  obtain c where c: "ctl_inv 3 c" "origination_up c 7 5 1 2 0" by (rule ex_origination)
  have "call_waiting c 7 5 1 2 None 0" using c by (simp add: call_waiting_def)
  from answered_call_connected [OF c(1) this ex_response_env ex_200, of 2 5] c(2) show ?thesis by blast
qed

section \<open>The end of a call\<close>

text \<open>
  C9. A BYE from either side of an origination ends the call: the other side gets a BYE, the sender
  a 200, the dialog and what was known of its legs are gone while transactions and attempts stay,
  and the record of the call is posted with the end time and the side that released it.
\<close>

theorem bye_ends_call:
  assumes "ctl_inv R c" and "bm_left (c_dialogs c) a = Some b"
    and "map_of (c_mapDialogInfo c) a = Some d" and "di_bOrigination d" and "di_pCdr d = Some p"
    and "(leg, other) = (a, b) \<or> (leg, other) = (b, a)" and "sip_request sip = Some sip_method_bye"
  shows "\<exists>c' as. processRequestInsideDialog env leg irq sip c = Ret (200, c') \<and> dialog_gone c a b c' \<and>
    c_out c' = c_out c @ as \<and> OutgoingBye other \<in> set as \<and> DestroyLeg a \<in> set as \<and> DestroyLeg b \<in> set as \<and>
    c_posted c' = (if c_cdrWriter c then c_posted c @ [p] else c_posted c) \<and>
    cdr_cdrType (c_cdrs c' p) = call_cleared \<and> cdr_tmEnd (c_cdrs c' p) = env_now env \<and>
    cdr_releaseCause (c_cdrs c' p) = (if leg = a then calling_party_release else called_party_release)"
proof -
  obtain c' as where "processRequestInsideDialog env leg irq sip c = Ret (200, c')" "dialog_gone c a b c'"
    "c_out c' = c_out c @ as" "OutgoingBye other \<in> set as" "DestroyLeg a \<in> set as" "DestroyLeg b \<in> set as"
    "c_posted c' = (if c_cdrWriter c then c_posted c @ [p] else c_posted c)"
    "c_cdrs c' = (c_cdrs c)(p := populateByeCdr (env_now env) (leg = a) (c_cdrs c p))"
    by (rule bye_call [OF assms])
  then show ?thesis
    by (intro exI [of _ c'] exI [of _ as]) (simp add: populateByeCdr_def cdr_set)
qed

theorem bye_ends_call_witness:
  "\<exists>c c'. origination_up c 7 5 1 2 0 \<and>
     processRequestInsideDialog (ex_env 1 2 5 2) 2 8 (ex_request sip_method_bye ''10.0.1.1'') c = Ret (200, c') \<and>
     dialog_gone c 1 2 c' \<and> cdr_releaseCause (c_cdrs c' 0) = called_party_release"
proof -
  obtain c where c: "ctl_inv 3 c" "origination_up c 7 5 1 2 0" by (rule ex_origination)
  then obtain d where d: "bm_left (c_dialogs c) 1 = Some 2" "map_of (c_mapDialogInfo c) 1 = Some d" "di_bOrigination d"
    "di_pCdr d = Some 0" by (auto simp: origination_up_def call_up_def)
  have "(2 :: nat, 1 :: nat) = (1, 2) \<or> (2 :: nat, 1 :: nat) = (2, 1)" by simp
  moreover have "sip_request (ex_request sip_method_bye ''10.0.1.1'') = Some sip_method_bye" by (simp add: ex_request_def)
  ultimately show ?thesis using bye_ends_call [OF c(1) d, of 2 1 _ "ex_env 1 2 5 2" 8] c(2) by fastforce
qed

text \<open>
  C10. A CANCEL from the caller ends a call that waits for its answer: the outgoing INVITE is
  cancelled and the call is removed from all tables; the record of an origination is closed as
  cancelled and posted, for a termination a record of the attempt with status 487 is posted.
\<close>

theorem cancel_ends_call:
  assumes inv: "ctl_inv R c" and wait: "call_waiting c irq orq a b t p" and "env_leg_of_irq env irq = Some a"
    and "sip_request sip = Some sip_method_cancel"
  shows "\<exists>c' as q. processAckOrCancel env irq sip c = Ret (0, c') \<and> call_removed c irq orq a b c' \<and>
    c_out c' = c_out c @ as \<and> OutgoingCancel orq \<in> set as \<and>
    q = (if t = None then p else c_next_cdr c) \<and>
    c_posted c' = (if c_cdrWriter c then c_posted c @ [q] else c_posted c) \<and>
    c_cdrs c' q = (if t = None then populateCancelCdr (env_now env) (c_cdrs c p)
      else response_record t (env_now env) 487 (c_cdrs c p))"
proof -
  have up: "call_up c irq orq a b" using wait by (auto simp: call_waiting_def origination_up_def termination_up_def split: option.splits)
  let ?q = "if t = None then p else c_next_cdr c"
  obtain c1 where cdr: "cancel_cdr env orq a c = Ret c1" and c1: "same_tables c c1" "c_out c1 = c_out c"
    "c_posted c1 = (if c_cdrWriter c then c_posted c @ [?q] else c_posted c)"
    "c_cdrs c1 ?q = (if t = None then populateCancelCdr (env_now env) (c_cdrs c p)
      else response_record t (env_now env) 487 (c_cdrs c p))"
  proof (cases t)
    case None
    then show ?thesis using that wait cancel_cdr_origination [of c irq orq a b p env] by (simp add: call_waiting_def)
  next
    case (Some t')
    then show ?thesis using that wait cancel_cdr_termination [of c irq orq a b t' p env]
      by (simp add: call_waiting_def response_record_def)
  qed
  obtain c' as where "processAckOrCancel env irq sip c = Ret (0, c')" "call_removed c irq orq a b c'"
    "c_out c' = c_out c @ as" "OutgoingCancel orq \<in> set as" "c_posted c' = c_posted c1" "c_cdrs c' = c_cdrs c1"
    by (rule cancel_call [OF inv up assms(3,4) cdr c1(1,2)])
  with c1 show ?thesis by (intro exI [of _ c'] exI [of _ as] exI [of _ ?q]) simp
qed

theorem cancel_ends_call_witness:
  "\<exists>c c'. origination_up c 7 5 1 2 0 \<and>
     processAckOrCancel (ex_env 1 2 5 2) 7 (ex_request sip_method_cancel ''10.0.0.9'') c = Ret (0, c') \<and>
     call_removed c 7 5 1 2 c'"
proof -
  obtain c where c: "ctl_inv 3 c" "origination_up c 7 5 1 2 0" by (rule ex_origination)
  have "call_waiting c 7 5 1 2 None 0" "env_leg_of_irq (ex_env 1 2 5 2) 7 = Some 1"
    "sip_request (ex_request sip_method_cancel ''10.0.0.9'') = Some sip_method_cancel"
    using c by (simp_all add: call_waiting_def ex_env_def ex_request_def)
  from cancel_ends_call [OF c(1) this] c(2) show ?thesis by blast
qed

section \<open>Every reachable state\<close>

text \<open>
  C1. In every state the controller can reach from its start, transactions and dialogs are paired
  one to one, every waiting attempt belongs to a transaction and has been made fewer times than the
  largest number of attempts any configuration in use allows, everything known of a leg belongs to
  a dialog, and so with no transaction there is no attempt and with no dialog no leg left behind.
\<close>

theorem call_tables_invariant:
  assumes run: "run_agent my version (SipLbController_new cfg iterations) = Ret (acts, c0)"
    and reach: "ctl_reachable R c0 c"
    and start: "0 < R \<longrightarrow> 0 < min (getCountOfOutboundTrunks cfg) (m_nMaxTerminationAttempts cfg) \<and>
      min (getCountOfOutboundTrunks cfg) (m_nMaxTerminationAttempts cfg) \<le> R"
  shows "bm_wf (c_transactions c) \<and> bm_wf (c_dialogs c) \<and>
    (\<forall>orq t. map_of (c_mapTerminationAttempts c) orq = Some t \<longrightarrow>
       bm_right (c_transactions c) orq \<noteq> None \<and> (0 < R \<longrightarrow> ta_nAttemptCount t < R)) \<and>
    (\<forall>leg d. map_of (c_mapDialogInfo c) leg = Some d \<longrightarrow>
       (if di_bOrigination d then bm_left (c_dialogs c) leg else bm_right (c_dialogs c) leg) \<noteq> None) \<and>
    (c_transactions c = [] \<longrightarrow> c_mapTerminationAttempts c = []) \<and> (c_dialogs c = [] \<longrightarrow> c_mapDialogInfo c = [])"
proof -
  have inv: "ctl_inv R c" using ctl_reachable_inv [OF reach run_agent_inv [OF SipLbController_new_inv [OF start] run]] .
  have att: "attempt_ok R (c_next_cdr c) (c_transactions c) orq t" if "map_of (c_mapTerminationAttempts c) orq = Some t" for orq t
    using that inv by (auto simp: ctl_inv_def tables_ok_def assoc_lookup)
  have info: "info_ok (c_next_cdr c) (c_dialogs c) leg d" if "map_of (c_mapDialogInfo c) leg = Some d" for leg d
    using that inv by (auto simp: ctl_inv_def tables_ok_def assoc_lookup)
  have "c_mapTerminationAttempts c = []" if "c_transactions c = []"
    using att [of "fst (hd (c_mapTerminationAttempts c))"] that
    by (cases "c_mapTerminationAttempts c") (auto simp: attempt_ok_def bm_right_def)
  moreover have "c_mapDialogInfo c = []" if "c_dialogs c = []"
    using info [of "fst (hd (c_mapDialogInfo c))"] that
    by (cases "c_mapDialogInfo c") (auto simp: info_ok_def bm_right_def bm_left_def split: if_splits)
  moreover have "(if di_bOrigination d then bm_left (c_dialogs c) leg else bm_right (c_dialogs c) leg) \<noteq> None"
    if "map_of (c_mapDialogInfo c) leg = Some d" for leg d
    using info [OF that] unfolding info_ok_def by argo
  moreover have "bm_right (c_transactions c) orq \<noteq> None \<and> (0 < R \<longrightarrow> ta_nAttemptCount t < R)"
    if "map_of (c_mapTerminationAttempts c) orq = Some t" for orq t
    using att [OF that] unfolding attempt_ok_def by blast
  ultimately show ?thesis using ctl_inv_dialogs(2,3) [OF inv] by blast
qed

theorem call_tables_invariant_witness:
  "\<exists>my c0 c. run_agent my ''1.0'' (SipLbController_new ex_config (- 1)) = Ret ([], c0) \<and> ctl_reachable 3 c0 c \<and>
     c_mapDialogInfo c \<noteq> [] \<and> bm_wf (c_dialogs c) \<and> c_dialogs c \<noteq> []"
proof -
  obtain c' where run: "processRequestOutsideDialog (ex_env 1 2 5 2) 7 (ex_request sip_method_invite ''10.0.0.9'') ex_controller =
      Ret (0, c')" and up: "origination_up c' 7 5 1 2 (c_next_cdr ex_controller)"
    by (rule accepted_origination [OF ex_invite(1-3) ex_accepted ex_controller_inv ex_call_env, of 1 2 5 2 7])
      (use ex_chosen_fits in \<open>simp_all add: ex_env_def\<close>)
  obtain c0 where start: "run_agent (c_my ex_controller) ''1.0'' (SipLbController_new ex_config (- 1)) = Ret ([], c0)"
    and c0: "c0\<lparr>c_fsMonitor := c_fsMonitor ex_controller, c_mapTrunkStats := []\<rparr> = ex_controller"
    by (rule ex_start)
  have "ctl_reachable 3 c0 ex_controller"
    using ctl_reachable.step [OF ctl_reachable.initial ctl_step.outside, of 3 c0 "[]" "c_fsMonitor ex_controller"]
    by (simp only: c0)
  then have reach: "ctl_reachable 3 c0 c'"
    using ctl_reachable.step ctl_step.new_request [OF ex_fresh_call run] by simp
  have retries: "0 < (3 :: u32) \<longrightarrow> 0 < min (getCountOfOutboundTrunks ex_config) (m_nMaxTerminationAttempts ex_config) \<and>
      min (getCountOfOutboundTrunks ex_config) (m_nMaxTerminationAttempts ex_config) \<le> 3"
    using ex_retries by (simp add: ex_controller_simps)
  have "c_mapDialogInfo c' \<noteq> []" using up by (auto simp: origination_up_def)
  with start reach call_tables_invariant [OF start reach retries] show ?thesis by blast
qed

end
