(* ===== verification/Call_Refinement.thy ===== *)
theory Call_Refinement
  imports Call_Theorems
begin

text \<open>
  What the controller promises as a switch, without its tables, records and timers: calls are pairs
  of legs, requests under way are pairs of transactions, and every event does one of a few things
  to them and sends messages only on the legs it is about. The handlers of \<open>SipLbController\<close>
  refine this specification.
\<close>

section \<open>The specification\<close>

text \<open>
  Calls lead from the leg of the caller to the leg of the called side, requests from the incoming
  transaction to the outgoing one that waits for its final answer.
\<close>

record switchboard =
  sb_calls :: "nat \<rightharpoonup> nat"
  sb_requests :: "nat \<rightharpoonup> nat"

definition sb_new_leg :: "switchboard \<Rightarrow> nat \<Rightarrow> bool" where
  "sb_new_leg s l \<longleftrightarrow> l \<notin> dom (sb_calls s) \<and> l \<notin> ran (sb_calls s)"

definition sb_new_request :: "switchboard \<Rightarrow> nat \<Rightarrow> nat \<Rightarrow> bool" where
  "sb_new_request s irq orq \<longleftrightarrow> irq \<notin> dom (sb_requests s) \<and> orq \<notin> ran (sb_requests s)"

text \<open>One event; the set has the legs on which a message is sent.\<close>

inductive sb_step :: "switchboard \<Rightarrow> nat set \<Rightarrow> switchboard \<Rightarrow> bool" where
  idle: "sb_step s {} s"
| message: "sb_step s {l} s"
| placed: "sb_new_leg s a \<Longrightarrow> sb_new_leg s b \<Longrightarrow> a \<noteq> b \<Longrightarrow> sb_new_request s irq orq \<Longrightarrow>
    sb_step s {b} (s\<lparr>sb_calls := (sb_calls s)(a \<mapsto> b), sb_requests := (sb_requests s)(irq \<mapsto> orq)\<rparr>)"
| rerouted: "sb_calls s a = Some b \<Longrightarrow> sb_requests s irq = Some orq \<Longrightarrow> sb_new_leg s b' \<Longrightarrow>
    orq' \<notin> ran (sb_requests s) \<Longrightarrow>
    sb_step s {b'} (s\<lparr>sb_calls := (sb_calls s)(a \<mapsto> b'), sb_requests := (sb_requests s)(irq \<mapsto> orq')\<rparr>)"
| answered: "sb_requests s irq = Some orq \<Longrightarrow> L = {} \<or> L = {l} \<Longrightarrow>
    sb_step s L (s\<lparr>sb_requests := (sb_requests s)(irq := None)\<rparr>)"
| refused: "sb_calls s a = Some b \<Longrightarrow> sb_requests s irq = Some orq \<Longrightarrow>
    sb_step s {} (s\<lparr>sb_calls := (sb_calls s)(a := None), sb_requests := (sb_requests s)(irq := None)\<rparr>)"
| hung_up: "sb_calls s a = Some b \<Longrightarrow> L = {} \<or> L = {a} \<or> L = {b} \<Longrightarrow>
    sb_step s L (s\<lparr>sb_calls := (sb_calls s)(a := None)\<rparr>)"
| relayed: "sb_calls s a = Some b \<Longrightarrow> l = a \<or> l = b \<Longrightarrow> sb_new_request s irq orq \<Longrightarrow>
    sb_step s {l} (s\<lparr>sb_requests := (sb_requests s)(irq \<mapsto> orq)\<rparr>)"

inductive sb_reachable :: "switchboard \<Rightarrow> bool" where
  empty: "sb_reachable \<lparr>sb_calls = Map.empty, sb_requests = Map.empty\<rparr>"
| step: "sb_reachable s \<Longrightarrow> sb_step s L s' \<Longrightarrow> sb_reachable s'"

text \<open>In the specification no leg is in two calls, or on both sides of one.\<close>

definition one_to_one :: "(nat \<rightharpoonup> nat) \<Rightarrow> bool" where
  "one_to_one m \<longleftrightarrow> (\<forall>x x' y. m x = Some y \<and> m x' = Some y \<longrightarrow> x = x')"

definition sides_apart :: "(nat \<rightharpoonup> nat) \<Rightarrow> bool" where
  "sides_apart m \<longleftrightarrow> (\<forall>x y. m x = Some y \<longrightarrow> m y = None)"

lemma one_to_one_upd: "one_to_one m \<Longrightarrow> y \<notin> ran m \<Longrightarrow> one_to_one (m(x \<mapsto> y))"
  by (auto simp: one_to_one_def ran_def)

lemma one_to_one_drop: "one_to_one m \<Longrightarrow> one_to_one (m(x := None))"
  by (auto simp: one_to_one_def)

lemma sides_apart_upd: "sides_apart m \<Longrightarrow> x \<notin> ran m \<Longrightarrow> y \<notin> dom m \<Longrightarrow> x \<noteq> y \<Longrightarrow> sides_apart (m(x \<mapsto> y))"
  by (auto simp: sides_apart_def ran_def dom_def)

lemma sides_apart_drop: "sides_apart m \<Longrightarrow> sides_apart (m(x := None))"
  by (auto simp: sides_apart_def)

lemma sb_step_sides:
  assumes "sb_step s L s'" "one_to_one (sb_calls s)" "sides_apart (sb_calls s)" "one_to_one (sb_requests s)"
  shows "one_to_one (sb_calls s') \<and> sides_apart (sb_calls s') \<and> one_to_one (sb_requests s')"
  using assms
proof cases
  case (rerouted a b irq orq b' orq')
  then have "a \<notin> ran (sb_calls s)" "a \<noteq> b'" using assms(3) by (auto simp: sides_apart_def sb_new_leg_def ran_def)
  then show ?thesis using rerouted assms(2-) by (auto simp: sb_new_leg_def intro: one_to_one_upd sides_apart_upd)
qed (auto simp: sb_new_leg_def sb_new_request_def
  intro: one_to_one_upd one_to_one_drop sides_apart_upd sides_apart_drop)

section \<open>The controller as a switch\<close>

definition sb :: "controller \<Rightarrow> switchboard" where
  "sb c = \<lparr>sb_calls = bm_left (c_dialogs c), sb_requests = bm_left (c_transactions c)\<rparr>"

text \<open>The legs on which an action sends a message.\<close>

fun legs_used :: "nta_action \<Rightarrow> nat set" where
  "legs_used (OutgoingInvite orq leg url sip hdrs) = {leg}"
| "legs_used (OutgoingAck leg) = {leg}"
| "legs_used (OutgoingBye leg) = {leg}"
| "legs_used (OutgoingRequest orq leg sip) = {leg}"
| "legs_used _ = {}"

definition sends :: "controller \<Rightarrow> nat set \<Rightarrow> controller \<Rightarrow> bool" where
  "sends c L c' \<longleftrightarrow> (\<exists>as. c_out c' = c_out c @ as \<and> \<Union> (legs_used ` set as) = L)"

text \<open>Neither table of pairs has changed.\<close>

definition settled :: "controller \<Rightarrow> nat set \<Rightarrow> controller \<Rightarrow> bool" where
  "settled c L c' \<longleftrightarrow> c_transactions c' = c_transactions c \<and> c_dialogs c' = c_dialogs c \<and> sends c L c'"

lemma sends_refl: "sends c {} c"
  by (simp add: sends_def)

lemma sends_trans: "sends c L c1 \<Longrightarrow> sends c1 M c2 \<Longrightarrow> sends c (L \<union> M) c2"
  by (fastforce simp: sends_def)

lemma sends_emit: "sends c L c1 \<Longrightarrow> sends c (L \<union> \<Union> (legs_used ` set as)) (emit as c1)"
  by (fastforce simp: sends_def)

lemma settled_refl [simp]: "settled c {} c"
  by (simp add: settled_def sends_refl)

lemma settled_trans: "settled c L c1 \<Longrightarrow> settled c1 M c2 \<Longrightarrow> settled c (L \<union> M) c2"
  using sends_trans [of c L c1 M c2] by (simp add: settled_def)

lemma settled_sb: "settled c L c' \<Longrightarrow> sb c' = sb c"
  by (simp add: settled_def sb_def)

lemma new_leg_sb:
  assumes "ctl_inv R c" "fresh_leg (c_dialogs c) l"
  shows "sb_new_leg (sb c) l"
  using assms bm.agree [OF ctl_inv_dialogs(2) [OF assms(1)]]
  by (auto simp: sb_new_leg_def sb_def fresh_leg_def ran_def)

lemma not_ran_requests: "ctl_inv R c \<Longrightarrow> bm_right (c_transactions c) orq = None \<Longrightarrow> orq \<notin> ran (sb_requests (sb c))"
  using bm.agree [OF ctl_inv_dialogs(3)] by (fastforce simp: sb_def ran_def)

lemma settled_frame [simp]:
  "settled c L (c'\<lparr>c_nIterationCount := k\<rparr>) = settled c L c'"
  "settled c L (post_cdr p c') = settled c L c'" "settled c L (update_cdr p f c') = settled c L c'"
  "settled c L (post_new_cdr cdr c') = settled c L c'" "settled c L (c'\<lparr>c_mapTrunkStats := ts\<rparr>) = settled c L c'"
  "settled c L (c'\<lparr>c_config := cfg\<rparr>) = settled c L c'" "settled c L (store_attempt orq t c') = settled c L c'"
  by (simp_all add: settled_def sends_def store_attempt_def)

text \<open>The pairs of a new call are entered in both tables.\<close>

definition entered :: "nta_env \<Rightarrow> nat \<Rightarrow> controller \<Rightarrow> controller \<Rightarrow> bool" where
  "entered env irq c c' \<longleftrightarrow> (\<exists>a b orq i. env_a_leg env = Some a \<and> env_b_leg env = Some b \<and> env_orq env = Some (orq, i) \<and>
     c_transactions c' = bm_insert irq orq (c_transactions c) \<and> c_dialogs c' = bm_insert a b (c_dialogs c) \<and> sends c {b} c')"

lemma entered_frame [simp]: "entered env irq c (c'\<lparr>c_nIterationCount := k\<rparr>) = entered env irq c c'"
  by (simp add: entered_def sends_def)

lemma entered_step:
  assumes inv: "ctl_inv R c" and fr: "fresh_call env irq c" and ent: "entered env irq c c'"
  shows "\<exists>L. sb_step (sb c) L (sb c') \<and> sends c L c'"
proof -
  obtain a b orq i where e: "env_a_leg env = Some a" "env_b_leg env = Some b" "env_orq env = Some (orq, i)"
    "c_transactions c' = bm_insert irq orq (c_transactions c)" "c_dialogs c' = bm_insert a b (c_dialogs c)" "sends c {b} c'"
    using ent by (auto simp: entered_def)
  have f: "fresh_leg (c_dialogs c) a" "fresh_leg (c_dialogs c) b" "a \<noteq> b" "bm_left (c_transactions c) irq = None"
    "bm_right (c_transactions c) orq = None"
    using fr e by (auto simp: fresh_call_def)
  have "sb_step (sb c) {b} ((sb c)\<lparr>sb_calls := (sb_calls (sb c))(a \<mapsto> b), sb_requests := (sb_requests (sb c))(irq \<mapsto> orq)\<rparr>)"
    using f new_leg_sb [OF inv] not_ran_requests [OF inv f(5)]
    by (intro placed) (auto simp: sb_new_request_def sb_def)
  moreover have "bm_left (c_transactions c') = (bm_left (c_transactions c))(irq \<mapsto> orq)"
    "bm_left (c_dialogs c') = (bm_left (c_dialogs c))(a \<mapsto> b)"
    using e(4,5) f bm.insert_new [OF ctl_inv_dialogs(3) [OF inv], of irq orq] bm.insert_new [OF ctl_inv_dialogs(2) [OF inv], of a b]
    by (simp_all add: fresh_leg_def)
  ultimately show ?thesis using e(6) by (auto simp: sb_def)
qed

section \<open>New requests\<close>

lemmas settled_simps = settled_def sends_def

lemma generate_settled:
  assumes "generateTerminationRequest env t c = Ret (res, c')"
  shows "settled c (case res of None \<Rightarrow> {} | Some (orq, b) \<Rightarrow> {b}) c'"
  using assms by (auto simp: generateTerminationRequest_def outcome_iffs Let_def settled_simps split: option.splits)

lemma start_origination_moves:
  assumes "fresh_call env irq c" "start_origination env irq sip carrier p server c = Ret (rc, c')"
  shows "settled c {} c' \<or> entered env irq c c'"
  using assms
  by (auto simp: start_origination_def outcome_iffs Let_def reject_call_def settled_simps entered_def record_origination_def
    addDialogs_def addTransactions_def split: option.splits)

lemma processOriginationRequest_moves:
  assumes inv: "ctl_inv R c" and fr: "fresh_call env irq c"
    and run: "processOriginationRequest env irq sip carrier c = Ret (rc, c')"
  shows "settled c {} c' \<or> entered env irq c c'"
proof -
  obtain p c1 servers m where c1: "new_origination_cdr env sip carrier c = Ret (p, c1)"
    and run': "(case servers of [] \<Rightarrow> Ret (reject_call 486 call_rejected_due_to_system_error p (c1\<lparr>c_fsMonitor := m\<rparr>))
      | server # _ \<Rightarrow> start_origination env irq sip carrier p server (c1\<lparr>c_fsMonitor := m\<rparr>)) = Ret (rc, c')"
    using run by (auto simp: processOriginationRequest_def outcome_iffs Let_def split: prod.splits)
  let ?c = "c1\<lparr>c_fsMonitor := m\<rparr>"
  have same: "c_transactions ?c = c_transactions c" "c_dialogs ?c = c_dialogs c" "c_out ?c = c_out c"
    using c1 by (auto simp: new_origination_cdr_def make_cdr_def outcome_iffs)
  then have "fresh_call env irq ?c" using fr by (simp add: fresh_call_def)
  then have "settled ?c {} c' \<or> entered env irq ?c c'"
    using run' start_origination_moves [of env irq ?c] by (auto simp: reject_call_def settled_simps split: list.splits)
  then show ?thesis using same by (simp add: settled_simps entered_def)
qed

lemma start_termination_moves:
  assumes fr: "fresh_call env irq c" and run: "start_termination env irq sip rt c = Ret (rc, c')"
  shows "settled c {} c' \<or> entered env irq c c'"
proof -
  obtain a where a: "env_a_leg env = Some a" using fr by (auto simp: fresh_call_def)
  obtain cdr t res c2 where
    gen: "generateTerminationRequest env t (emit [BindAckOrCancel irq] (snd (make_cdr cdr c))) = Ret (res, c2)"
    and fin: "(case res of None \<Rightarrow> Ret (503, emit (if a = 0 then [] else [DestroyLeg a]) c2)
      | Some (orq, b) \<Rightarrow> deref (sip_payload sip) (\<lambda>sdp. Ret (0, record_termination irq orq a b t sdp c2))) = Ret (rc, c')"
    using run a by (cases rt) (auto simp: start_termination_def outcome_iffs make_cdr_def Let_def)
  have "settled c (case res of None \<Rightarrow> {} | Some (orq, b) \<Rightarrow> {b}) c2"
    using generate_settled [OF gen] by (auto simp: settled_simps make_cdr_def)
  moreover have "env_b_leg env = Some b \<and> (\<exists>i. env_orq env = Some (orq, i))" if "res = Some (orq, b)" for orq b
    using generateTerminationRequest_frame(8) [OF gen that] .
  ultimately have "res = None \<Longrightarrow> settled c {} c'" "res \<noteq> None \<Longrightarrow> entered env irq c c'" using fin a
    by (fastforce simp: settled_simps, fastforce simp: settled_simps entered_def record_termination_def addDialogs_def
      addTransactions_def deref_Ret_iff Let_def)
  then show ?thesis by blast
qed

lemma processTerminationRequest_moves:
  assumes fr: "fresh_call env irq c" and run: "processTerminationRequest env irq sip c = Ret (rc, c')"
  shows "settled c {} c' \<or> entered env irq c c'"
proof -
  obtain cfg rt where run': "(case rt of None \<Rightarrow> Ret (480, c\<lparr>c_config := cfg\<rparr>)
      | Some r \<Rightarrow> start_termination env irq sip r (c\<lparr>c_config := cfg\<rparr>)) = Ret (rc, c')"
    using run by (auto simp: processTerminationRequest_def outcome_iffs Let_def split: prod.splits)
  have "fresh_call env irq (c\<lparr>c_config := cfg\<rparr>)" using fr by (simp add: fresh_call_def)
  then have "settled (c\<lparr>c_config := cfg\<rparr>) {} c' \<or> entered env irq (c\<lparr>c_config := cfg\<rparr>) c'"
    using run' start_termination_moves [of env irq "c\<lparr>c_config := cfg\<rparr>"] by (cases rt) (auto simp: settled_simps)
  then show ?thesis by (simp add: settled_simps entered_def)
qed

lemma process_invite_moves:
  assumes inv: "ctl_inv R c" and fr: "fresh_call env irq c" and run: "process_invite env irq sip c = Ret (rc, c')"
  shows "settled c {} c' \<or> entered env irq c c'"
proof -
  let ?c = "emit [TReply irq 100 None []] c"
  obtain call_type carrier where ct: "determineCallType c sip = Ret (call_type, carrier)"
    using run by (auto simp: process_invite_def outcome_iffs)
  have inv1: "ctl_inv R ?c" and fr1: "fresh_call env irq ?c" using inv fr by (simp_all add: fresh_call_def)
  have new: "settled ?c {} c2" if "new_origination_cdr env sip carrier ?c = Ret (p, c2)" for p c2
    using that by (auto simp: new_origination_cdr_def make_cdr_def outcome_iffs settled_simps)
  note outbound = processTerminationRequest_moves [OF fr1]
  have "settled ?c {} c' \<or> entered env irq ?c c'"
  proof (cases call_type)
    case origination_call_type
    then show ?thesis using run processOriginationRequest_moves [OF inv1 fr1] new
      by (auto simp: process_invite_def ct outcome_iffs Let_def reject_call_def split: if_splits) blast
  next
    case termination_call_type
    then show ?thesis using run outbound
      by (auto simp: process_invite_def ct outcome_iffs Let_def split: if_splits) blast
  next
    case unknown_call_type
    then show ?thesis using run new
      by (auto simp: process_invite_def ct outcome_iffs Let_def reject_call_def)
  qed
  then show ?thesis by (auto simp: settled_simps entered_def)
qed

lemma new_request_step:
  assumes inv: "ctl_inv R c" and fr: "fresh_call env irq c"
    and run: "processRequestOutsideDialog env irq sip c = Ret (rc, c')"
  shows "\<exists>L. sb_step (sb c) L (sb c') \<and> sends c L c'"
proof -
  have "settled c {} c' \<or> entered env irq c c'"
  proof (cases "validateSipMessage sip = 0 \<and> sip_request sip = Some sip_method_invite")
    case True
    then show ?thesis using run process_invite_moves [OF inv fr] by (simp add: processRequestOutsideDialog_def)
  next
    case False
    have "settled c {} c'"
    proof (cases "sip_request sip")
      case None
      then show ?thesis using run by (auto simp: processRequestOutsideDialog_def settled_simps split: if_splits)
    next
      case (Some rq_method)
      then show ?thesis using run False
        by (cases rq_method) (auto simp: processRequestOutsideDialog_def obind_Ret_iff settled_simps split: if_splits)
    qed
    then show ?thesis ..
  qed
  then show ?thesis using entered_step [OF inv fr] settled_sb [of c "{}" c'] sb_step.idle [of "sb c"]
    by (auto simp: settled_def)
qed

section \<open>Responses to an INVITE\<close>

text \<open>A new INVITE has taken the place of the one that was refused.\<close>

definition replaced :: "nta_env \<Rightarrow> response_context \<Rightarrow> controller \<Rightarrow> controller \<Rightarrow> bool" where
  "replaced env x c c' \<longleftrightarrow> (\<exists>a bNew orqNew i. env_b_leg env = Some bNew \<and> env_orq env = Some (orqNew, i) \<and>
     getAssociatedDialog c (x_outgoing_leg x) = Ret a \<and>
     c_transactions c' = bm_insert (x_irq x) orqNew (bm_right_erase (x_orq x) (c_transactions c)) \<and>
     c_dialogs c' = bm_insert a bNew (bm_right_erase (x_outgoing_leg x) (c_dialogs c)) \<and> sends c {bNew} c')"

text \<open>
  What the branches of a final response leave: the tables of pairs as they were, with at most an
  ACK on the leg of the response, or the INVITE replaced and nothing more to be done.
\<close>

definition branched :: "nta_env \<Rightarrow> response_context \<Rightarrow> response_flags \<Rightarrow> controller \<Rightarrow> controller \<Rightarrow> bool" where
  "branched env x f c c' \<longleftrightarrow>
     settled c {} c' \<or> settled c {x_outgoing_leg x} c' \<and> \<not> bDestroyLegs f \<or>
     replaced env x c c' \<and> \<not> bClearTransaction f \<and> \<not> bProxyResponse f \<and> \<not> bDestroyLegs f"

lemma branched_settled: "settled c {} c' \<Longrightarrow> branched env x f c c'"
  by (simp add: branched_def)

lemma branched_refl: "branched env x f c c"
  by (simp add: branched_def settled_def sends_refl)

lemma retry_branched:
  assumes run: "retry_invite env x t f c = Ret (f', c')"
  shows "branched env x f' c c'"
proof -
  obtain res c1 where gen: "generateTerminationRequest env t (store_attempt (x_orq x) t c) = Ret (res, c1)"
    and fin: "(case res of None \<Rightarrow> Ret (f, c1) | Some (orqNew, b) \<Rightarrow> replace_attempt x t orqNew b f c1) = Ret (f', c')"
    using run by (auto simp: retry_invite_def obind_Ret_iff)
  have still: "settled c (case res of None \<Rightarrow> {} | Some (orq, b) \<Rightarrow> {b}) c1"
    using generate_settled [OF gen] by (auto simp: settled_simps store_attempt_def)
  show ?thesis
  proof (cases res)
    case None
    then show ?thesis using fin still by (auto simp: branched_def)
  next
    case (Some q)
    then obtain orqNew b i where q: "res = Some (orqNew, b)" "env_b_leg env = Some b" "env_orq env = Some (orqNew, i)"
      using generateTerminationRequest_frame(8) [OF gen] by (cases q) auto
    have "replaced env x c c' \<and> \<not> bClearTransaction f' \<and> \<not> bProxyResponse f' \<and> \<not> bDestroyLegs f'"
      using fin q still
      by (auto simp: replace_attempt_def updateDialog_def updateOutgoingTransaction_def addTransactions_def addDialogs_def
        outcome_iffs Let_def replaced_def settled_simps getAssociatedDialog_def split: option.splits)
    then show ?thesis by (simp add: branched_def)
  qed
qed

lemma branched_start:
  assumes "branched env x f c1 c'" and still: "settled c {} c1"
  shows "branched env x f c c'"
proof -
  have "settled c L c'" if "settled c1 L c'" for L using settled_trans [OF still that] by simp
  moreover have "sends c L c'" if "sends c1 L c'" for L
    using still sends_trans [OF _ that, of c "{}"] by (simp add: settled_def)
  moreover have "getAssociatedDialog c1 = getAssociatedDialog c" "c_transactions c1 = c_transactions c" "c_dialogs c1 = c_dialogs c"
    using still by (simp_all add: settled_def getAssociatedDialog_def fun_eq_iff cong: option.case_cong)
  ultimately show ?thesis using assms(1) unfolding branched_def replaced_def by metis
qed

lemma crankback_branched:
  assumes run: "crankback_call env x sip status f c = Ret (f', c')"
  shows "branched env x f' c c'"
proof (cases "\<exists>t. x_attempt x = Some t \<and> ta_nAttemptCount t < c_nTerminationRetries c - 1")
  case False
  then show ?thesis using run by (auto simp: crankback_call_def branched_def split: option.splits if_splits)
next
  case True
  then obtain t rt cfg where t: "x_attempt x = Some t"
    "(case rt of None \<Rightarrow> Ret (f, c\<lparr>c_config := cfg\<rparr>)
      | Some r \<Rightarrow> crankback_over env x sip status t r f (c\<lparr>c_config := cfg\<rparr>)) = Ret (f', c')"
    using run by (fastforce simp: crankback_call_def obind_Ret_iff Let_def)
  show ?thesis
  proof (cases rt)
    case None
    then show ?thesis using t by (auto simp: branched_def)
  next
    case (Some r)
    then obtain c2 t1 where c2: "retry_invite env x t1 f c2 = Ret (f', c')" "settled c {} c2"
      using t(2) by (cases r) (auto simp: crankback_over_def crankback_route_def obind_Ret_iff Let_def
        settled_simps split: option.splits)
    then show ?thesis using branched_start [OF retry_branched [OF c2(1)]] by blast
  qed
qed

lemma final_response_branched:
  assumes run: "final_response env x sip status f c = Ret (f', c')"
  shows "branched env x f' c c'"
proof -
  let ?f = "f\<lparr>bClearTransaction := True, bDestroyLegs := True\<rparr>"
  obtain ts where ts: "count_failure x status c = Ret (c\<lparr>c_mapTrunkStats := ts\<rparr>)"
    using run count_failure_Ret by (fastforce simp: final_response_def obind_Ret_iff)
  let ?c = "c\<lparr>c_mapTrunkStats := ts\<rparr>"
  have "branched env x f' ?c c'"
  proof (cases "status = 200")
    case True
    then have "settled ?c {x_outgoing_leg x} c' \<and> \<not> bDestroyLegs f'"
      using run ts by (auto simp: final_response_def answer_call_def outcome_iffs Let_def settled_simps
        split: option.splits if_splits)
    then show ?thesis by (simp add: branched_def)
  next
    case False
    have "branched env x f' ?c c'" if "redirect_call env x sip ?f ?c = Ret (f', c')"
      using that by (cases "x_attempt x")
        (auto simp: redirect_call_def outcome_iffs Let_def intro: branched_refl branched_settled retry_branched)
    then show ?thesis using run ts False crankback_branched [of env x sip status ?f ?c f' c']
      by (auto simp: final_response_def Let_def intro: branched_refl split: if_splits)
  qed
  then show ?thesis by (rule branched_start) simp
qed

text \<open>What follows the branches: the transaction is cleared, the legs are destroyed, or both, or neither.\<close>

lemma drop_request:
  assumes inv: "ctl_inv R c" and tx: "bm_right (c_transactions c) orq = Some irq"
  shows "sb_requests (sb c) irq = Some orq"
    "bm_left (bm_right_erase orq (c_transactions c)) = (bm_left (c_transactions c))(irq := None)"
proof -
  have l: "bm_left (c_transactions c) irq = Some orq" using bm.agree [OF ctl_inv_dialogs(3) [OF inv]] tx by simp
  then show "sb_requests (sb c) irq = Some orq" by (simp add: sb_def)
  show "bm_left (bm_right_erase orq (c_transactions c)) = (bm_left (c_transactions c))(irq := None)"
    by (rule right_erase_left [OF ctl_inv_dialogs(3) [OF inv] l])
qed

lemma drop_call:
  assumes inv: "ctl_inv R c" and p: "peers (c_dialogs c) leg other"
  obtains a b where "sb_calls (sb c) a = Some b" "(leg, other) = (a, b) \<or> (leg, other) = (b, a)"
    "bm_left (drop_leg leg (c_dialogs c)) = (bm_left (c_dialogs c))(a := None)"
proof -
  define a where "a = (if bm_left (c_dialogs c) leg = Some other then leg else other)"
  define b where "b = (if bm_left (c_dialogs c) leg = Some other then other else leg)"
  have "bm_left (c_dialogs c) a = Some b" "(leg, other) = (a, b) \<or> (leg, other) = (b, a)"
    using p bm.agree [OF ctl_inv_dialogs(2) [OF inv]] by (auto simp: a_def b_def peers_def)
  then show thesis using drop_leg_left [OF ctl_inv_dialogs(1) [OF inv]] that by (auto simp: sb_def)
qed

lemma replaced_step:
  assumes inv: "ctl_inv R c" and fr: "fresh_retry env c" and x: "bm_right (c_transactions c) (x_orq x) = Some (x_irq x)"
    "env_response_leg env = Some (x_outgoing_leg x)" and rep: "replaced env x c c'"
  shows "\<exists>L. sb_step (sb c) L (sb c') \<and> sends c L c'"
proof -
  obtain a bNew orqNew i where r: "env_b_leg env = Some bNew" "env_orq env = Some (orqNew, i)"
    "getAssociatedDialog c (x_outgoing_leg x) = Ret a"
    "c_transactions c' = bm_insert (x_irq x) orqNew (bm_right_erase (x_orq x) (c_transactions c))"
    "c_dialogs c' = bm_insert a bNew (bm_right_erase (x_outgoing_leg x) (c_dialogs c))" "sends c {bNew} c'"
    using rep by (auto simp: replaced_def)
  note wf = ctl_inv_dialogs [OF inv]
  have new: "fresh_leg (c_dialogs c) bNew" "bm_right (c_transactions c) orqNew = None"
    and "bm_right (c_dialogs c) (x_outgoing_leg x) \<noteq> None"
    using fr r x by (auto simp: fresh_retry_def)
  then have "bm_right (c_dialogs c) (x_outgoing_leg x) = Some a"
    using r(3) dialogs_sides(1) [OF wf(1)] by (auto simp: getAssociatedDialog_def deref_Ret_iff split: option.splits)
  then have ab: "bm_left (c_dialogs c) a = Some (x_outgoing_leg x)" using bm.agree [OF wf(2)] by simp
  let ?tx = "bm_right_erase (x_orq x) (c_transactions c)" and ?ds = "bm_right_erase (x_outgoing_leg x) (c_dialogs c)"
  have tx: "bm_wf ?tx" "bm_left ?tx = (bm_left (c_transactions c))(x_irq x := None)" "bm_right ?tx orqNew = None"
    using bm.right_erase [OF wf(3)] drop_request(2) [OF inv x(1)] new(2) by (auto simp: bm.right_find_right_erase [OF wf(3)])
  have ds: "bm_wf ?ds" "bm_left ?ds = (bm_left (c_dialogs c))(a := None)" "bm_right ?ds bNew = None"
    using bm.right_erase [OF wf(2)] right_erase_left [OF wf(2) ab] new(1)
    by (auto simp: bm.right_find_right_erase [OF wf(2)] fresh_leg_def)
  have "bm_left (c_transactions c') = (bm_left (c_transactions c))(x_irq x \<mapsto> orqNew)"
    "bm_left (c_dialogs c') = (bm_left (c_dialogs c))(a \<mapsto> bNew)"
    using r(4,5) bm.insert_new [OF tx(1), of "x_irq x" orqNew] bm.insert_new [OF ds(1), of a bNew] tx ds by simp_all
  then have "sb c' = (sb c)\<lparr>sb_calls := (sb_calls (sb c))(a \<mapsto> bNew), sb_requests := (sb_requests (sb c))(x_irq x \<mapsto> orqNew)\<rparr>"
    by (simp add: sb_def)
  moreover have "sb_calls (sb c) a = Some (x_outgoing_leg x)" using ab by (simp add: sb_def)
  ultimately have "sb_step (sb c) {bNew} (sb c')"
    using sb_step.rerouted drop_request(1) [OF inv x(1)] new_leg_sb [OF inv new(1)] not_ran_requests [OF inv new(2)] by metis
  then show ?thesis using r(6) by blast
qed

text \<open>A request is over, a call is over, or both.\<close>

lemma ended_step:
  assumes inv: "ctl_inv R c"
    and tx: "c_transactions c' = (if clr then bm_right_erase orq (c_transactions c) else c_transactions c)"
    "clr \<Longrightarrow> bm_right (c_transactions c) orq = Some irq"
    and ds: "c_dialogs c' = (if dst then drop_leg leg (c_dialogs c) else c_dialogs c)" "dst \<Longrightarrow> peers (c_dialogs c) leg other"
    and L: "L = {} \<or> L = {l} \<and> \<not> dst \<or> L = {other} \<and> dst \<and> \<not> clr"
  shows "sb_step (sb c) L (sb c')"
proof -
  have r: "sb_requests (sb c) irq = Some orq" "sb_requests (sb c') = (sb_requests (sb c))(irq := None)" if clr
    using that drop_request [OF inv tx(2)] tx(1) by (simp_all add: sb_def)
  have same: "\<not> clr \<Longrightarrow> sb_requests (sb c') = sb_requests (sb c)" "\<not> dst \<Longrightarrow> sb_calls (sb c') = sb_calls (sb c)"
    using tx(1) ds(1) by (simp_all add: sb_def)
  show ?thesis
  proof (cases dst)
    case True
    then obtain a b where ab: "sb_calls (sb c) a = Some b" "(leg, other) = (a, b) \<or> (leg, other) = (b, a)"
      "bm_left (drop_leg leg (c_dialogs c)) = (bm_left (c_dialogs c))(a := None)"
      using drop_call [OF inv ds(2)] by blast
    then have drop: "sb_calls (sb c') = (sb_calls (sb c))(a := None)" using ds(1) True by (simp add: sb_def)
    show ?thesis
    proof (cases clr)
      case True
      then have "sb c' = (sb c)\<lparr>sb_calls := (sb_calls (sb c))(a := None), sb_requests := (sb_requests (sb c))(irq := None)\<rparr>"
        using drop r(2) by simp
      then show ?thesis using refused [OF ab(1) r(1)] L True \<open>dst\<close> by simp
    next
      case False
      then have "sb c' = (sb c)\<lparr>sb_calls := (sb_calls (sb c))(a := None)\<rparr>" using drop same(1) by simp
      then show ?thesis using hung_up [OF ab(1)] ab(2) L \<open>dst\<close> by auto
    qed
  next
    case False
    show ?thesis
    proof (cases clr)
      case True
      then have "sb c' = (sb c)\<lparr>sb_requests := (sb_requests (sb c))(irq := None)\<rparr>" using r(2) same(2) False by simp
      then show ?thesis using answered [OF r(1)] True L False by auto
    next
      case noreq: False
      then have "sb c' = sb c" using same False by simp
      then show ?thesis using L False idle message by auto
    qed
  qed
qed

lemma clearTransaction_ends:
  "c_transactions (clearTransaction_orq orq c) = bm_right_erase orq (c_transactions c)"
  "c_dialogs (clearTransaction_orq orq c) = c_dialogs c" "sends c {} (clearTransaction_orq orq c)"
  by (auto simp: clearTransaction_orq_def Let_def sends_def split: option.splits)

lemma clearDialog_ends:
  assumes "dialogs_ok (c_dialogs c)" "clearDialog leg c = Ret c'"
  shows "\<exists>other. peers (c_dialogs c) leg other \<and> c_dialogs c' = drop_leg leg (c_dialogs c)"
    "c_transactions c' = c_transactions c" "sends c {} c'"
proof -
  obtain other where other: "getAssociatedDialog c leg = Ret other"
    "c' = erase_dialog_info other (emit [DestroyLeg other] (erase_dialog_info leg (emit [DestroyLeg leg]
      (c\<lparr>c_dialogs := drop_leg leg (c_dialogs c)\<rparr>))))"
    using assms(2) by (auto simp: clearDialog_def outcome_iffs Let_def drop_leg_def)
  then show "\<exists>other. peers (c_dialogs c) leg other \<and> c_dialogs c' = drop_leg leg (c_dialogs c)"
    "c_transactions c' = c_transactions c"
    using assms(1) by (auto simp: getAssociatedDialog_Ret)
  show "sends c {} c'"
    unfolding other(2) by (auto simp: sends_def erase_dialog_info_def split: option.splits)
qed

lemma proxy_response_settled: "proxy_response x sip status f c = Ret c' \<Longrightarrow> settled c {} c'"
  by (auto simp: proxy_response_def outcome_iffs settled_simps split: if_splits)

lemma response_cdr_settled: "settled c {} (response_cdr env x status f c)"
  by (simp add: response_cdr_def Let_def)

text \<open>The end of a handler: the request under way is cleared, the call is cleared, or both.\<close>

lemma cleared_step:
  assumes inv: "ctl_inv R c" and still: "settled c L c1" and orq: "clr \<Longrightarrow> bm_right (c_transactions c) orq = Some irq"
    and c2: "c2 = (if clr then clearTransaction_orq orq c1 else c1)"
    and c3: "(if dst then clearDialog leg c2 else Ret c2) = Ret c3" and rest: "settled c3 {} c'"
    and L: "L = {} \<or> L = {l} \<and> \<not> dst \<or> getAssociatedDialog c leg = Ret k \<and> L = {k} \<and> dst \<and> \<not> clr"
  shows "sb_step (sb c) L (sb c') \<and> sends c L c'"
proof -
  have s2: "c_dialogs c2 = c_dialogs c" "sends c L c2" "c_transactions c2 = (if clr then bm_right_erase orq (c_transactions c) else c_transactions c)"
    using still sends_trans [of c L c1 "{}"] clearTransaction_ends [where orq = orq and c = c1] by (auto simp: c2 settled_def)
  then have ok2: "dialogs_ok (c_dialogs c2)" using ctl_inv_dialogs(1) [OF inv] by simp
  obtain other where d: "dst \<Longrightarrow> peers (c_dialogs c) leg other" "c_dialogs c3 = (if dst then drop_leg leg (c_dialogs c) else c_dialogs c)"
    "c_transactions c3 = c_transactions c2" "sends c2 {} c3"
    using c3 clearDialog_ends [OF ok2, of leg c3] s2(1) sends_refl by (auto split: if_splits)
  have tx: "c_transactions c' = (if clr then bm_right_erase orq (c_transactions c) else c_transactions c)"
    and ds: "c_dialogs c' = (if dst then drop_leg leg (c_dialogs c) else c_dialogs c)"
    using rest d s2 by (simp_all add: settled_def)
  have "L = {} \<or> L = {l} \<and> \<not> dst \<or> L = {other} \<and> dst \<and> \<not> clr"
    using L d(1) getAssociatedDialog_Ret [OF ctl_inv_dialogs(1) [OF inv], of leg] by force
  from ended_step [OF inv tx orq ds d(1) this] have "sb_step (sb c) L (sb c')" .
  moreover have "sends c L c'" using sends_trans [OF sends_trans [OF s2(2) d(4)]] rest by (fastforce simp: settled_def)
  ultimately show ?thesis ..
qed

lemma invite_response_step:
  assumes inv: "ctl_inv R c" and fr: "fresh_retry env c"
    and run: "processInviteResponseInsideDialog env orq sip c = Ret (rc, c')"
  shows "\<exists>L. sb_step (sb c) L (sb c') \<and> sends c L c'"
proof -
  let ?f = "\<lparr>bClearTransaction = False, bDestroyLegs = False, bProxyResponse = True, sessionTimer = None\<rparr>"
  obtain x status f1 c1 c2 c4 where start: "response_start env orq c = Ret x"
    and branch: "(if status = 100 then Ret (?f\<lparr>bProxyResponse := False\<rparr>, c)
      else if 200 \<le> status then final_response env x sip status ?f c else Ret (?f, c)) = Ret (f1, c1)"
    and c2: "(if bProxyResponse f1 then proxy_response x sip status f1 c1 else Ret c1) = Ret c2"
    and c4: "(if bDestroyLegs f1 then clearDialog (x_outgoing_leg x)
      (if bClearTransaction f1 then clearTransaction_orq orq c2 else c2) else
      Ret (if bClearTransaction f1 then clearTransaction_orq orq c2 else c2)) = Ret c4"
    and c': "c' = response_cdr env x status f1 c4"
    using run by (auto simp: processInviteResponseInsideDialog_def obind_Ret_iff [of "response_start _ _ _"]
      obind_Ret_iff [of "if _ then _ else _"] deref_Ret_iff Let_def)
  note x = response_start_Ret [OF start]
  have end_ok: "settled c4 {} c'" unfolding c' by (rule response_cdr_settled)
  have "branched env x f1 c c1" using branch final_response_branched [of env x sip status ?f c f1 c1] branched_refl
    by (auto split: if_splits)
  then consider (still) M where "settled c M c1" "M = {} \<or> M = {x_outgoing_leg x} \<and> \<not> bDestroyLegs f1"
    | (moved) "replaced env x c c1" "\<not> bClearTransaction f1" "\<not> bProxyResponse f1" "\<not> bDestroyLegs f1"
    by (auto simp: branched_def)
  then show ?thesis
  proof cases
    case still
    have "settled c M c2" using still(1) c2 proxy_response_settled [of x sip status f1 c1 c2] settled_trans [of c M c1 "{}" c2]
      by (auto split: if_splits)
    then show ?thesis using cleared_step [OF inv _ x(2) refl c4 end_ok] still(2) by blast
  next
    case moved
    then have "c4 = c1" using c2 c4 by simp
    then have "sb c' = sb c1" "sends c1 {} c'" using end_ok settled_sb [OF end_ok] by (simp_all add: settled_def)
    then show ?thesis using replaced_step [OF inv fr _ _ moved(1)] x(1-3) sends_trans [of c _ c1 "{}" c'] by fastforce
  qed
qed

section \<open>CANCEL, and inside a dialog\<close>

lemma cancel_cdr_settled: "cancel_cdr env orq leg c = Ret c' \<Longrightarrow> settled c {} c'"
  by (auto simp: cancel_cdr_def deref_Ret_iff split: option.splits)

lemma bye_cdr_settled: "bye_cdr env leg other c = Ret c' \<Longrightarrow> settled c {} c'"
  by (auto simp: bye_cdr_def deref_Ret_iff Let_def split: option.splits if_splits)

lemma settled_step: "settled c {} c' \<Longrightarrow> \<exists>L. sb_step (sb c) L (sb c') \<and> sends c L c'"
  using settled_sb [of c "{}" c'] sb_step.idle [of "sb c"] by (auto simp: settled_def)

lemma settled_message: "settled c {l} c' \<Longrightarrow> \<exists>L. sb_step (sb c) L (sb c') \<and> sends c L c'"
  using settled_sb [of c "{l}" c'] sb_step.message [of "sb c" l] by (auto simp: settled_def)

lemma clearDialog_step:
  assumes inv: "ctl_inv R c" and still: "settled c L c1" and run: "clearDialog leg c1 = Ret c2" and rest: "settled c2 {} c'"
    and L: "L = {} \<or> getAssociatedDialog c leg = Ret k \<and> L = {k}"
  shows "\<exists>L. sb_step (sb c) L (sb c') \<and> sends c L c'"
  using cleared_step [where clr = False and dst = True, OF inv still _ _ _ rest, of _ _ c1 leg k] run L by auto

lemma ack_or_cancel_step:
  assumes inv: "ctl_inv R c" and run: "processAckOrCancel env irq sip c = Ret (rc, c')"
  shows "\<exists>L. sb_step (sb c) L (sb c') \<and> sends c L c'"
proof -
  consider (none) "c' = c" | (late) leg where "clearDialog leg c = Ret c'"
    | (cancel) orq leg c1 c2 where "getAssociatedTransaction_of_irq c irq = Some orq" "cancel_cdr env orq leg c = Ret c1"
      "clearDialog leg (clearTransaction_orq orq (emit [OutgoingCancel orq, DestroyOutgoing orq] c1)) = Ret c2"
      "c' = c2\<lparr>c_mapTerminationAttempts := AList.delete orq (c_mapTerminationAttempts c2)\<rparr>"
    using run by (auto simp: processAckOrCancel_def outcome_iffs split: option.splits if_splits)
  then show ?thesis
  proof cases
    case none
    then show ?thesis using settled_step by simp
  next
    case late
    then show ?thesis using clearDialog_step [OF inv settled_refl] settled_refl by blast
  next
    case cancel
    let ?c1 = "emit [OutgoingCancel orq, DestroyOutgoing orq] c1"
    have "settled c {} ?c1" using cancel_cdr_settled [OF cancel(2)] by (auto simp: settled_simps)
    moreover have "bm_right (c_transactions c) orq = Some irq"
      using cancel(1) bm.agree [OF ctl_inv_dialogs(3) [OF inv]] by (simp add: getAssociatedTransaction_of_irq_def)
    moreover have "settled c2 {} c'" using cancel(4) by (simp add: settled_simps)
    ultimately show ?thesis
      using cleared_step [where clr = True and dst = True, OF inv, of "{}" ?c1 orq irq _ leg c2 c'] cancel(3) by auto
  qed
qed

lemma dialog_request_step:
  assumes inv: "ctl_inv R c" and run: "processRequestInsideDialog env leg irq sip c = Ret (rc, c')"
  shows "\<exists>L. sb_step (sb c) L (sb c') \<and> sends c L c'"
proof -
  obtain other rq_method where o: "getAssociatedDialog c leg = Ret other" "other \<noteq> 0" "sip_request sip = Some rq_method"
    using run by (auto simp: processRequestInsideDialog_def outcome_iffs)
  consider (bye) c1 c2 where "bye_cdr env leg other (emit [OutgoingBye other] c) = Ret c1" "clearDialog leg c1 = Ret c2"
      "c' = emit [DestroyIncoming irq] c2"
    | (ack) "c' = emit [DestroyIncoming irq] c"
    | (relay) orq where "c' = addTransactions irq orq (emit [OutgoingRequest orq other sip] c)"
    using run o by (cases rq_method) (auto simp: processRequestInsideDialog_def obind_Ret_iff Let_def)
  then show ?thesis
  proof cases
    case bye
    have "settled c {other} c1" using bye_cdr_settled [OF bye(1)] by (auto simp: settled_simps)
    moreover have "settled c2 {} c'" using bye(3) by (simp add: settled_simps)
    ultimately show ?thesis using clearDialog_step [OF inv _ bye(2)] o(1) by blast
  next
    case ack
    then show ?thesis by (intro settled_step) (simp add: settled_simps)
  next
    case relay
    have "sends c {other} c'" "c_dialogs c' = c_dialogs c" "c_transactions c' = bm_insert irq orq (c_transactions c)"
      using relay by (simp_all add: sends_def addTransactions_def)
    moreover obtain a b where ab: "sb_calls (sb c) a = Some b" "other = a \<or> other = b"
      using drop_call [OF inv] o(1) getAssociatedDialog_Ret [OF ctl_inv_dialogs(1) [OF inv]] by (metis prod.inject)
    moreover have "sb c' = (sb c)\<lparr>sb_requests := (sb_requests (sb c))(irq \<mapsto> orq)\<rparr>" "sb_new_request (sb c) irq orq"
      if "bm_left (c_transactions c) irq = None" "bm_right (c_transactions c) orq = None"
      using that bm.insert_new [OF ctl_inv_dialogs(3) [OF inv], of irq orq] not_ran_requests [OF inv]
        \<open>c_dialogs c' = _\<close> \<open>c_transactions c' = _\<close> by (auto simp: sb_def sb_new_request_def)
    moreover have "settled c {other} c'" if "\<not> (bm_left (c_transactions c) irq = None \<and> bm_right (c_transactions c) orq = None)"
      using that relay by (auto simp: settled_simps addTransactions_def bm_insert_def)
    ultimately show ?thesis using relayed [OF ab] settled_message by metis
  qed
qed

lemma dialog_response_step:
  assumes inv: "ctl_inv R c" and run: "processResponseInsideDialog env orq sip c = Ret (rc, c')"
  shows "\<exists>L. sb_step (sb c) L (sb c') \<and> sends c L c'"
proof -
  obtain irq L c1 clr where irq: "bm_right (c_transactions c) orq = Some irq"
    and c1: "settled c L c1" "L = {} \<or> (\<exists>l. L = {l})" and c': "c' = (if clr then clearTransaction_orq orq c1 else c1)"
  proof -
    obtain irq status cs_method where s: "bm_right (c_transactions c) orq = Some irq" "sip_cseq sip = Some cs_method"
      "\<exists>phrase. sip_status sip = Some (status, phrase)"
      using run by (auto simp: processResponseInsideDialog_def getAssociatedTransaction_of_orq_def outcome_iffs Let_def
        split: option.splits)
    let ?c = "emit [TReply irq status (Some sip) []] c"
    consider "c' = (if 200 \<le> status then clearTransaction_orq orq ?c else ?c)"
      | leg where "c' = (if 200 \<le> status then clearTransaction_orq orq (emit [OutgoingAck leg] ?c) else emit [OutgoingAck leg] ?c)"
      using run s by (auto simp: processResponseInsideDialog_def getAssociatedTransaction_of_orq_def outcome_iffs Let_def
        split: option.splits if_splits)
    then show thesis
    proof cases
      case 1
      then show thesis using that [of irq "{}" ?c "200 \<le> status"] s(1) by (simp add: settled_simps)
    next
      case 2
      then show thesis using that [of irq "{leg}" "emit [OutgoingAck leg] ?c" "200 \<le> status"] s(1) by (simp add: settled_simps)
    qed
  qed
  then show ?thesis
    using cleared_step [where dst = False and leg = 0 and k = 0, OF inv c1(1) irq c' _ settled_refl] c1(2) by fastforce
qed

lemma session_timer_step:
  assumes inv: "ctl_inv R c" and run: "processSessionRefreshTimer leg c = Ret (rc, c')"
  shows "\<exists>L. sb_step (sb c) L (sb c') \<and> sends c L c'"
proof (cases "map_of (c_mapDialogInfo c) leg")
  case None
  then show ?thesis using run settled_step [of c c'] by (simp add: processSessionRefreshTimer_def)
next
  case (Some d)
  then obtain c1 where "clearDialog leg c1 = Ret c'" "settled c {} c1"
    using run by (auto simp: processSessionRefreshTimer_def Let_def outcome_iffs settled_simps split: option.splits)
  then show ?thesis using clearDialog_step [OF inv] settled_refl by blast
qed

lemma retransmission_step:
  assumes "processRetransmittedResponse f sip c = Ret (rc, c')"
  shows "\<exists>L. sb_step (sb c) L (sb c') \<and> sends c L c'"
proof -
  have "settled c {} c' \<or> (\<exists>l. settled c {l} c')"
    using assms by (auto simp: processRetransmittedResponse_def outcome_iffs settled_simps split: option.splits if_splits)
  then show ?thesis using settled_step settled_message by blast
qed

section \<open>The refinement\<close>

lemma ctl_step_sb:
  assumes "ctl_step R c c'" and inv: "ctl_inv R c"
  shows "\<exists>L. sb_step (sb c) L (sb c') \<and> sends c L c'"
  using assms(1)
proof cases
  case new_request
  then show ?thesis using new_request_step [OF inv] by blast
next
  case invite_response
  then show ?thesis using invite_response_step [OF inv] by blast
next
  case ack_or_cancel
  then show ?thesis using ack_or_cancel_step [OF inv] by blast
next
  case dialog_request
  then show ?thesis using dialog_request_step [OF inv] by blast
next
  case dialog_response
  then show ?thesis using dialog_response_step [OF inv] by blast
next
  case session_timer
  then show ?thesis using session_timer_step [OF inv] by blast
next
  case retransmission
  then show ?thesis using retransmission_step by blast
next
  case reload_signal
  then show ?thesis by (intro settled_step) (simp add: settled_simps handleSigHup_def)
next
  case reconfigured
  then show ?thesis by (intro settled_step) (auto simp: settled_simps installConfig_def Let_def)
next
  case outside
  then show ?thesis by (intro settled_step) (simp add: settled_simps)
qed

lemma sb_reachable_sides:
  assumes "sb_reachable s"
  shows "one_to_one (sb_calls s) \<and> sides_apart (sb_calls s) \<and> one_to_one (sb_requests s)"
  using assms by induction (auto simp: one_to_one_def sides_apart_def dest: sb_step_sides)

lemma start_sb:
  "run_agent my version (SipLbController_new cfg iterations) = Ret (acts, c) \<Longrightarrow>
   sb c = \<lparr>sb_calls = Map.empty, sb_requests = Map.empty\<rparr>"
  by (auto simp: run_agent_def start_monitor_def generateUserAgent_def create_writer_def outcome_iffs sb_def
    SipLbController_new_def installConfig_def Let_def bm_left_def fun_eq_iff split: if_splits)



end
