(* ===== verification/Cdr_Writer.thy ===== *)
theory Cdr_Writer
  imports Cdr_Info
begin

text \<open>
  \<open>CdrWriter\<close> (\<open>cdr-writer.h\<close>, \<open>cdr-writer.cpp\<close>): the thread that writes call detail records to
  MySQL. The MySQL driver is a parameter: a record of the operations the writer calls, on a
  database state of any type. A prepared statement stays bound to the connection that prepared
  it. Records are posted by reference, so what is written is the record as it is when the writer
  gets to it; \<open>writer_step\<close> takes the store of records as an argument.
\<close>

section \<open>Statements and driver\<close>

datatype cdr_stmt = stmtOrig | stmtFinal | stmtCancel | stmtTerm1 | stmtTerm2 | stmtBye1 | stmtBye2

datatype sqlval = VNull | VString string | VInt int | VDateTime string

datatype sql_result = Success | SQLException nat | RuntimeError

text \<open>
  \<open>drv_connect\<close> returns \<open>None\<close> when no connection was obtained, by a null pointer or by an exception;
  \<open>drv_test\<close> is the query of the timer.
\<close>

record 'db sql_driver =
  drv_connect :: "'db \<Rightarrow> nat option \<times> 'db"
  drv_setSchema :: "nat \<Rightarrow> 'db \<Rightarrow> sql_result \<times> 'db"
  drv_setAutoCommit :: "nat \<Rightarrow> 'db \<Rightarrow> sql_result \<times> 'db"
  drv_prepare :: "nat \<Rightarrow> cdr_stmt \<Rightarrow> 'db \<Rightarrow> sql_result \<times> 'db"
  drv_execute :: "nat \<Rightarrow> cdr_stmt \<Rightarrow> sqlval list \<Rightarrow> 'db \<Rightarrow> sql_result \<times> 'db"
  drv_test :: "nat \<Rightarrow> 'db \<Rightarrow> sql_result \<times> 'db"

record 'db cdr_writer =
  w_vecConnection :: "nat list"
  w_stmts :: "cdr_stmt \<Rightarrow> nat option"
  w_queue :: "nat list"
  w_timer :: bool
  w_db :: 'db

definition CdrWriter_new :: "'db \<Rightarrow> 'db cdr_writer" where
  "CdrWriter_new db =
     \<lparr>w_vecConnection = [], w_stmts = (\<lambda>_. None), w_queue = [], w_timer = True, w_db = db\<rparr>"

definition lost_connection :: "nat \<Rightarrow> bool" where
  "lost_connection code \<longleftrightarrow> code = 2013 \<or> code = 2006"

section \<open>Connections\<close>

text \<open>
  A new connection is handed out also when \<open>setSchema\<close> or \<open>setAutoCommit\<close> throws, since the pointer
  is set before.
\<close>

definition newConnection :: "'db sql_driver \<Rightarrow> 'db \<Rightarrow> nat option \<times> 'db" where
  "newConnection drv db =
     (case drv_connect drv db of
        (None, db1) \<Rightarrow> (None, db1)
      | (Some conn, db1) \<Rightarrow>
          (let (r, db2) = drv_setSchema drv conn db1
           in if r = Success then (Some conn, snd (drv_setAutoCommit drv conn db2)) else (Some conn, db2)))"

definition getConnection :: "'db sql_driver \<Rightarrow> 'db cdr_writer \<Rightarrow> nat option \<times> 'db cdr_writer" where
  "getConnection drv w =
     (case w_vecConnection w of
        conn # conns \<Rightarrow> (Some conn, w\<lparr>w_vecConnection := conns\<rparr>)
      | [] \<Rightarrow> (let (conn, db) = newConnection drv (w_db w) in (conn, w\<lparr>w_db := db\<rparr>)))"

definition releaseConnection :: "nat \<Rightarrow> 'db cdr_writer \<Rightarrow> 'db cdr_writer" where
  "releaseConnection conn w = w\<lparr>w_vecConnection := w_vecConnection w @ [conn]\<rparr>"

definition testConnection :: "'db sql_driver \<Rightarrow> 'db cdr_writer \<Rightarrow> bool \<times> 'db cdr_writer" where
  "testConnection drv w =
     (let (conn, db) = drv_connect drv (w_db w) in (conn \<noteq> None, w\<lparr>w_db := db\<rparr>))"

text \<open>\<open>if( !stmt ) stmt.reset( conn->prepareStatement(...) )\<close> and \<open>executeUpdate\<close>.\<close>

definition prepareStatement ::
  "'db sql_driver \<Rightarrow> nat \<Rightarrow> cdr_stmt \<Rightarrow> 'db cdr_writer \<Rightarrow> sql_result \<times> 'db cdr_writer" where
  "prepareStatement drv conn k w =
     (case w_stmts w k of
        Some _ \<Rightarrow> (Success, w)
      | None \<Rightarrow>
          (let (r, db) = drv_prepare drv conn k (w_db w); w1 = w\<lparr>w_db := db\<rparr>
           in if r = Success then (Success, w1\<lparr>w_stmts := (w_stmts w1)(k := Some conn)\<rparr>) else (r, w1)))"

definition executeUpdate ::
  "'db sql_driver \<Rightarrow> cdr_stmt \<Rightarrow> sqlval list \<Rightarrow> 'db cdr_writer \<Rightarrow> sql_result \<times> 'db cdr_writer" where
  "executeUpdate drv k params w =
     (case w_stmts w k of
        None \<Rightarrow> (RuntimeError, w)
      | Some conn \<Rightarrow>
          (let (r, db) = drv_execute drv conn k params (w_db w) in (r, w\<lparr>w_db := db\<rparr>)))"

definition run_statement ::
  "'db sql_driver \<Rightarrow> nat \<Rightarrow> cdr_stmt \<Rightarrow> sqlval list \<Rightarrow> 'db cdr_writer \<Rightarrow> sql_result \<times> 'db cdr_writer" where
  "run_statement drv conn k params w =
     (let (r, w1) = prepareStatement drv conn k w
      in if r = Success then executeUpdate drv k params w1 else (r, w1))"

text \<open>
  The handlers of the five write functions: an exception is logged; a lost connection also resets
  the statements \<open>ks\<close> of the function and is thrown again.
\<close>

definition handle_exceptions ::
  "cdr_stmt list \<Rightarrow> sql_result \<times> 'db cdr_writer \<Rightarrow> nat option \<times> 'db cdr_writer" where
  "handle_exceptions ks rw =
     (case rw of
        (SQLException code, w) \<Rightarrow>
          if lost_connection code
          then (Some code, w\<lparr>w_stmts := (\<lambda>k. if k \<in> set ks then None else w_stmts w k)\<rparr>)
          else (None, w)
      | (_, w) \<Rightarrow> (None, w))"

section \<open>The write functions\<close>

definition string_or_null :: "string \<Rightarrow> sqlval" where
  "string_or_null s = (if s \<noteq> [] then VString s else VNull)"

definition orig_params :: "CdrInfo \<Rightarrow> sqlval list" where
  "orig_params c =
     [VString (cdr_uuid c), VDateTime (getTimeStartFormatted c), VString (cdr_originatingCarrier c),
      VString (cdr_originatingCarrierAddress c), VString (cdr_originatingEdgeServerAddress c),
      VString (cdr_fsAddress c), VString (cdr_callingPartyNumber c),
      VString (cdr_calledPartyNumberIn c), VString (cdr_alegCallId c),
      string_or_null (cdr_blegCallId c),
      (if cdr_sipStatus c > 0 then VInt (sint (cdr_sipStatus c)) else VNull),
      VInt (release_code (cdr_releaseCause c)),
      (if getTimeEndFormatted c \<noteq> [] then VDateTime (getTimeEndFormatted c) else VNull)]"

definition writeOriginationRequestCdr ::
  "'db sql_driver \<Rightarrow> CdrInfo \<Rightarrow> nat \<Rightarrow> 'db cdr_writer \<Rightarrow> nat option \<times> 'db cdr_writer" where
  "writeOriginationRequestCdr drv c conn w =
     handle_exceptions [stmtOrig] (run_statement drv conn stmtOrig (orig_params c) w)"

definition final_params :: "CdrInfo \<Rightarrow> sqlval list" where
  "final_params c =
     VInt (sint (cdr_sipStatus c)) #
     (if cdr_sipStatus c = 200
      then [VDateTime (getTimeConnectFormatted c), VNull, VInt 0]
      else [VNull, VDateTime (getTimeEndFormatted c),
            VInt (release_code call_rejected_due_to_termination_carriers)]) @
     [VString (cdr_uuid c)]"

definition writeOriginationFinalResponseCdr ::
  "'db sql_driver \<Rightarrow> CdrInfo \<Rightarrow> nat \<Rightarrow> 'db cdr_writer \<Rightarrow> nat option \<times> 'db cdr_writer" where
  "writeOriginationFinalResponseCdr drv c conn w =
     handle_exceptions [stmtFinal] (run_statement drv conn stmtFinal (final_params c) w)"

definition cancel_params :: "CdrInfo \<Rightarrow> sqlval list" where
  "cancel_params c =
     [VDateTime (getTimeEndFormatted c), VInt (release_code call_canceled), VString (cdr_uuid c)]"

definition writeOriginationCancelCdr ::
  "'db sql_driver \<Rightarrow> CdrInfo \<Rightarrow> nat \<Rightarrow> 'db cdr_writer \<Rightarrow> nat option \<times> 'db cdr_writer" where
  "writeOriginationCancelCdr drv c conn w =
     handle_exceptions [stmtCancel] (run_statement drv conn stmtCancel (cancel_params c) w)"

definition term1_params :: "CdrInfo \<Rightarrow> sqlval list" where
  "term1_params c =
     [VString (cdr_uuid c), VDateTime (getTimeStartFormatted c)] @
     (if cdr_sipStatus c = 200
      then [VDateTime (getTimeConnectFormatted c), VNull]
      else [VNull, VDateTime (getTimeEndFormatted c)]) @
     [VInt (sint (cdr_sipStatus c)), VString (cdr_dlegCallId c), VString (cdr_terminatingCarrier c),
      VString (cdr_terminatingCarrierAddress c)]"

definition term2_params :: "CdrInfo \<Rightarrow> sqlval list" where
  "term2_params c =
     [VString (cdr_terminatingEdgeServerAddress c), VString (cdr_terminatingCarrier c),
      VString (cdr_terminatingCarrierAddress c), VString (cdr_clegCallId c), VString (cdr_dlegCallId c),
      string_or_null (cdr_customerName c), string_or_null (cdr_avokeCallId c),
      VString (cdr_calledPartyNumberOut c), VString (cdr_uuid c)]"

text \<open>Two statements one after the other, the second only if the first succeeds.\<close>

definition run_two ::
  "'db sql_driver \<Rightarrow> nat \<Rightarrow> cdr_stmt \<Rightarrow> sqlval list \<Rightarrow> cdr_stmt \<Rightarrow> sqlval list \<Rightarrow> 'db cdr_writer \<Rightarrow>
   sql_result \<times> 'db cdr_writer" where
  "run_two drv conn k1 ps1 k2 ps2 w =
     (let (r, w1) = run_statement drv conn k1 ps1 w
      in if r = Success then run_statement drv conn k2 ps2 w1 else (r, w1))"

definition writeTerminationAttemptCdr ::
  "'db sql_driver \<Rightarrow> CdrInfo \<Rightarrow> nat \<Rightarrow> 'db cdr_writer \<Rightarrow> nat option \<times> 'db cdr_writer" where
  "writeTerminationAttemptCdr drv c conn w =
     handle_exceptions [stmtTerm1, stmtTerm2]
       (run_two drv conn stmtTerm1 (term1_params c) stmtTerm2 (term2_params c) w)"

definition bye1_params :: "CdrInfo \<Rightarrow> sqlval list" where
  "bye1_params c =
     [VDateTime (getTimeEndFormatted c), VInt (release_code (cdr_releaseCause c)), VString (cdr_uuid c)]"

definition bye2_params :: "CdrInfo \<Rightarrow> sqlval list" where
  "bye2_params c = [VDateTime (getTimeEndFormatted c), VString (cdr_uuid c)]"

definition writeByeCdr ::
  "'db sql_driver \<Rightarrow> CdrInfo \<Rightarrow> nat \<Rightarrow> 'db cdr_writer \<Rightarrow> nat option \<times> 'db cdr_writer" where
  "writeByeCdr drv c conn w =
     handle_exceptions [stmtBye1, stmtBye2]
       (run_two drv conn stmtBye1 (bye1_params c) stmtBye2 (bye2_params c) w)"

definition write_event ::
  "'db sql_driver \<Rightarrow> CdrInfo \<Rightarrow> nat \<Rightarrow> 'db cdr_writer \<Rightarrow> nat option \<times> 'db cdr_writer" where
  "write_event drv c =
     (case cdr_cdrType c of
        origination_request \<Rightarrow> writeOriginationRequestCdr drv c
      | origination_final_response \<Rightarrow> writeOriginationFinalResponseCdr drv c
      | origination_cancel \<Rightarrow> writeOriginationCancelCdr drv c
      | termination_attempt \<Rightarrow> writeTerminationAttemptCdr drv c
      | call_cleared \<Rightarrow> writeByeCdr drv c)"

text \<open>\<open>writeCdr\<close>: only a lost connection is thrown by the write functions; it empties the pool.\<close>

definition writeCdr :: "'db sql_driver \<Rightarrow> CdrInfo \<Rightarrow> 'db cdr_writer \<Rightarrow> 'db cdr_writer" where
  "writeCdr drv c w =
     (case getConnection drv w of
        (None, w1) \<Rightarrow> w1
      | (Some conn, w1) \<Rightarrow>
          (case write_event drv c conn w1 of
             (None, w2) \<Rightarrow> releaseConnection conn w2
           | (Some code, w2) \<Rightarrow>
               if lost_connection code then w2\<lparr>w_vecConnection := []\<rparr> else w2))"

definition postCdr :: "nat \<Rightarrow> 'db cdr_writer \<Rightarrow> 'db cdr_writer" where
  "postCdr pCdr w = w\<lparr>w_queue := w_queue w @ [pCdr]\<rparr>"

text \<open>One handler of the worker thread: the next posted record, read from the store \<open>heap\<close>.\<close>

definition writer_step :: "'db sql_driver \<Rightarrow> (nat \<Rightarrow> CdrInfo) \<Rightarrow> 'db cdr_writer \<Rightarrow> 'db cdr_writer" where
  "writer_step drv heap w =
     (case w_queue w of
        [] \<Rightarrow> w
      | p # ps \<Rightarrow> writeCdr drv (heap p) (w\<lparr>w_queue := ps\<rparr>))"

text \<open>\<open>timer_handler\<close>; each way through it starts the timer again.\<close>

definition cdr_timer_handler :: "'db sql_driver \<Rightarrow> bool \<Rightarrow> 'db cdr_writer \<Rightarrow> 'db cdr_writer" where
  "cdr_timer_handler drv success w =
     (if \<not> success then w
      else case getConnection drv w of
        (None, w1) \<Rightarrow> w1\<lparr>w_timer := True\<rparr>
      | (Some conn, w1) \<Rightarrow>
          (let (r, db) = drv_test drv conn (w_db w1); w2 = w1\<lparr>w_db := db\<rparr>;
               w3 = (case r of
                       Success \<Rightarrow> releaseConnection conn w2
                     | SQLException code \<Rightarrow>
                         if lost_connection code then w2\<lparr>w_vecConnection := []\<rparr> else w2
                     | RuntimeError \<Rightarrow> w2)
           in w3\<lparr>w_timer := True\<rparr>))"

section \<open>What a write leaves alone\<close>

lemma getConnection_queue: "getConnection drv w = (res, w1) \<Longrightarrow> w_queue w1 = w_queue w"
  by (auto simp: getConnection_def split: list.splits prod.splits)

lemma run_statement_queue: "run_statement drv conn k ps w = (r, w1) \<Longrightarrow> w_queue w1 = w_queue w"
  by (auto simp: run_statement_def prepareStatement_def executeUpdate_def Let_def
      split: option.splits prod.splits if_splits)

lemma run_two_queue: "run_two drv conn k1 ps1 k2 ps2 w = (r, w1) \<Longrightarrow> w_queue w1 = w_queue w"
  by (auto simp: run_two_def split: prod.splits if_splits dest!: run_statement_queue)

lemma handle_exceptions_queue: "w_queue (snd (handle_exceptions ks rw)) = w_queue (snd rw)"
  by (auto simp: handle_exceptions_def split: prod.splits sql_result.splits)

lemma write_event_queue: "w_queue (snd (write_event drv c conn w)) = w_queue w"
proof -
  have "w_queue (snd (run_statement drv conn k ps w)) = w_queue w"
    "w_queue (snd (run_two drv conn k ps k2 ps2 w)) = w_queue w" for k ps k2 ps2
    using run_statement_queue run_two_queue by (metis prod.collapse)+
  then show ?thesis
    by (cases "cdr_cdrType c")
      (simp_all add: write_event_def writeOriginationRequestCdr_def writeOriginationFinalResponseCdr_def
        writeOriginationCancelCdr_def writeTerminationAttemptCdr_def writeByeCdr_def handle_exceptions_queue)
qed

lemma writeCdr_queue: "w_queue (writeCdr drv c w) = w_queue w"
  using write_event_queue [of drv c]
  by (auto simp: writeCdr_def releaseConnection_def split: prod.splits option.splits
      dest!: getConnection_queue) (metis snd_conv)+

end
