(* ===== verification/Cdr_Database.thy ===== *)
theory Cdr_Database
  imports Cdr_Writer
begin

text \<open>
  What the writer's statements do to the tables of \<open>database/ssp.sql\<close>, and that the writer brings
  every record to them. The locale \<open>healthy_driver\<close> is the contract used of the MySQL driver: a
  live connection executes a statement with its effect on the tables. \<open>mysql\<close> is a driver whose
  connections can also be lost, after which their use fails with error 2006; it meets the contract.
\<close>

section \<open>Tables\<close>

record session_row =
  s_session_uuid :: string
  s_start_time :: sqlval
  s_connect_time :: sqlval
  s_end_time :: sqlval
  s_final_sip_status :: sqlval
  s_release_cause :: sqlval
  s_originating_carrier :: sqlval
  s_originating_carrier_ip_address :: sqlval
  s_terminating_carrier :: sqlval
  s_terminating_carrier_ip_address :: sqlval
  s_originating_edge_server_ip_address :: sqlval
  s_terminating_edge_server_ip_address :: sqlval
  s_fs_ip_address :: sqlval
  s_calling_party_number :: sqlval
  s_called_party_number_in :: sqlval
  s_called_party_number_out :: sqlval
  s_fs_assigned_customer :: sqlval
  s_fs_assigned_call_id :: sqlval
  s_a_leg_sip_call_id :: sqlval
  s_b_leg_sip_call_id :: sqlval
  s_c_leg_sip_call_id :: sqlval
  s_d_leg_sip_call_id :: sqlval

record attempt_row =
  t_cdr_session_uuid :: string
  t_start_time :: sqlval
  t_connect_time :: sqlval
  t_end_time :: sqlval
  t_final_sip_status :: sqlval
  t_sip_call_id :: sqlval
  t_terminating_carrier :: sqlval
  t_terminating_carrier_ip_address :: sqlval
  t_attempt_sequence :: nat

record cdr_tables =
  cdr_session :: "session_row list"
  termination_attempts :: "attempt_row list"

definition has_session :: "string \<Rightarrow> cdr_tables \<Rightarrow> bool" where
  "has_session u t \<longleftrightarrow> list_ex (\<lambda>r. s_session_uuid r = u) (cdr_session t)"

definition update_session :: "string \<Rightarrow> (session_row \<Rightarrow> session_row) \<Rightarrow> cdr_tables \<Rightarrow> cdr_tables" where
  "update_session u f t =
     t\<lparr>cdr_session := map (\<lambda>r. if s_session_uuid r = u then f r else r) (cdr_session t)\<rparr>"

definition attempts_of :: "string \<Rightarrow> cdr_tables \<Rightarrow> attempt_row list" where
  "attempts_of u t = filter (\<lambda>r. t_cdr_session_uuid r = u) (termination_attempts t)"

text \<open>The trigger: one more than the largest sequence number of the session.\<close>

definition next_sequence :: "string \<Rightarrow> cdr_tables \<Rightarrow> nat" where
  "next_sequence u t = fold max (map t_attempt_sequence (attempts_of u t)) 0 + 1"

text \<open>
  The seven statements. The unique index refuses a second row for a session (error 1062), the
  foreign key a termination attempt without one (error 1452).
\<close>

fun key_string :: "sqlval \<Rightarrow> string" where
  "key_string (VString u) = u"
| "key_string _ = []"

definition insert_session :: "sqlval list \<Rightarrow> cdr_tables \<Rightarrow> sql_result \<times> cdr_tables" where
  "insert_session ps t =
     (if has_session (key_string (ps ! 0)) t then (SQLException 1062, t)
      else (Success, t\<lparr>cdr_session := cdr_session t @
        [\<lparr>s_session_uuid = key_string (ps ! 0), s_start_time = ps ! 1, s_connect_time = VNull,
          s_end_time = ps ! 12, s_final_sip_status = ps ! 10, s_release_cause = ps ! 11,
          s_originating_carrier = ps ! 2, s_originating_carrier_ip_address = ps ! 3,
          s_terminating_carrier = VNull, s_terminating_carrier_ip_address = VNull,
          s_originating_edge_server_ip_address = ps ! 4,
          s_terminating_edge_server_ip_address = VNull, s_fs_ip_address = ps ! 5,
          s_calling_party_number = ps ! 6, s_called_party_number_in = ps ! 7,
          s_called_party_number_out = VNull, s_fs_assigned_customer = VNull,
          s_fs_assigned_call_id = VNull, s_a_leg_sip_call_id = ps ! 8, s_b_leg_sip_call_id = ps ! 9,
          s_c_leg_sip_call_id = VNull, s_d_leg_sip_call_id = VNull\<rparr>]\<rparr>))"

definition insert_attempt :: "sqlval list \<Rightarrow> cdr_tables \<Rightarrow> sql_result \<times> cdr_tables" where
  "insert_attempt ps t =
     (if has_session (key_string (ps ! 0)) t
      then (Success, t\<lparr>termination_attempts := termination_attempts t @
        [\<lparr>t_cdr_session_uuid = key_string (ps ! 0), t_start_time = ps ! 1, t_connect_time = ps ! 2,
          t_end_time = ps ! 3, t_final_sip_status = ps ! 4, t_sip_call_id = ps ! 5,
          t_terminating_carrier = ps ! 6, t_terminating_carrier_ip_address = ps ! 7,
          t_attempt_sequence = next_sequence (key_string (ps ! 0)) t\<rparr>]\<rparr>)
      else (SQLException 1452, t))"

definition end_attempts :: "string \<Rightarrow> sqlval \<Rightarrow> cdr_tables \<Rightarrow> cdr_tables" where
  "end_attempts u tend t =
     t\<lparr>termination_attempts := map (\<lambda>r.
        if t_cdr_session_uuid r = u \<and> t_final_sip_status r = VInt 200 then r\<lparr>t_end_time := tend\<rparr> else r)
        (termination_attempts t)\<rparr>"

fun apply_stmt :: "cdr_stmt \<Rightarrow> sqlval list \<Rightarrow> cdr_tables \<Rightarrow> sql_result \<times> cdr_tables" where
  "apply_stmt stmtOrig ps t = insert_session ps t"
| "apply_stmt stmtFinal ps t =
     (Success, update_session (key_string (ps ! 4)) (\<lambda>r. r\<lparr>s_final_sip_status := ps ! 0,
        s_connect_time := ps ! 1, s_end_time := ps ! 2, s_release_cause := ps ! 3\<rparr>) t)"
| "apply_stmt stmtCancel ps t =
     (Success, update_session (key_string (ps ! 2)) (\<lambda>r. r\<lparr>s_final_sip_status := VInt 487,
        s_end_time := ps ! 0, s_release_cause := ps ! 1\<rparr>) t)"
| "apply_stmt stmtTerm1 ps t = insert_attempt ps t"
| "apply_stmt stmtTerm2 ps t =
     (Success, update_session (key_string (ps ! 8))
        (\<lambda>r. r\<lparr>s_terminating_edge_server_ip_address := ps ! 0, s_terminating_carrier := ps ! 1,
           s_terminating_carrier_ip_address := ps ! 2, s_c_leg_sip_call_id := ps ! 3,
           s_d_leg_sip_call_id := ps ! 4, s_fs_assigned_customer := ps ! 5,
           s_fs_assigned_call_id := ps ! 6, s_called_party_number_out := ps ! 7\<rparr>) t)"
| "apply_stmt stmtBye1 ps t =
     (Success, update_session (key_string (ps ! 2))
        (\<lambda>r. r\<lparr>s_end_time := ps ! 0, s_release_cause := ps ! 1\<rparr>) t)"
| "apply_stmt stmtBye2 ps t = (Success, end_attempts (key_string (ps ! 1)) (ps ! 0) t)"

definition apply_two ::
  "cdr_stmt \<Rightarrow> sqlval list \<Rightarrow> cdr_stmt \<Rightarrow> sqlval list \<Rightarrow> cdr_tables \<Rightarrow> sql_result \<times> cdr_tables" where
  "apply_two k1 ps1 k2 ps2 t =
     (let (r, t1) = apply_stmt k1 ps1 t in if r = Success then apply_stmt k2 ps2 t1 else (r, t1))"

text \<open>The specification: the effect of one record on the tables.\<close>

definition record_event :: "CdrInfo \<Rightarrow> cdr_tables \<Rightarrow> cdr_tables" where
  "record_event c t = snd
     (case cdr_cdrType c of
        origination_request \<Rightarrow> apply_stmt stmtOrig (orig_params c) t
      | origination_final_response \<Rightarrow> apply_stmt stmtFinal (final_params c) t
      | origination_cancel \<Rightarrow> apply_stmt stmtCancel (cancel_params c) t
      | termination_attempt \<Rightarrow>
          apply_two stmtTerm1 (term1_params c) stmtTerm2 (term2_params c) t
      | call_cleared \<Rightarrow> apply_two stmtBye1 (bye1_params c) stmtBye2 (bye2_params c) t)"

lemma apply_stmt_not_lost: "fst (apply_stmt k ps t) = SQLException code \<Longrightarrow> \<not> lost_connection code"
  by (cases k) (auto simp: lost_connection_def insert_session_def insert_attempt_def split: if_splits)

section \<open>The writer and its thread\<close>

text \<open>
  What happens to the writer, in any order: a record is posted, the thread writes the next one, as
  the store is at that moment, or the timer of the connection test expires.
\<close>

datatype writer_event = Posted nat | NextWritten "nat \<Rightarrow> CdrInfo" | TestTimer

definition writer_event_step :: "'db sql_driver \<Rightarrow> writer_event \<Rightarrow> 'db cdr_writer \<Rightarrow> 'db cdr_writer" where
  "writer_event_step drv e w =
     (case e of
        Posted p \<Rightarrow> postCdr p w
      | NextWritten heap \<Rightarrow> writer_step drv heap w
      | TestTimer \<Rightarrow> if w_timer w then cdr_timer_handler drv True (w\<lparr>w_timer := False\<rparr>) else w)"

text \<open>The specification: a queue of records and the tables, with no driver, connections or statements.\<close>

fun log_event :: "writer_event \<Rightarrow> nat list \<times> cdr_tables \<Rightarrow> nat list \<times> cdr_tables" where
  "log_event (Posted p) (q, t) = (q @ [p], t)"
| "log_event (NextWritten heap) (q, t) = (case q of [] \<Rightarrow> (q, t) | p # ps \<Rightarrow> (ps, record_event (heap p) t))"
| "log_event TestTimer (q, t) = (q, t)"

section \<open>The contract of the driver\<close>

text \<open>The pool holds at most one connection; pool and statements are on live connections.\<close>

definition stmts_live :: "('db \<Rightarrow> nat \<Rightarrow> bool) \<Rightarrow> 'db cdr_writer \<Rightarrow> bool" where
  "stmts_live live w \<longleftrightarrow> (\<forall>k c. w_stmts w k = Some c \<longrightarrow> live (w_db w) c)"

definition writer_ok :: "('db \<Rightarrow> nat \<Rightarrow> bool) \<Rightarrow> 'db cdr_writer \<Rightarrow> bool" where
  "writer_ok live w \<longleftrightarrow>
     length (w_vecConnection w) \<le> 1 \<and> (\<forall>c \<in> set (w_vecConnection w). live (w_db w) c) \<and>
     stmts_live live w"

locale healthy_driver =
  fixes drv :: "'db sql_driver"
    and tables :: "'db \<Rightarrow> cdr_tables"
    and live :: "'db \<Rightarrow> nat \<Rightarrow> bool"
  assumes connect_live: "drv_connect drv db = (Some conn, db') \<Longrightarrow> live db' conn"
    and connect_some: "\<exists>conn db'. drv_connect drv db = (Some conn, db')"
    and connect_keeps: "drv_connect drv db = (res, db') \<Longrightarrow>
      tables db' = tables db \<and> (live db c \<longrightarrow> live db' c)"
    and setup_keeps: "live db conn \<Longrightarrow> drv_setSchema drv conn db = (r, db') \<or> drv_setAutoCommit drv conn db = (r, db') \<Longrightarrow>
      tables db' = tables db \<and> (live db c \<longrightarrow> live db' c)"
    and prepare_ok: "live db conn \<Longrightarrow> drv_prepare drv conn k db = (r, db') \<Longrightarrow>
      r = Success \<and> tables db' = tables db \<and> (live db c \<longrightarrow> live db' c)"
    and execute_ok: "live db conn \<Longrightarrow> drv_execute drv conn k ps db = (r, db') \<Longrightarrow>
      apply_stmt k ps (tables db) = (r, tables db') \<and> (live db c \<longrightarrow> live db' c)"
    and test_ok: "live db conn \<Longrightarrow> drv_test drv conn db = (r, db') \<Longrightarrow>
      r = Success \<and> tables db' = tables db \<and> (live db c \<longrightarrow> live db' c)"
begin

lemma newConnection_ok:
  obtains conn db' where "newConnection drv db = (Some conn, db')" "live db' conn" "tables db' = tables db"
    "\<forall>c. live db c \<longrightarrow> live db' c"
proof -
  obtain conn db1 where c: "drv_connect drv db = (Some conn, db1)" using connect_some by blast
  obtain r db2 where s: "drv_setSchema drv conn db1 = (r, db2)" by fastforce
  obtain r' db3 where a: "drv_setAutoCommit drv conn db2 = (r', db3)" by fastforce
  have l1: "live db1 conn" "tables db1 = tables db" "\<And>c. live db c \<Longrightarrow> live db1 c"
    using connect_live [OF c] connect_keeps [OF c] by blast+
  have l2: "tables db2 = tables db1" "\<And>c. live db1 c \<Longrightarrow> live db2 c" using setup_keeps [OF l1(1)] s by blast+
  have l3: "tables db3 = tables db2" "\<And>c. live db2 c \<Longrightarrow> live db3 c" using setup_keeps [OF l2(2) [OF l1(1)]] a by blast+
  show ?thesis
  proof (cases "r = Success")
    case True
    with c s a have "newConnection drv db = (Some conn, db3)" by (simp add: newConnection_def)
    then show ?thesis using that l1 l2 l3 by metis
  next
    case False
    with c s have "newConnection drv db = (Some conn, db2)" by (simp add: newConnection_def)
    then show ?thesis using that l1 l2 by metis
  qed
qed

lemma getConnection_ok:
  assumes "writer_ok live w" "getConnection drv w = (res, w1)"
  shows "\<exists>conn. res = Some conn \<and> live (w_db w1) conn \<and> w_vecConnection w1 = [] \<and>
    w_stmts w1 = w_stmts w \<and> (\<forall>k c. w_stmts w k = Some c \<longrightarrow> live (w_db w1) c) \<and>
    tables (w_db w1) = tables (w_db w)"
proof (cases "w_vecConnection w")
  case Nil
  obtain conn db' where "newConnection drv (w_db w) = (Some conn, db')" "live db' conn" "tables db' = tables (w_db w)"
    "\<forall>c. live (w_db w) c \<longrightarrow> live db' c" by (rule newConnection_ok [of "w_db w"])
  with assms Nil show ?thesis
    by (auto simp: getConnection_def writer_ok_def stmts_live_def)
next
  case (Cons conn conns)
  with assms show ?thesis by (auto simp: getConnection_def writer_ok_def stmts_live_def)
qed

lemma run_statement_ok:
  assumes w: "stmts_live live w" and conn: "live (w_db w) conn"
    and r: "run_statement drv conn k ps w = (r, w')"
  shows "apply_stmt k ps (tables (w_db w)) = (r, tables (w_db w')) \<and> stmts_live live w' \<and>
    (\<forall>c. live (w_db w) c \<longrightarrow> live (w_db w') c) \<and> w_vecConnection w' = w_vecConnection w"
proof -
  obtain c w1 where c: "w_stmts w1 k = Some c" "stmts_live live w1" "prepareStatement drv conn k w = (Success, w1)"
    "tables (w_db w1) = tables (w_db w)" "\<forall>c. live (w_db w) c \<longrightarrow> live (w_db w1) c"
    "w_vecConnection w1 = w_vecConnection w"
  proof (cases "w_stmts w k")
    case None
    obtain r db' where p: "drv_prepare drv conn k (w_db w) = (r, db')" by fastforce
    have "r = Success \<and> tables db' = tables (w_db w) \<and> (live (w_db w) c \<longrightarrow> live db' c)" for c
      by (rule prepare_ok [OF conn p])
    with None w conn p that [of "w\<lparr>w_db := db', w_stmts := (w_stmts w)(k := Some conn)\<rparr>" conn]
    show thesis by (auto simp: prepareStatement_def stmts_live_def)
  next
    case (Some c)
    with w that [of w c] show thesis by (auto simp: prepareStatement_def)
  qed
  obtain r' db' where e: "drv_execute drv c k ps (w_db w1) = (r', db')" by fastforce
  have live: "live (w_db w1) c" using c(1,2) by (simp add: stmts_live_def)
  have "apply_stmt k ps (tables (w_db w1)) = (r', tables db') \<and> (live (w_db w1) d \<longrightarrow> live db' d)" for d
    by (rule execute_ok [OF live e])
  with c e r show ?thesis
    by (auto simp: run_statement_def executeUpdate_def stmts_live_def)
qed

lemma run_two_ok:
  assumes w: "stmts_live live w" and conn: "live (w_db w) conn"
    and r: "run_two drv conn k1 ps1 k2 ps2 w = (r, w')"
  shows "apply_two k1 ps1 k2 ps2 (tables (w_db w)) = (r, tables (w_db w')) \<and> stmts_live live w' \<and>
    (\<forall>c. live (w_db w) c \<longrightarrow> live (w_db w') c) \<and> w_vecConnection w' = w_vecConnection w"
proof -
  obtain r1 w1 where 1: "run_statement drv conn k1 ps1 w = (r1, w1)" by fastforce
  note ok1 = run_statement_ok [OF w conn 1]
  show ?thesis
  proof (cases "r1 = Success")
    case True
    with r 1 have 2: "run_statement drv conn k2 ps2 w1 = (r, w')" by (simp add: run_two_def)
    have "stmts_live live w1" "live (w_db w1) conn" using ok1 conn by simp_all
    from run_statement_ok [OF this 2] ok1 True show ?thesis by (auto simp: apply_two_def)
  next
    case False
    with r 1 ok1 show ?thesis by (simp add: run_two_def apply_two_def)
  qed
qed

end

context healthy_driver
begin

text \<open>No statement on a live connection loses it, so the handlers rethrow nothing.\<close>

lemma handled:
  assumes "apply_stmt k ps t = (r, t') \<or> apply_two k ps k2 ps2 t = (r, t')"
  shows "handle_exceptions ks (r, w) = (None, w)"
proof -
  have "\<not> lost_connection code" if "r = SQLException code" for code
    using assms that apply_stmt_not_lost [of k ps t code] apply_stmt_not_lost [of k2 ps2 _ code]
    by (auto simp: apply_two_def split: prod.splits if_splits) (metis fst_conv)+
  then show ?thesis by (cases r) (simp_all add: handle_exceptions_def)
qed

lemma write_event_ok:
  assumes w: "stmts_live live w" and conn: "live (w_db w) conn"
  shows "\<exists>w'. write_event drv c conn w = (None, w') \<and> tables (w_db w') = record_event c (tables (w_db w)) \<and>
    stmts_live live w' \<and> live (w_db w') conn \<and> w_vecConnection w' = w_vecConnection w"
proof -
  have one: "\<exists>w'. handle_exceptions ks (run_statement drv conn k ps w) = (None, w') \<and>
      tables (w_db w') = snd (apply_stmt k ps (tables (w_db w))) \<and>
      stmts_live live w' \<and> live (w_db w') conn \<and> w_vecConnection w' = w_vecConnection w" for ks k ps
  proof -
    obtain r w' where r: "run_statement drv conn k ps w = (r, w')" by fastforce
    note ok = run_statement_ok [OF w conn r]
    then have "handle_exceptions ks (r, w') = (None, w')" by (intro handled [of k ps]) blast
    with ok conn show ?thesis by (simp add: r)
  qed
  have two: "\<exists>w'. handle_exceptions ks (run_two drv conn k1 ps1 k2 ps2 w) = (None, w') \<and>
      tables (w_db w') = snd (apply_two k1 ps1 k2 ps2 (tables (w_db w))) \<and>
      stmts_live live w' \<and> live (w_db w') conn \<and> w_vecConnection w' = w_vecConnection w"
    for ks k1 ps1 k2 ps2
  proof -
    obtain r w' where r: "run_two drv conn k1 ps1 k2 ps2 w = (r, w')" by fastforce
    note ok = run_two_ok [OF w conn r]
    then have "handle_exceptions ks (r, w') = (None, w')" by (intro handled [of k1 ps1]) blast
    with ok conn show ?thesis by (simp add: r)
  qed
  show ?thesis
    by (cases "cdr_cdrType c")
      (simp_all add: write_event_def record_event_def writeOriginationRequestCdr_def
        writeOriginationFinalResponseCdr_def writeOriginationCancelCdr_def
        writeTerminationAttemptCdr_def writeByeCdr_def one two del: apply_stmt.simps)
qed

lemma writeCdr_refines:
  assumes w: "writer_ok live w"
  shows "writer_ok live (writeCdr drv c w) \<and>
    tables (w_db (writeCdr drv c w)) = record_event c (tables (w_db w))"
proof -
  obtain res w1 where g: "getConnection drv w = (res, w1)" by fastforce
  from getConnection_ok [OF w g] obtain conn where conn: "res = Some conn" "live (w_db w1) conn"
    "w_vecConnection w1 = []" "stmts_live live w1" "tables (w_db w1) = tables (w_db w)"
    by (auto simp: stmts_live_def)
  from write_event_ok [OF conn(4,2), of c] obtain w2 where
    "write_event drv c conn w1 = (None, w2)" "tables (w_db w2) = record_event c (tables (w_db w1))"
    "stmts_live live w2" "live (w_db w2) conn" "w_vecConnection w2 = []"
    using conn(3) by auto
  with g conn show ?thesis
    by (auto simp: writeCdr_def releaseConnection_def writer_ok_def stmts_live_def)
qed

text \<open>The queue is worked off in order.\<close>

lemma writer_ok_queue [simp]: "writer_ok live (w\<lparr>w_queue := q\<rparr>) \<longleftrightarrow> writer_ok live w"
  by (simp add: writer_ok_def stmts_live_def)

lemma writer_step_refines:
  assumes "writer_ok live w"
  shows "writer_ok live (writer_step drv heap w)"
    "(w_queue (writer_step drv heap w), tables (w_db (writer_step drv heap w))) =
      log_event (NextWritten heap) (w_queue w, tables (w_db w))"
  using assms writeCdr_refines [of "w\<lparr>w_queue := tl (w_queue w)\<rparr>" "heap (hd (w_queue w))"]
  by (auto simp: writer_step_def writeCdr_queue split: list.splits)

lemma test_refines:
  assumes "writer_ok live w"
  shows "writer_ok live (cdr_timer_handler drv True w)"
    "w_queue (cdr_timer_handler drv True w) = w_queue w" "tables (w_db (cdr_timer_handler drv True w)) = tables (w_db w)"
proof -
  obtain res w1 where g: "getConnection drv w = (res, w1)" by fastforce
  from getConnection_ok [OF assms g] obtain conn where conn: "res = Some conn" "live (w_db w1) conn"
    "w_vecConnection w1 = []" "stmts_live live w1" "tables (w_db w1) = tables (w_db w)"
    by (auto simp: stmts_live_def)
  obtain r db where t: "drv_test drv conn (w_db w1) = (r, db)" by fastforce
  have db: "r = Success" "tables db = tables (w_db w1)" "\<And>c. live (w_db w1) c \<Longrightarrow> live db c" using test_ok [OF conn(2) t] by blast+
  have "cdr_timer_handler drv True w = (releaseConnection conn (w1\<lparr>w_db := db\<rparr>))\<lparr>w_timer := True\<rparr>"
    using g conn(1) t db(1) by (simp add: cdr_timer_handler_def)
  then show "writer_ok live (cdr_timer_handler drv True w)"
    "w_queue (cdr_timer_handler drv True w) = w_queue w" "tables (w_db (cdr_timer_handler drv True w)) = tables (w_db w)"
    using conn db getConnection_queue [OF g] by (auto simp: releaseConnection_def writer_ok_def stmts_live_def)
qed

lemma events_refine:
  assumes "writer_ok live w"
  shows "writer_ok live (fold (writer_event_step drv) es w) \<and>
    (w_queue (fold (writer_event_step drv) es w), tables (w_db (fold (writer_event_step drv) es w))) =
      fold log_event es (w_queue w, tables (w_db w))"
  using assms
proof (induction es arbitrary: w)
  case (Cons e es)
  have timer: "writer_ok live (w\<lparr>w_timer := False\<rparr>)" using Cons.prems by (simp add: writer_ok_def stmts_live_def)
  have "writer_ok live (writer_event_step drv e w) \<and>
      (w_queue (writer_event_step drv e w), tables (w_db (writer_event_step drv e w))) = log_event e (w_queue w, tables (w_db w))"
  proof (cases e)
    case (Posted p)
    then show ?thesis using Cons.prems by (simp add: writer_event_step_def postCdr_def)
  next
    case (NextWritten heap)
    then show ?thesis using writer_step_refines [OF Cons.prems] by (simp add: writer_event_step_def)
  next
    case TestTimer
    then show ?thesis using Cons.prems test_refines [OF timer] by (simp add: writer_event_step_def)
  qed
  with Cons.IH [of "writer_event_step drv e w"] show ?case by simp
qed simp

lemma drain_refines:
  assumes "writer_ok live w" "length (w_queue w) = n"
  shows "writer_ok live ((writer_step drv heap ^^ n) w) \<and> w_queue ((writer_step drv heap ^^ n) w) = [] \<and>
    tables (w_db ((writer_step drv heap ^^ n) w)) =
      fold (\<lambda>p. record_event (heap p)) (w_queue w) (tables (w_db w))"
  using assms
proof (induction n arbitrary: w)
  case (Suc n)
  then obtain p ps where q: "w_queue w = p # ps" "length ps = n" by (cases "w_queue w") auto
  let ?w = "writeCdr drv (heap p) (w\<lparr>w_queue := ps\<rparr>)"
  have "writer_step drv heap w = ?w" by (simp add: writer_step_def q)
  moreover have "writer_ok live ?w \<and> tables (w_db ?w) = record_event (heap p) (tables (w_db w))"
    using writeCdr_refines [of "w\<lparr>w_queue := ps\<rparr>" "heap p"] Suc.prems(1) by simp
  moreover have "w_queue ?w = ps" by (simp add: writeCdr_queue)
  ultimately show ?case
    using Suc.IH [of ?w] q by (simp add: funpow_Suc_right del: funpow.simps)
qed simp

end

section \<open>A driver with connections that can be lost\<close>

record mysql =
  my_tables :: cdr_tables
  my_next :: nat
  my_lost :: "nat list"

definition my_live :: "mysql \<Rightarrow> nat \<Rightarrow> bool" where
  "my_live db conn \<longleftrightarrow> conn < my_next db \<and> conn \<notin> set (my_lost db)"

definition mysql_driver :: "mysql sql_driver" where
  "mysql_driver =
     \<lparr>drv_connect = (\<lambda>db. (Some (my_next db), db\<lparr>my_next := my_next db + 1,
         my_lost := removeAll (my_next db) (my_lost db)\<rparr>)),
      drv_setSchema = (\<lambda>conn db. if my_live db conn then (Success, db) else (SQLException 2006, db)),
      drv_setAutoCommit = (\<lambda>conn db. if my_live db conn then (Success, db) else (SQLException 2006, db)),
      drv_prepare = (\<lambda>conn k db. if my_live db conn then (Success, db) else (SQLException 2006, db)),
      drv_execute = (\<lambda>conn k ps db.
        if my_live db conn
        then (let (r, t) = apply_stmt k ps (my_tables db) in (r, db\<lparr>my_tables := t\<rparr>))
        else (SQLException 2006, db)),
      drv_test = (\<lambda>conn db. if my_live db conn then (Success, db) else (SQLException 2006, db))\<rparr>"

interpretation my: healthy_driver mysql_driver my_tables my_live
  by unfold_locales (auto simp: mysql_driver_def my_live_def split: if_splits prod.splits)

text \<open>All connections that are open are lost.\<close>

definition lose_connections :: "mysql \<Rightarrow> mysql" where
  "lose_connections db = db\<lparr>my_lost := [0..<my_next db]\<rparr>"

section \<open>Rows of a session\<close>

definition session_of :: "string \<Rightarrow> cdr_tables \<Rightarrow> session_row option" where
  "session_of u t = find (\<lambda>r. s_session_uuid r = u) (cdr_session t)"

lemma has_session_iff: "has_session u t \<longleftrightarrow> session_of u t \<noteq> None"
  by (induction "cdr_session t") (auto simp: has_session_def session_of_def find_None_iff list_ex_iff)

lemma session_of_update:
  assumes "\<And>r. s_session_uuid (f r) = s_session_uuid r"
  shows "session_of v (update_session u f t) =
    (if v = u then map_option f (session_of u t) else session_of v t)"
proof -
  have "find (\<lambda>r. s_session_uuid r = v) (map (\<lambda>r. if s_session_uuid r = u then f r else r) rs) =
      (if v = u then map_option f (find (\<lambda>r. s_session_uuid r = u) rs)
       else find (\<lambda>r. s_session_uuid r = v) rs)" for rs
    by (induction rs) (auto simp: assms)
  then show ?thesis by (simp add: session_of_def update_session_def)
qed

lemma session_of_attempts [simp]: "session_of u (t\<lparr>termination_attempts := as\<rparr>) = session_of u t"
  by (simp add: session_of_def)

lemma attempts_of_update [simp]: "attempts_of u (update_session v f t) = attempts_of u t"
  by (simp add: attempts_of_def update_session_def)

lemma attempts_of_sessions [simp]: "attempts_of u (t\<lparr>cdr_session := ss\<rparr>) = attempts_of u t"
  by (simp add: attempts_of_def)

lemma find_append_None: "find P (xs @ ys) = (case find P xs of None \<Rightarrow> find P ys | Some x \<Rightarrow> Some x)"
  by (induction xs) auto

lemma record_origination:
  assumes "cdr_cdrType c = origination_request" "session_of (cdr_uuid c) t = None"
  shows "\<exists>r. session_of (cdr_uuid c) (record_event c t) = Some r \<and>
      s_start_time r = VDateTime (getTimeStartFormatted c) \<and> s_connect_time r = VNull \<and>
      s_originating_carrier r = VString (cdr_originatingCarrier c) \<and>
      s_a_leg_sip_call_id r = VString (cdr_alegCallId c)"
    and "attempts_of u (record_event c t) = attempts_of u t"
  using assms
  by (auto simp: record_event_def insert_session_def has_session_iff orig_params_def session_of_def
      find_append_None split: option.splits)

lemma record_final:
  assumes "cdr_cdrType c = origination_final_response" "session_of (cdr_uuid c) t = Some r"
  shows "session_of (cdr_uuid c) (record_event c t) = Some
      (if cdr_sipStatus c = 200
       then r\<lparr>s_final_sip_status := VInt 200, s_connect_time := VDateTime (getTimeConnectFormatted c),
              s_end_time := VNull, s_release_cause := VInt 0\<rparr>
       else r\<lparr>s_final_sip_status := VInt (sint (cdr_sipStatus c)), s_connect_time := VNull,
              s_end_time := VDateTime (getTimeEndFormatted c), s_release_cause := VInt 4\<rparr>)"
    and "attempts_of u (record_event c t) = attempts_of u t"
  using assms by (auto simp: record_event_def final_params_def session_of_update)

lemma record_attempt:
  assumes "cdr_cdrType c = termination_attempt" "session_of (cdr_uuid c) t = Some r"
  shows "\<exists>r'. session_of (cdr_uuid c) (record_event c t) = Some r' \<and>
      s_start_time r' = s_start_time r \<and> s_originating_carrier r' = s_originating_carrier r \<and>
      s_a_leg_sip_call_id r' = s_a_leg_sip_call_id r \<and>
      s_terminating_carrier r' = VString (cdr_terminatingCarrier c)"
    and "attempts_of (cdr_uuid c) (record_event c t) = attempts_of (cdr_uuid c) t @
      [\<lparr>t_cdr_session_uuid = cdr_uuid c, t_start_time = VDateTime (getTimeStartFormatted c),
        t_connect_time = (if cdr_sipStatus c = 200 then VDateTime (getTimeConnectFormatted c) else VNull),
        t_end_time = (if cdr_sipStatus c = 200 then VNull else VDateTime (getTimeEndFormatted c)),
        t_final_sip_status = VInt (sint (cdr_sipStatus c)), t_sip_call_id = VString (cdr_dlegCallId c),
        t_terminating_carrier = VString (cdr_terminatingCarrier c),
        t_terminating_carrier_ip_address = VString (cdr_terminatingCarrierAddress c),
        t_attempt_sequence = next_sequence (cdr_uuid c) t\<rparr>]"
  using assms
  by (auto simp: record_event_def apply_two_def insert_attempt_def has_session_iff term1_params_def
      term2_params_def session_of_update)
    (simp_all add: attempts_of_def)

lemma session_of_end [simp]: "session_of u (end_attempts v e t) = session_of u t"
  by (simp add: end_attempts_def)

lemma attempts_of_end:
  "attempts_of u (end_attempts u e t) =
     map (\<lambda>r. if t_final_sip_status r = VInt 200 then r\<lparr>t_end_time := e\<rparr> else r) (attempts_of u t)"
proof -
  have "filter (\<lambda>r. t_cdr_session_uuid r = u) (map (\<lambda>r. if t_cdr_session_uuid r = u \<and>
      t_final_sip_status r = VInt 200 then r\<lparr>t_end_time := e\<rparr> else r) rs) =
    map (\<lambda>r. if t_final_sip_status r = VInt 200 then r\<lparr>t_end_time := e\<rparr> else r)
      (filter (\<lambda>r. t_cdr_session_uuid r = u) rs)" for rs
    by (induction rs) auto
  then show ?thesis by (simp add: attempts_of_def end_attempts_def)
qed

lemma record_cleared:
  assumes "cdr_cdrType c = call_cleared" "session_of (cdr_uuid c) t = Some r"
  shows "session_of (cdr_uuid c) (record_event c t) = Some
      (r\<lparr>s_end_time := VDateTime (getTimeEndFormatted c), s_release_cause := VInt (release_code (cdr_releaseCause c))\<rparr>)"
    and "attempts_of (cdr_uuid c) (record_event c t) =
      map (\<lambda>r. if t_final_sip_status r = VInt 200 then r\<lparr>t_end_time := VDateTime (getTimeEndFormatted c)\<rparr> else r)
        (attempts_of (cdr_uuid c) t)"
  using assms
  by (simp_all add: record_event_def apply_two_def bye1_params_def bye2_params_def session_of_update
      attempts_of_end)

text \<open>The row of one termination attempt, and the rows of several of them in a row.\<close>

definition attempt_row_of :: "CdrInfo \<Rightarrow> nat \<Rightarrow> attempt_row" where
  "attempt_row_of c n =
     \<lparr>t_cdr_session_uuid = cdr_uuid c, t_start_time = VDateTime (getTimeStartFormatted c),
      t_connect_time = (if cdr_sipStatus c = 200 then VDateTime (getTimeConnectFormatted c) else VNull),
      t_end_time = (if cdr_sipStatus c = 200 then VNull else VDateTime (getTimeEndFormatted c)),
      t_final_sip_status = VInt (sint (cdr_sipStatus c)), t_sip_call_id = VString (cdr_dlegCallId c),
      t_terminating_carrier = VString (cdr_terminatingCarrier c),
      t_terminating_carrier_ip_address = VString (cdr_terminatingCarrierAddress c),
      t_attempt_sequence = n\<rparr>"

lemma fold_max_upto: "fold max [Suc 0..<Suc n] 0 = n"
  by (induction n) (simp_all add: max_def)

lemma record_attempts:
  assumes "\<forall>c \<in> set cs. cdr_cdrType c = termination_attempt \<and> cdr_uuid c = u"
    and "session_of u t = Some r"
    and "map t_attempt_sequence (attempts_of u t) = [Suc 0..<Suc n]"
  shows "(\<exists>r'. session_of u (fold record_event cs t) = Some r' \<and> s_start_time r' = s_start_time r \<and>
      (cs \<noteq> [] \<longrightarrow> s_terminating_carrier r' = VString (cdr_terminatingCarrier (last cs)))) \<and>
    attempts_of u (fold record_event cs t) =
      attempts_of u t @ map (\<lambda>(i, c). attempt_row_of c i) (enumerate (Suc n) cs)"
  using assms
proof (induction cs arbitrary: t r n)
  case (Cons c cs)
  have c: "cdr_cdrType c = termination_attempt" "cdr_uuid c = u" using Cons.prems(1) by simp_all
  let ?t = "record_event c t"
  obtain r1 where r1: "session_of u ?t = Some r1" "s_start_time r1 = s_start_time r"
    "s_terminating_carrier r1 = VString (cdr_terminatingCarrier c)"
    using record_attempt(1) [OF c(1), of t r] c(2) Cons.prems(2) by auto
  have "next_sequence u t = Suc n"
    using Cons.prems(3) by (simp add: next_sequence_def fold_max_upto del: upt_Suc)
  then have a: "attempts_of u ?t = attempts_of u t @ [attempt_row_of c (Suc n)]"
    using record_attempt(2) [OF c(1), of t r] c(2) Cons.prems(2) by (simp add: attempt_row_of_def)
  then have "map t_attempt_sequence (attempts_of u ?t) = [Suc 0..<Suc (Suc n)]"
    using Cons.prems(3) by (simp add: attempt_row_of_def)
  note seq = this
  have cs: "\<forall>c \<in> set cs. cdr_cdrType c = termination_attempt \<and> cdr_uuid c = u"
    using Cons.prems(1) by simp
  obtain r' where r': "session_of u (fold record_event cs ?t) = Some r'" "s_start_time r' = s_start_time r1"
    "cs \<noteq> [] \<longrightarrow> s_terminating_carrier r' = VString (cdr_terminatingCarrier (last cs))"
    and a': "attempts_of u (fold record_event cs ?t) =
      attempts_of u ?t @ map (\<lambda>(i, c). attempt_row_of c i) (enumerate (Suc (Suc n)) cs)"
    using Cons.IH [OF cs r1(1) seq] by blast
  show ?case using r' a' r1 a by (cases cs) simp_all
qed simp

lemma sint_200_iff: "sint (s :: u32) = 200 \<longleftrightarrow> s = 200"
proof
  assume "sint s = 200"
  then have "word_of_int (sint s) = (word_of_int 200 :: u32)" by simp
  then show "s = 200" by simp
qed simp

section \<open>Records lost with the connection\<close>

definition my_dead :: "mysql \<Rightarrow> nat \<Rightarrow> bool" where
  "my_dead db conn \<longleftrightarrow> conn < my_next db \<and> conn \<in> set (my_lost db)"

fun stmts_of :: "CdrEvent_t \<Rightarrow> cdr_stmt list" where
  "stmts_of origination_request = [stmtOrig]"
| "stmts_of origination_final_response = [stmtFinal]"
| "stmts_of origination_cancel = [stmtCancel]"
| "stmts_of termination_attempt = [stmtTerm1, stmtTerm2]"
| "stmts_of call_cleared = [stmtBye1, stmtBye2]"

text \<open>All statements of an event type are on lost connections, or have been reset.\<close>

definition stale :: "CdrEvent_t \<Rightarrow> mysql cdr_writer \<Rightarrow> bool" where
  "stale ty w \<longleftrightarrow> (\<forall>k \<in> set (stmts_of ty). \<exists>c. w_stmts w k = Some c \<and> my_dead (w_db w) c)"

definition forgotten :: "CdrEvent_t \<Rightarrow> mysql cdr_writer \<Rightarrow> bool" where
  "forgotten ty w \<longleftrightarrow> (\<forall>k \<in> set (stmts_of ty). w_stmts w k = None)"

lemma stmts_of_disjoint: "ty \<noteq> ty' \<Longrightarrow> k \<in> set (stmts_of ty) \<Longrightarrow> k \<notin> set (stmts_of ty')"
  by (cases ty; cases ty') auto

lemma run_statement_dead:
  assumes "w_stmts w k = Some c" "my_dead (w_db w) c"
  shows "run_statement mysql_driver conn k ps w = (SQLException 2006, w)"
  using assms
  by (simp add: run_statement_def prepareStatement_def executeUpdate_def mysql_driver_def my_dead_def
      my_live_def)

lemma write_event_stale:
  assumes "stale (cdr_cdrType c) w"
  shows "write_event mysql_driver c conn w =
    (Some 2006, w\<lparr>w_stmts := (\<lambda>k. if k \<in> set (stmts_of (cdr_cdrType c)) then None else w_stmts w k)\<rparr>)"
  using assms
  by (cases "cdr_cdrType c")
    (auto simp: stale_def write_event_def writeOriginationRequestCdr_def
      writeOriginationFinalResponseCdr_def writeOriginationCancelCdr_def writeTerminationAttemptCdr_def
      writeByeCdr_def run_two_def run_statement_dead handle_exceptions_def lost_connection_def)

lemma writeCdr_stale:
  assumes "stale (cdr_cdrType c) w"
  shows "my_tables (w_db (writeCdr mysql_driver c w)) = my_tables (w_db w) \<and>
    forgotten (cdr_cdrType c) (writeCdr mysql_driver c w) \<and>
    w_vecConnection (writeCdr mysql_driver c w) = [] \<and>
    (\<forall>ty. ty \<noteq> cdr_cdrType c \<and> stale ty w \<longrightarrow> stale ty (writeCdr mysql_driver c w))"
proof -
  obtain conn w1 where g: "getConnection mysql_driver w = (Some conn, w1)" "w_stmts w1 = w_stmts w"
    "my_tables (w_db w1) = my_tables (w_db w)" "\<And>d. my_dead (w_db w) d \<Longrightarrow> my_dead (w_db w1) d"
    by (cases "w_vecConnection w") (auto simp: getConnection_def newConnection_def mysql_driver_def my_dead_def)
  then have st: "\<And>ty. stale ty w \<Longrightarrow> stale ty w1" by (fastforce simp: stale_def)
  show ?thesis
    using g write_event_stale [OF st [OF assms], of conn] st
    by (auto simp: writeCdr_def lost_connection_def forgotten_def stale_def dest: stmts_of_disjoint)
qed

lemma writes_stale:
  assumes "distinct (map cdr_cdrType cs)" "\<forall>c \<in> set cs. stale (cdr_cdrType c) w"
  shows "my_tables (w_db (fold (writeCdr mysql_driver) cs w)) = my_tables (w_db w)"
  using assms
proof (induction cs arbitrary: w)
  case (Cons c cs)
  have "stale (cdr_cdrType d) (writeCdr mysql_driver c w)" if "d \<in> set cs" for d
  proof -
    have "cdr_cdrType d \<noteq> cdr_cdrType c" using Cons.prems(1) that by (metis distinct.simps(2) imageI list.set_map list.simps(9))
    with Cons.prems(2) writeCdr_stale [of c w] that show ?thesis by simp
  qed
  with Cons writeCdr_stale [of c w] show ?case by simp
qed simp

section \<open>Properties\<close>

text \<open>
  C30. The writer brings every posted record to the database: with a driver that keeps its
  connections, any interleaving of posting, writing and connection tests does to the queue and the
  tables what the specification without driver, connections and statements does, each record being
  written as it is in the store when its turn comes; there is never more than one pooled
  connection, every prepared statement stays on a live one, and from there the thread empties the
  queue in as many steps as it has records.
\<close>

theorem writer_drains_queue:
  assumes "writer_ok my_live w"
  shows "let w1 = fold (writer_event_step mysql_driver) es w;
      w2 = (writer_step mysql_driver heap ^^ length (w_queue w1)) w1 in
    (w_queue w1, my_tables (w_db w1)) = fold log_event es (w_queue w, my_tables (w_db w)) \<and>
    writer_ok my_live w1 \<and> length (w_vecConnection w1) \<le> 1 \<and> w_queue w2 = [] \<and>
    my_tables (w_db w2) = fold (\<lambda>p. record_event (heap p)) (w_queue w1) (my_tables (w_db w1))"
proof -
  note ran = my.events_refine [OF assms, of es]
  with my.drain_refines [OF conjunct1 [OF ran] refl, of heap] show ?thesis by (auto simp: Let_def writer_ok_def)
qed

text \<open>Records for the examples, and a database without rows.\<close>

definition example_cdr :: "CdrEvent_t \<Rightarrow> u32 \<Rightarrow> time_t \<Rightarrow> CdrInfo" where
  "example_cdr ty status tm = (CdrInfo_new ty)\<lparr>cdr_uuid := ''u1'', cdr_sipStatus := status,
     cdr_tmStart := tm, cdr_tmConnect := tm, cdr_tmEnd := tm, cdr_terminatingCarrier := ''level3''\<rparr>"

definition empty_db :: mysql where
  "empty_db = \<lparr>my_tables = \<lparr>cdr_session = [], termination_attempts = []\<rparr>, my_next = 0, my_lost = []\<rparr>"

theorem writer_drains_queue_witness:
  "\<exists>w1. fold (writer_event_step mysql_driver) [Posted 0, NextWritten (\<lambda>p. example_cdr origination_request 486 1371000000), TestTimer]
      (CdrWriter_new empty_db) = w1 \<and> w_queue w1 = [] \<and> map s_final_sip_status (cdr_session (my_tables (w_db w1))) = [VInt 486]"
proof -
  let ?es = "[Posted 0, NextWritten (\<lambda>p. example_cdr origination_request 486 1371000000), TestTimer]"
  obtain w1 where w1: "fold (writer_event_step mysql_driver) ?es (CdrWriter_new empty_db) = w1" by blast
  have start: "writer_ok my_live (CdrWriter_new empty_db)" "w_queue (CdrWriter_new empty_db) = []" "w_db (CdrWriter_new empty_db) = empty_db"
    by (simp_all add: writer_ok_def stmts_live_def CdrWriter_new_def)
  have "(w_queue w1, my_tables (w_db w1)) = fold log_event ?es ([], my_tables empty_db)"
    using writer_drains_queue [OF start(1), of ?es] unfolding Let_def w1 start(2,3) by (rule conjunct1)
  then have q: "w_queue w1 = []"
    and t: "my_tables (w_db w1) = record_event (example_cdr origination_request 486 1371000000) (my_tables empty_db)"
    by simp_all
  have st: "map s_final_sip_status (cdr_session (my_tables (w_db w1))) = [VInt 486]" unfolding t
    by (simp add: record_event_def insert_session_def has_session_def orig_params_def empty_db_def example_cdr_def CdrInfo_new_def)
  show ?thesis by (rule exI [of _ w1], intro conjI w1 q st)
qed

text \<open>
  The rows of an answered call: when the records of one new session are written in the order
  of a call that was answered after any number of failed termination attempts and cleared later,
  the session has one row, with the start time of the request, the connect time of the answer,
  the end time and the release cause of the clearing and the carrier of the last attempt; each
  attempt has a row, numbered in the order tried, and only the answered one gets the end time of
  the call.
\<close>

theorem answered_call_rows:
  assumes types: "cdr_cdrType req = origination_request" "cdr_cdrType final = origination_final_response"
      "cdr_cdrType bye = call_cleared"
    and attempts: "\<forall>c \<in> set (fails @ [answer]). cdr_cdrType c = termination_attempt \<and> cdr_uuid c = cdr_uuid req"
    and same: "cdr_uuid final = cdr_uuid req" "cdr_uuid bye = cdr_uuid req"
    and status: "\<forall>c \<in> set fails. cdr_sipStatus c \<noteq> 200" "cdr_sipStatus answer = 200" "cdr_sipStatus final = 200"
    and new: "session_of (cdr_uuid req) t = None" "attempts_of (cdr_uuid req) t = []"
  shows "\<exists>r. let t' = fold record_event (req # fails @ [answer, final, bye]) t in
    session_of (cdr_uuid req) t' = Some r \<and>
    s_start_time r = VDateTime (getTimeStartFormatted req) \<and>
    s_connect_time r = VDateTime (getTimeConnectFormatted final) \<and>
    s_end_time r = VDateTime (getTimeEndFormatted bye) \<and>
    s_final_sip_status r = VInt 200 \<and>
    s_release_cause r = VInt (release_code (cdr_releaseCause bye)) \<and>
    s_terminating_carrier r = VString (cdr_terminatingCarrier answer) \<and>
    attempts_of (cdr_uuid req) t' =
      map (\<lambda>(i, c). attempt_row_of c i) (enumerate 1 fails) @
      [(attempt_row_of answer (Suc (length fails)))\<lparr>t_end_time := VDateTime (getTimeEndFormatted bye)\<rparr>]"
proof -
  let ?u = "cdr_uuid req" and ?cs = "fails @ [answer]"
  let ?t1 = "record_event req t"
  obtain r1 where r1: "session_of ?u ?t1 = Some r1" "s_start_time r1 = VDateTime (getTimeStartFormatted req)"
    using record_origination(1) [OF types(1) new(1)] by blast
  have a1: "attempts_of ?u ?t1 = []" using record_origination(2) [OF types(1) new(1)] new(2) by simp
  let ?t2 = "fold record_event ?cs ?t1"
  have "map t_attempt_sequence (attempts_of ?u ?t1) = [Suc 0..<Suc 0]" using a1 by simp
  from record_attempts [OF attempts r1(1) this] obtain r2 where r2: "session_of ?u ?t2 = Some r2"
    "s_start_time r2 = s_start_time r1" "s_terminating_carrier r2 = VString (cdr_terminatingCarrier answer)"
    and a2: "attempts_of ?u ?t2 = map (\<lambda>(i, c). attempt_row_of c i) (enumerate 1 ?cs)"
    using a1 by auto
  note r3 = record_final [OF types(2), of ?t2 r2, unfolded same(1), OF r2(1)]
  let ?t3 = "record_event final ?t2"
  note r4 = record_cleared [OF types(3), of ?t3, unfolded same(2), OF r3(1)]
  have "map (\<lambda>r. if t_final_sip_status r = VInt 200 then r\<lparr>t_end_time := e\<rparr> else r)
      (map (\<lambda>(i, c). attempt_row_of c i) (enumerate n fails)) =
    map (\<lambda>(i, c). attempt_row_of c i) (enumerate n fails)" for e n
    using status(1) by (auto simp: attempt_row_of_def sint_200_iff in_set_enumerate_eq)
  moreover have "t_final_sip_status (attempt_row_of answer n) = VInt 200" for n
    using status(2) by (simp add: attempt_row_of_def)
  ultimately have "attempts_of ?u (record_event bye ?t3) =
      map (\<lambda>(i, c). attempt_row_of c i) (enumerate 1 fails) @
      [(attempt_row_of answer (Suc (length fails)))\<lparr>t_end_time := VDateTime (getTimeEndFormatted bye)\<rparr>]"
    using r4(2) r3(2) [of ?u] a2 by (simp add: enumerate_append_eq)
  with r1 r2 r3 r4 status(3) show ?thesis by (simp add: Let_def)
qed

theorem answered_call_rows_witness:
  "\<exists>r. let t' = fold record_event
      [example_cdr origination_request 0 1371000000, example_cdr termination_attempt 503 1371000001,
       example_cdr termination_attempt 200 1371000002, example_cdr origination_final_response 200 1371000002,
       example_cdr call_cleared 0 1371000060] (my_tables empty_db) in
    session_of ''u1'' t' = Some r \<and> s_final_sip_status r = VInt 200 \<and>
    length (attempts_of ''u1'' t') = 2"
  using answered_call_rows [of "example_cdr origination_request 0 1371000000"
      "example_cdr origination_final_response 200 1371000002" "example_cdr call_cleared 0 1371000060"
      "[example_cdr termination_attempt 503 1371000001]" "example_cdr termination_attempt 200 1371000002"
      "my_tables empty_db"]
  by (auto simp: example_cdr_def CdrInfo_new_def session_of_def attempts_of_def empty_db_def Let_def)

text \<open>
  C33. A lost connection costs one record of every type: when all prepared statements are on lost
  connections, the next record of each type is not written, although the writer connects anew
  after the first failure, because a failure resets only the statements of its own type.
\<close>

theorem lost_connection_loses_records:
  assumes "\<forall>k. \<exists>conn. w_stmts w k = Some conn \<and> my_dead (w_db w) conn"
    and "distinct (map cdr_cdrType cs)"
  shows "my_tables (w_db (fold (writeCdr mysql_driver) cs w)) = my_tables (w_db w)"
  using assms by (intro writes_stale) (simp_all add: stale_def)

theorem lost_connection_loses_records_witness:
  "let w = (CdrWriter_new (lose_connections (empty_db\<lparr>my_next := 1\<rparr>)))
        \<lparr>w_stmts := (\<lambda>k. Some 0), w_vecConnection := [0]\<rparr>
   in cdr_session (my_tables (w_db (fold (writeCdr mysql_driver)
        [example_cdr origination_request 486 1371000000, example_cdr call_cleared 0 1371000060] w))) = []"
proof -
  let ?w = "(CdrWriter_new (lose_connections (empty_db\<lparr>my_next := 1\<rparr>)))
        \<lparr>w_stmts := (\<lambda>k. Some 0), w_vecConnection := [0]\<rparr>"
  let ?cs = "[example_cdr origination_request 486 1371000000, example_cdr call_cleared 0 1371000060]"
  have "\<forall>k. \<exists>conn. w_stmts ?w k = Some conn \<and> my_dead (w_db ?w) conn"
    by (simp add: CdrWriter_new_def lose_connections_def my_dead_def)
  moreover have "distinct (map cdr_cdrType ?cs)" by (simp add: example_cdr_def CdrInfo_new_def)
  ultimately have "my_tables (w_db (fold (writeCdr mysql_driver) ?cs ?w)) = my_tables (w_db ?w)"
    by (rule lost_connection_loses_records)
  also have "cdr_session \<dots> = []" by (simp add: CdrWriter_new_def lose_connections_def empty_db_def)
  finally show ?thesis unfolding Let_def .
qed

end
