(* ===== verification/Cdr_Schema.thy ===== *)
theory Cdr_Schema
  imports Cdr_Database
begin

text \<open>
  The schema of \<open>database/ssp.sql\<close> as a type of the rows, and that the writer's statements keep it:
  every value has the type of its column, the columns that must not be \<open>NULL\<close> are not, a session has
  one row, and an attempt belongs to a session that has one.
\<close>

section \<open>Types of the columns\<close>

fun is_datetime :: "sqlval \<Rightarrow> bool" where
  "is_datetime (VDateTime s) = True"
| "is_datetime _ = False"

fun is_varchar :: "sqlval \<Rightarrow> bool" where
  "is_varchar (VString s) = True"
| "is_varchar _ = False"

fun is_smallint :: "sqlval \<Rightarrow> bool" where
  "is_smallint (VInt n) = True"
| "is_smallint _ = False"

definition nullable :: "(sqlval \<Rightarrow> bool) \<Rightarrow> sqlval \<Rightarrow> bool" where
  "nullable ty v \<longleftrightarrow> v = VNull \<or> ty v"

definition session_typed :: "session_row \<Rightarrow> bool" where
  "session_typed r \<longleftrightarrow>
     is_datetime (s_start_time r) \<and> nullable is_datetime (s_connect_time r) \<and> nullable is_datetime (s_end_time r) \<and>
     nullable is_smallint (s_final_sip_status r) \<and> is_smallint (s_release_cause r) \<and>
     is_varchar (s_originating_carrier r) \<and> is_varchar (s_originating_carrier_ip_address r) \<and>
     nullable is_varchar (s_terminating_carrier r) \<and> nullable is_varchar (s_terminating_carrier_ip_address r) \<and>
     nullable is_varchar (s_originating_edge_server_ip_address r) \<and>
     nullable is_varchar (s_terminating_edge_server_ip_address r) \<and> nullable is_varchar (s_fs_ip_address r) \<and>
     is_varchar (s_calling_party_number r) \<and> is_varchar (s_called_party_number_in r) \<and>
     nullable is_varchar (s_called_party_number_out r) \<and> nullable is_varchar (s_fs_assigned_customer r) \<and>
     nullable is_varchar (s_fs_assigned_call_id r) \<and> is_varchar (s_a_leg_sip_call_id r) \<and>
     nullable is_varchar (s_b_leg_sip_call_id r) \<and> nullable is_varchar (s_c_leg_sip_call_id r) \<and>
     nullable is_varchar (s_d_leg_sip_call_id r)"

definition attempt_typed :: "attempt_row \<Rightarrow> bool" where
  "attempt_typed r \<longleftrightarrow>
     is_datetime (t_start_time r) \<and> nullable is_datetime (t_connect_time r) \<and> nullable is_datetime (t_end_time r) \<and>
     nullable is_smallint (t_final_sip_status r) \<and> is_varchar (t_sip_call_id r) \<and>
     nullable is_varchar (t_terminating_carrier r) \<and> nullable is_varchar (t_terminating_carrier_ip_address r)"

text \<open>The tables: types, the unique index, the foreign key, and the numbers the trigger gives.\<close>

definition schema_ok :: "cdr_tables \<Rightarrow> bool" where
  "schema_ok t \<longleftrightarrow>
     (\<forall>r \<in> set (cdr_session t). session_typed r) \<and> (\<forall>r \<in> set (termination_attempts t). attempt_typed r) \<and>
     distinct (map s_session_uuid (cdr_session t)) \<and>
     (\<forall>r \<in> set (termination_attempts t). t_cdr_session_uuid r \<in> s_session_uuid ` set (cdr_session t)) \<and>
     (\<forall>u. distinct (map t_attempt_sequence (attempts_of u t)))"

section \<open>Statements keep the schema\<close>

lemma column_types [simp]:
  "nullable ty VNull" "nullable is_varchar (VString s)" "nullable is_datetime (VDateTime s)" "nullable is_smallint (VInt n)"
  "nullable is_varchar (string_or_null s)"
  by (simp_all add: nullable_def string_or_null_def)

lemma update_session_schema:
  assumes "schema_ok t" "\<And>r. s_session_uuid (f r) = s_session_uuid r" "\<And>r. session_typed r \<Longrightarrow> session_typed (f r)"
  shows "schema_ok (update_session u f t)"
proof -
  let ?g = "\<lambda>r. if s_session_uuid r = u then f r else r"
  have same: "s_session_uuid (?g r) = s_session_uuid r" for r using assms(2) by simp
  then have "map s_session_uuid (map ?g rs) = map s_session_uuid rs" for rs by simp
  moreover have "s_session_uuid ` set (map ?g rs) = s_session_uuid ` set rs" for rs
    by (simp only: list.set_map image_image same)
  ultimately show ?thesis using assms(1,3)
    by (simp add: schema_ok_def update_session_def attempts_of_def del: map_map set_map list.set_map) auto
qed

lemma end_attempts_schema:
  assumes "schema_ok t" "is_datetime e"
  shows "schema_ok (end_attempts u e t)"
proof -
  define g :: "attempt_row \<Rightarrow> attempt_row" where "g = (\<lambda>r. if t_cdr_session_uuid r = u \<and> t_final_sip_status r = VInt 200 then r\<lparr>t_end_time := e\<rparr> else r)"
  have g: "t_cdr_session_uuid (g r) = t_cdr_session_uuid r" "t_attempt_sequence (g r) = t_attempt_sequence r"
    "attempt_typed r \<Longrightarrow> attempt_typed (g r)" for r
    using assms(2) by (simp_all add: g_def attempt_typed_def nullable_def)
  have "map t_attempt_sequence (filter (\<lambda>r. t_cdr_session_uuid r = v) (map g rs)) =
      map t_attempt_sequence (filter (\<lambda>r. t_cdr_session_uuid r = v) rs)" for v rs
    by (induction rs) (simp_all add: g)
  moreover have "end_attempts u e t = t\<lparr>termination_attempts := map g (termination_attempts t)\<rparr>"
    by (simp add: end_attempts_def g_def)
  ultimately show ?thesis using assms(1) g by (simp add: schema_ok_def attempts_of_def del: filter_map)
qed

lemma insert_session_schema:
  assumes "schema_ok t"
  shows "schema_ok (snd (insert_session (orig_params c) t))"
proof (cases "has_session (cdr_uuid c) t")
  case True
  then show ?thesis using assms by (simp add: insert_session_def orig_params_def)
next
  case False
  then obtain row where row: "snd (insert_session (orig_params c) t) = t\<lparr>cdr_session := cdr_session t @ [row]\<rparr>"
    "s_session_uuid row = cdr_uuid c" "session_typed row"
    by (simp add: insert_session_def orig_params_def session_typed_def)
  have "cdr_uuid c \<notin> s_session_uuid ` set (cdr_session t)" using False by (auto simp: has_session_def list_ex_iff)
  then show ?thesis using assms row by (simp add: schema_ok_def attempts_of_def)
qed

lemma next_sequence_fresh: "next_sequence u t \<notin> set (map t_attempt_sequence (attempts_of u t))"
proof
  let ?ns = "map t_attempt_sequence (attempts_of u t)"
  have upper: "m \<le> fold max ns m \<and> (\<forall>n \<in> set ns. n \<le> fold max ns m)" for ns and m :: nat
  proof (induction ns arbitrary: m)
    case (Cons n ns)
    from Cons [of "max n m"] show ?case by simp
  qed simp
  assume "next_sequence u t \<in> set ?ns"
  with upper [where m = 0 and ns = ?ns] show False unfolding next_sequence_def by fastforce
qed

lemma insert_attempt_schema:
  assumes "schema_ok t"
  shows "schema_ok (snd (insert_attempt (term1_params c) t))"
proof (cases "has_session (cdr_uuid c) t")
  case True
  then obtain row where row: "snd (insert_attempt (term1_params c) t) = t\<lparr>termination_attempts := termination_attempts t @ [row]\<rparr>"
    "attempt_typed row" "t_cdr_session_uuid row = cdr_uuid c" "t_attempt_sequence row = next_sequence (cdr_uuid c) t"
    by (simp add: insert_attempt_def term1_params_def attempt_typed_def)
  have "distinct (map t_attempt_sequence (attempts_of u (t\<lparr>termination_attempts := termination_attempts t @ [row]\<rparr>)))" for u
    using assms row(3,4) next_sequence_fresh [of "cdr_uuid c" t] by (auto simp: attempts_of_def schema_ok_def)
  then show ?thesis using assms True row(1-3)
    by (auto simp: schema_ok_def has_session_def list_ex_iff intro: rev_image_eqI)
next
  case False
  then show ?thesis using assms by (simp add: insert_attempt_def term1_params_def)
qed

lemma update_stmt_schema:
  assumes "schema_ok t"
  shows "schema_ok (snd (apply_stmt stmtFinal (final_params c) t))" "schema_ok (snd (apply_stmt stmtCancel (cancel_params c) t))"
    "schema_ok (snd (apply_stmt stmtTerm2 (term2_params c) t))" "schema_ok (snd (apply_stmt stmtBye1 (bye1_params c) t))"
    "schema_ok (snd (apply_stmt stmtBye2 (bye2_params c) t))"
proof -
  note update = update_session_schema [OF assms]
  show "schema_ok (snd (apply_stmt stmtFinal (final_params c) t))"
    by (simp only: apply_stmt.simps snd_conv, rule update) (simp_all add: session_typed_def final_params_def)
  show "schema_ok (snd (apply_stmt stmtCancel (cancel_params c) t))"
    by (simp only: apply_stmt.simps snd_conv, rule update) (simp_all add: session_typed_def cancel_params_def)
  show "schema_ok (snd (apply_stmt stmtTerm2 (term2_params c) t))"
    by (simp only: apply_stmt.simps snd_conv, rule update) (simp_all add: session_typed_def term2_params_def)
  show "schema_ok (snd (apply_stmt stmtBye1 (bye1_params c) t))"
    by (simp only: apply_stmt.simps snd_conv, rule update) (simp_all add: session_typed_def bye1_params_def)
  show "schema_ok (snd (apply_stmt stmtBye2 (bye2_params c) t))"
    by (simp only: apply_stmt.simps snd_conv, rule end_attempts_schema [OF assms]) (simp add: bye2_params_def)
qed

lemma record_event_schema:
  assumes "schema_ok t"
  shows "schema_ok (record_event c t)"
proof -
  have two: "schema_ok (snd (apply_two k1 ps1 k2 ps2 t))"
    if "schema_ok (snd (apply_stmt k1 ps1 t))" "\<And>t'. schema_ok t' \<Longrightarrow> schema_ok (snd (apply_stmt k2 ps2 t'))" for k1 ps1 k2 ps2
    using that by (cases "apply_stmt k1 ps1 t") (simp add: apply_two_def)
  have "schema_ok (snd (apply_stmt stmtOrig (orig_params c) t))" "schema_ok (snd (apply_stmt stmtTerm1 (term1_params c) t))"
    using insert_session_schema [OF assms] insert_attempt_schema [OF assms] by simp_all
  then show ?thesis using assms
    by (cases "cdr_cdrType c") (simp_all add: record_event_def two update_stmt_schema del: apply_stmt.simps)
qed

section \<open>The database\<close>



end
