(* ===== verification/Dup_Tester.thy ===== *)
theory Dup_Tester
  imports Call_Theorems "HOL-Library.Sublist"
begin

text \<open>
  The test program \<open>duplicate-tester.cpp\<close>, a user agent that answers every INVITE with three copies
  of a 200, and what the controller makes of them: \<open>processRetransmittedResponse\<close> exists for these.
\<close>

section \<open>The program\<close>

text \<open>The arguments as \<open>getopt_long\<close> delivers them.\<close>

datatype dup_arg = dup_opt_address string | dup_opt_unknown

fun dup_sipAddress :: "dup_arg list \<Rightarrow> string \<Rightarrow> string" where
  "dup_sipAddress [] sipAddress = sipAddress"
| "dup_sipAddress (dup_opt_address optarg # args) sipAddress = dup_sipAddress args optarg"
| "dup_sipAddress (dup_opt_unknown # args) sipAddress = dup_sipAddress args sipAddress"

definition dup_parseCmdArgs :: "dup_arg list \<Rightarrow> bool \<times> string" where
  "dup_parseCmdArgs args = (let sipAddress = dup_sipAddress args [] in (sipAddress \<noteq> [], sipAddress))"

text \<open>\<open>boost::replace_all\<close>: from left to right, without looking at what was put in.\<close>

function replace_all :: "string \<Rightarrow> string \<Rightarrow> string \<Rightarrow> string" where
  "replace_all s pat new =
     (if s = [] \<or> pat = [] then s
      else if prefix pat s then new @ replace_all (drop (length pat) s) pat new
      else hd s # replace_all (tl s) pat new)"
  by pat_completeness auto
termination
  by (relation "measure (\<lambda>(s, pat, new). length s)") auto

declare replace_all.simps [simp del]

text \<open>What the callback does with the stack and the console; an INVITE without a body is read through a null pointer.\<close>

datatype dup_action = DupReply int "string option" | DupPrint string | DupSleep nat

definition loopback_connection :: string where
  "loopback_connection = ''c=IN IP4 127.0.0.1''"

definition dup_stateless_callback :: "sip_t \<Rightarrow> dup_action list outcome" where
  "dup_stateless_callback sip =
     (case sip_request sip of
        None \<Rightarrow> Ret []
      | Some rq_method \<Rightarrow>
          (case rq_method of
             sip_method_invite \<Rightarrow>
               deref (sip_payload sip) (\<lambda>body.
                 let sdp = replace_all body loopback_connection ''c=IN IP4 0.0.0.0''
                 in Ret [DupReply 200 (Some sdp), DupPrint ''sleeping'', DupSleep 1000,
                         DupReply 200 (Some sdp), DupPrint ''sleeping'', DupSleep 1500,
                         DupReply 200 (Some sdp)])
           | sip_method_ack \<Rightarrow> Ret [DupPrint ''Received ACK'']
           | sip_method_bye \<Rightarrow> Ret [DupReply 200 None]
           | _ \<Rightarrow> Ret [DupPrint ''Received request other than INVITE or ACK'']))"

section \<open>The body of the answer\<close>

text \<open>No address of the loopback interface is left in the answer.\<close>

lemma prefix_hd: "prefix pat s \<Longrightarrow> pat \<noteq> [] \<Longrightarrow> s \<noteq> [] \<and> hd s = hd pat"
  by (cases pat; cases s) auto

lemma replace_all_absent: "\<not> sublist pat s \<Longrightarrow> replace_all s pat new = s"
proof (induction s)
  case (Cons c s)
  then have "\<not> prefix pat (c # s)" "\<not> sublist pat s" by (auto simp: sublist_Cons_right)
  with Cons.IH show ?case by (simp add: replace_all.simps [of "c # s"])
qed (simp add: replace_all.simps)

lemma replace_all_prefix:
  assumes "prefix q (replace_all s pat new)" "hd new \<notin> set q" "new \<noteq> []"
  shows "prefix q s"
  using assms
proof (induction q arbitrary: s)
  case (Cons c q)
  have "\<not> (s \<noteq> [] \<and> pat \<noteq> [] \<and> prefix pat s)"
  proof
    assume "s \<noteq> [] \<and> pat \<noteq> [] \<and> prefix pat s"
    then have "prefix (c # q) (new @ replace_all (drop (length pat) s) pat new)"
      using Cons.prems(1) by (simp add: replace_all.simps [of s])
    then show False using Cons.prems(2,3) by (cases new) auto
  qed
  then have "replace_all s pat new = (if s = [] \<or> pat = [] then s else hd s # replace_all (tl s) pat new)"
    by (subst replace_all.simps) auto
  then show ?case
    using Cons.prems Cons.IH [of "tl s"] by (cases s) (auto split: if_splits)
qed simp

lemma sublist_append_marked:
  assumes "sublist pat (xs @ ys)" "pat \<noteq> []" "hd pat \<notin> set xs"
  shows "sublist pat ys"
  using assms
proof (induction xs)
  case (Cons x xs)
  then have "\<not> prefix pat (x # xs @ ys)" by (cases pat) auto
  with Cons show ?case by (auto simp: sublist_Cons_right)
qed simp

text \<open>
  With a pattern and a replacement that both start with a character neither of them has again, and
  that differ, no occurrence of the pattern is left.
\<close>

lemma replace_all_none_left:
  assumes pat: "pat \<noteq> []" "hd pat \<notin> set (tl pat)" and new: "new \<noteq> []" "hd new = hd pat" "hd pat \<notin> set (tl new)"
    and differ: "\<And>ys. \<not> prefix pat (new @ ys)"
  shows "\<not> sublist pat (replace_all s pat new)"
proof (induction "length s" arbitrary: s rule: less_induct)
  case less
  consider "s = []" | "s \<noteq> []" "prefix pat s" | "s \<noteq> []" "\<not> prefix pat s" by blast
  then show ?case
  proof cases
    case 1
    then show ?thesis using pat by (simp add: replace_all.simps)
  next
    case 2
    have step: "replace_all s pat new = new @ replace_all (drop (length pat) s) pat new" (is "_ = new @ ?r")
      using 2 pat(1) by (simp add: replace_all.simps [of s])
    have "\<not> sublist pat ?r" using less [of "drop (length pat) s"] 2(1) pat(1) by (cases s; cases pat) auto
    then have "\<not> sublist pat (tl new @ ?r)" using sublist_append_marked [of pat "tl new"] pat(1) new(3) by blast
    moreover have "new @ ?r = hd new # tl new @ ?r" using new(1) by (cases new) simp_all
    moreover have "\<not> prefix pat (hd new # tl new @ ?r)" using differ [of ?r] new(1) by (cases new) simp_all
    ultimately show ?thesis unfolding step by (simp only: sublist_Cons_right simp_thms)
  next
    case 3
    have step: "replace_all s pat new = hd s # replace_all (tl s) pat new" (is "_ = _ # ?r")
      using 3 pat(1) by (simp add: replace_all.simps [of s])
    have "\<not> sublist pat ?r" using less [of "tl s"] 3(1) by (cases s) simp_all
    moreover have "\<not> prefix pat (hd s # ?r)"
    proof
      assume p: "prefix pat (hd s # ?r)"
      then have "hd pat = hd s" "prefix (tl pat) ?r" using pat(1) by (cases pat; simp)+
      then have "prefix (tl pat) (tl s)" using replace_all_prefix pat(2) new(1,2) by metis
      then show False using 3 \<open>hd pat = hd s\<close> pat(1) by (cases pat; cases s) auto
    qed
    ultimately show ?thesis by (simp add: step sublist_Cons_right)
  qed
qed

lemma loopback_replaced: "\<not> sublist loopback_connection (replace_all body loopback_connection ''c=IN IP4 0.0.0.0'')"
  by (rule replace_all_none_left) (simp_all add: loopback_connection_def)

section \<open>Three answers to one INVITE\<close>

text \<open>The replies of the tester, and the copies that reach the controller after the first.\<close>

fun dup_replies :: "dup_action list \<Rightarrow> (int \<times> string option) list" where
  "dup_replies [] = []"
| "dup_replies (DupReply status body # acts) = (status, body) # dup_replies acts"
| "dup_replies (_ # acts) = dup_replies acts"

fun retransmitted :: "(string \<Rightarrow> nat option) \<Rightarrow> sip_t list \<Rightarrow> controller \<Rightarrow> controller outcome" where
  "retransmitted leg_by_call_id [] c = Ret c"
| "retransmitted leg_by_call_id (sip # sips) c =
     obind (processRetransmittedResponse leg_by_call_id sip c) (\<lambda>(rc, c1). retransmitted leg_by_call_id sips c1)"

lemma retransmitted_Ret:
  assumes "\<forall>sip \<in> set sips. (\<exists>phrase. sip_status sip = Some (200, phrase)) \<and> sip_cseq sip = Some sip_method_invite \<and>
      (\<exists>i. sip_call_id sip = Some i \<and> leg_by_call_id i = Some b) \<and> sip_contact sip \<noteq> None"
  shows "retransmitted leg_by_call_id sips c = Ret (emit (replicate (length sips) (OutgoingAck b)) c)"
  using assms
proof (induction sips arbitrary: c)
  case (Cons sip sips)
  then have "processRetransmittedResponse leg_by_call_id sip c = Ret (0, emit [OutgoingAck b] c)"
    by (auto simp: processRetransmittedResponse_def call_id_def)
  then show ?case using Cons by (simp add: emit_def)
qed (simp add: emit_def)

text \<open>
  C16. Every copy of an answer is acknowledged: the tester answers an INVITE three times with the
  same body, in which no loopback address is left; when the answers reach a call that waits for
  one, the first connects it and is passed on, and the stack hands the other two to the handler of
  retransmissions, which sends an ACK on the same leg for each and leaves everything else as it was.
  Here \<open>treply\<close> is the response the stack builds from a reply, with the headers of the INVITE.
\<close>

theorem duplicate_answers_acknowledged:
  assumes invite: "sip_request sip = Some sip_method_invite" "sip_payload sip = Some body"
    and treply: "\<And>status body. \<exists>phrase. sip_status (treply status body) = Some (status, phrase)"
      "\<And>status body. sip_cseq (treply status body) = Some sip_method_invite" "\<And>status body. sip_payload (treply status body) = body"
      "\<And>status body. sip_to (treply status body) \<noteq> None \<and> sip_contact (treply status body) \<noteq> None \<and>
        sip_call_id (treply status body) = Some i"
    and inv: "ctl_inv R c" and wait: "call_waiting c irq orq a b t p" and env: "response_env env irq a b"
    and leg: "leg_by_call_id i = Some b"
  shows "\<exists>acts first rest c1 c2. dup_stateless_callback sip = Ret acts \<and>
    map (\<lambda>(status, sdp). treply status sdp) (dup_replies acts) = first # rest \<and> length rest = 2 \<and>
    (\<forall>sdp. sip_payload first = Some sdp \<longrightarrow> \<not> sublist loopback_connection sdp) \<and>
    processInviteResponseInsideDialog env orq first c = Ret (0, c1) \<and> call_answered c irq orq a c1 \<and>
    OutgoingAck b \<in> set (drop (length (c_out c)) (c_out c1)) \<and>
    retransmitted leg_by_call_id rest c1 = Ret c2 \<and> c2 = c1\<lparr>c_out := c_out c1 @ [OutgoingAck b, OutgoingAck b]\<rparr>"
proof -
  define sdp where "sdp = replace_all body loopback_connection ''c=IN IP4 0.0.0.0''"
  let ?r = "treply 200 (Some sdp)"
  obtain acts where acts: "dup_stateless_callback sip = Ret acts" "dup_replies acts = [(200, Some sdp), (200, Some sdp), (200, Some sdp)]"
    using invite by (simp add: dup_stateless_callback_def sdp_def Let_def)
  obtain d where up: "call_up c irq orq a b" and start: "response_start env orq c = Ret \<lparr>x_orq = orq, x_irq = irq,
      x_outgoing_leg = b, x_a_leg = a, x_attempt = t, x_pDialog = d, x_pCdr = p\<rparr>" (is "_ = Ret ?x")
    by (rule call_waiting_start [OF inv wait env])
  obtain phrase where st: "sip_status ?r = Some (200, phrase)" using treply(1) by blast
  have r: "sip_to ?r \<noteq> None" "sip_contact ?r \<noteq> None" "x_attempt ?x = None \<longrightarrow> sip_payload ?r \<noteq> None" using treply(3,4) by simp_all
  obtain c1 as where c1: "processInviteResponseInsideDialog env orq ?r c = Ret (0, c1)" "call_answered c irq orq a c1"
    "c_out c1 = c_out c @ as" "OutgoingAck b \<in> set as"
    by (rule answered_call [OF inv up start _ _ _ _ st r]) simp_all
  have "retransmitted leg_by_call_id [?r, ?r] c1 = Ret (c1\<lparr>c_out := c_out c1 @ [OutgoingAck b, OutgoingAck b]\<rparr>)"
    using retransmitted_Ret [of "[?r, ?r]" leg_by_call_id b c1] treply(2,4) st leg by (simp add: emit_def numeral_2_eq_2)
  moreover have "\<forall>s. sip_payload ?r = Some s \<longrightarrow> \<not> sublist loopback_connection s"
    using treply(3) loopback_replaced by (simp add: sdp_def)
  ultimately show ?thesis using acts c1
    by - (rule exI [of _ acts], rule exI [of _ ?r], rule exI [of _ "[?r, ?r]"], rule exI [of _ c1], simp)
qed

theorem duplicate_answers_acknowledged_witness:
  "\<exists>c acts c1 c2. origination_up c 7 5 1 2 0 \<and>
     dup_stateless_callback (ex_request sip_method_invite ''10.0.0.1'') = Ret acts \<and> length (dup_replies acts) = 3 \<and>
     call_answered c 7 5 1 c1 \<and> c2 = c1\<lparr>c_out := c_out c1 @ [OutgoingAck 2, OutgoingAck 2]\<rparr> \<and>
     retransmitted (\<lambda>i. Some 2) [ex_response 200, ex_response 200] c1 = Ret c2"
proof -
  obtain c where c: "ctl_inv 3 c" "origination_up c 7 5 1 2 0" by (rule ex_origination)
  have wait: "call_waiting c 7 5 1 2 None 0" using c by (simp add: call_waiting_def)
  let ?treply = "\<lambda>status body. (ex_response status)\<lparr>sip_payload := body\<rparr>"
  have treply: "\<exists>phrase. sip_status (?treply status body) = Some (status, phrase)" "sip_cseq (?treply status body) = Some sip_method_invite"
    "sip_payload (?treply status body) = body" "sip_to (?treply status body) \<noteq> None \<and> sip_contact (?treply status body) \<noteq> None \<and>
      sip_call_id (?treply status body) = Some ''i''" for status body
    by (simp_all add: ex_response_def ex_request_def)
  have body: "sip_request (ex_request sip_method_invite ''10.0.0.1'') = Some sip_method_invite"
    "sip_payload (ex_request sip_method_invite ''10.0.0.1'') = Some ''sdp''" by (simp_all add: ex_request_def)
  have "replace_all ''sdp'' loopback_connection x = ''sdp''" for x
    by (rule replace_all_absent) (simp add: loopback_connection_def sublist_Cons_right)
  then have acts: "dup_replies acts = [(200, Some ''sdp''), (200, Some ''sdp''), (200, Some ''sdp'')]"
    if "dup_stateless_callback (ex_request sip_method_invite ''10.0.0.1'') = Ret acts" for acts
    using that by (auto simp: dup_stateless_callback_def body Let_def)
  have same: "?treply 200 (Some ''sdp'') = ex_response 200" by (simp add: ex_response_def ex_request_def)
  from duplicate_answers_acknowledged [OF body, of ?treply "''i''", OF treply c(1) wait ex_response_env, of "\<lambda>i. Some 2" 2 5]
  show ?thesis using acts same c(2) by fastforce
qed

end
