(* ===== verification/Startup.thy ===== *)
theory Startup
  imports Config_Load Call_Theorems
begin

text \<open>
  From the command line to the event loop: \<open>parseCmdArgs\<close>, the constructor of \<open>SipLbController\<close>
  with its two ways out, and \<open>run\<close> up to the event loop (\<open>ssp-controller.cpp\<close>). The configuration
  file is read through a parameter, since parsing XML is not part of the program.
\<close>

section \<open>The command line\<close>

text \<open>The arguments as \<open>getopt_long\<close> delivers them; \<open>opt_unknown\<close> stands for one it does not know.\<close>

datatype ssp_arg =
  opt_daemon | opt_dbtest | opt_file string | opt_iterations string | opt_user string | opt_version | opt_unknown

record cmd_args =
  arg_bDaemonize :: bool
  arg_bDbTest :: bool
  arg_configFilename :: string
  arg_user :: string
  arg_nIterationCount :: int

definition cmd_args_initial :: cmd_args where
  "cmd_args_initial =
     \<lparr>arg_bDaemonize = False, arg_bDbTest = False, arg_configFilename = ''/etc/ssp.conf.xml'', arg_user = [],
      arg_nIterationCount = - 1\<rparr>"

text \<open>\<open>None\<close> is the end of the program at \<open>--version\<close>.\<close>

fun ssp_parseCmdArgs :: "ssp_arg list \<Rightarrow> cmd_args \<Rightarrow> cmd_args option" where
  "ssp_parseCmdArgs [] v = Some v"
| "ssp_parseCmdArgs (opt_daemon # args) v = ssp_parseCmdArgs args (v\<lparr>arg_bDaemonize := True\<rparr>)"
| "ssp_parseCmdArgs (opt_dbtest # args) v = ssp_parseCmdArgs args (v\<lparr>arg_bDbTest := True\<rparr>)"
| "ssp_parseCmdArgs (opt_file optarg # args) v = ssp_parseCmdArgs args (v\<lparr>arg_configFilename := optarg\<rparr>)"
| "ssp_parseCmdArgs (opt_user optarg # args) v = ssp_parseCmdArgs args (v\<lparr>arg_user := optarg\<rparr>)"
| "ssp_parseCmdArgs (opt_iterations optarg # args) v =
     ssp_parseCmdArgs args (v\<lparr>arg_nIterationCount := sint (atoi optarg)\<rparr>)"
| "ssp_parseCmdArgs (opt_version # args) v = None"
| "ssp_parseCmdArgs (opt_unknown # args) v = ssp_parseCmdArgs args v"

section \<open>The start of the program\<close>

datatype start_result = Exited int | Running cmd_args controller

text \<open>\<open>read_config\<close> gives the object \<open>SspConfig\<close> makes of a file.\<close>

definition SipLbController_start :: "(string \<Rightarrow> ssp_config) \<Rightarrow> ssp_arg list \<Rightarrow> start_result" where
  "SipLbController_start read_config args =
     (case ssp_parseCmdArgs args cmd_args_initial of
        None \<Rightarrow> Exited 0
      | Some v \<Rightarrow>
          let cfg = read_config (arg_configFilename v)
          in if \<not> m_bIsValid cfg then Exited (- 1)
             else Running v (SipLbController_new cfg (arg_nIterationCount v)))"

text \<open>The last \<open>--file\<close> and \<open>--iterations\<close> count.\<close>

definition file_arg :: "ssp_arg \<Rightarrow> string option" where
  "file_arg a = (case a of opt_file f \<Rightarrow> Some f | _ \<Rightarrow> None)"

definition iterations_arg :: "ssp_arg \<Rightarrow> string option" where
  "iterations_arg a = (case a of opt_iterations n \<Rightarrow> Some n | _ \<Rightarrow> None)"

lemma ssp_parseCmdArgs_eq:
  "ssp_parseCmdArgs args v =
     (if opt_version \<in> set args then None
      else Some \<lparr>arg_bDaemonize = (opt_daemon \<in> set args \<or> arg_bDaemonize v), arg_bDbTest = (opt_dbtest \<in> set args \<or> arg_bDbTest v),
        arg_configFilename = fold (\<lambda>a f. case file_arg a of None \<Rightarrow> f | Some f' \<Rightarrow> f') args (arg_configFilename v),
        arg_user = fold (\<lambda>a u. case a of opt_user u' \<Rightarrow> u' | _ \<Rightarrow> u) args (arg_user v),
        arg_nIterationCount = fold (\<lambda>a n. case iterations_arg a of None \<Rightarrow> n | Some s \<Rightarrow> sint (atoi s)) args (arg_nIterationCount v)\<rparr>)"
proof (induction args arbitrary: v)
  case (Cons a args)
  then show ?case by (cases a) (simp_all add: file_arg_def iterations_arg_def)
qed simp

end
