(* ===== verification/Fs_Pool.thy ===== *)
theory Fs_Pool
  imports Fs_Monitor
begin

text \<open>
  The thread of \<open>FsMonitor\<close> (\<open>run\<close>, \<open>stop\<close>, \<open>threadFunc\<close> in \<open>fs-monitor.cpp\<close>) and its exceptions
  (\<open>fs-exception.h\<close>). One \<open>io_service\<close> runs the completion handlers of all connections, one after
  the other; a handler that throws leaves the event loop, and \<open>threadFunc\<close> decides by the type of
  the exception whether it goes on. Besides the exceptions of the program there is the one of
  \<open>boost::asio::write\<close>, which throws \<open>boost::system::system_error\<close> when the peer is gone.
\<close>

section \<open>Exceptions\<close>

record FsException =
  ex_strReason :: string
  ex_strAddress :: string
  ex_nEventSocketPort :: u32

definition FsException_new :: "string \<Rightarrow> u32 \<Rightarrow> string \<Rightarrow> FsException" where
  "FsException_new strAddress nEventSocketPort reason =
     \<lparr>ex_strReason = reason, ex_strAddress = strAddress, ex_nEventSocketPort = nEventSocketPort\<rparr>"

text \<open>
  The text of \<open>what\<close>. The error code is never stored, so it is always that of success and is never
  shown.
\<close>

definition FsException_what :: "FsException \<Rightarrow> string" where
  "FsException_what e =
     ex_strAddress e @ '':'' @ show_u32 (ex_nEventSocketPort e) @ ''--> '' @ ex_strReason e"

datatype monitor_exception =
  FsDisconnectException FsException | FsReconnectException FsException | SystemError

section \<open>One handler\<close>

text \<open>
  What runs in the event loop: the completion of an operation of the connection with the given
  index, together with whether the write of the handler succeeds if it has one. Other threads ask
  a connection to reload its configuration, and the monitor to stop.
\<close>

datatype pool_event =
  Completion nat fs_event bool
  | ReloadRequested nat bool
  | StopRequested

text \<open>
  The pool: the connections with their operations outstanding, the hosts calls are accepted from,
  the addresses the servers have reported, whether the thread has been started and not yet joined,
  whether it is in its loop, whether the \<open>io_service\<close> is stopped, and the exceptions caught.
\<close>

record pool =
  p_conns :: "fs_conn list"
  p_setServers :: "string list"
  p_reported :: "(string \<times> string) list"
  p_joinable :: bool
  p_looping :: bool
  p_stopped :: bool
  p_caught :: "monitor_exception list"

text \<open>The result of the handler of an event, \<open>None\<close> if no such operation is outstanding.\<close>

fun fs_event_result :: "u64 \<Rightarrow> fs_conn \<Rightarrow> fs_event \<Rightarrow> fs_result option" where
  "fs_event_result h s (Resolved res) =
     (if conn_resolve s then Some (resolve_handler (conn_fs s) res) else None)"
| "fs_event_result h s (Connected success) =
     map_option (connect_handler (conn_fs s) success) (conn_connect s)"
| "fs_event_result h s (HaveRead res) =
     (if 0 < conn_reads s then Some (read_handler h (conn_fs s) res) else None)"
| "fs_event_result h s TimedOut = (if conn_timer s then Some (timer_handler (conn_fs s) True) else None)"
| "fs_event_result h s Reload = None"

text \<open>The operation that has completed is no longer outstanding.\<close>

fun taken :: "fs_event \<Rightarrow> fs_conn \<Rightarrow> fs_conn" where
  "taken (Resolved res) s = s\<lparr>conn_resolve := False\<rparr>"
| "taken (Connected success) s = s\<lparr>conn_connect := None\<rparr>"
| "taken (HaveRead res) s = s\<lparr>conn_reads := conn_reads s - 1\<rparr>"
| "taken TimedOut s = s\<lparr>conn_timer := False\<rparr>"
| "taken Reload s = s"

fun is_write :: "fs_action \<Rightarrow> bool" where
  "is_write (WriteSocket s) = True"
| "is_write _ = False"

text \<open>
  A handler whose write throws: what it did before the write is done, what follows the write is
  not. In \<open>read_handler\<close> the reset of the message follows, in \<open>reloadxml\<close> the flag.
\<close>

definition interrupted :: "fs_event \<Rightarrow> FsInstance \<Rightarrow> fs_action list \<times> FsInstance \<Rightarrow> fs_action list \<times> FsInstance" where
  "interrupted e fs r =
     (takeWhile (\<lambda>act. \<not> is_write act) (fst r),
      case e of HaveRead (Some data) \<Rightarrow> (snd r)\<lparr>fs_fsMsg := append_data (fs_fsMsg fs) data\<rparr> | _ \<Rightarrow> fs)"

fun notify_action :: "fs_action \<Rightarrow> pool \<Rightarrow> pool" where
  "notify_action (NotifySipServerAddress fsAddress sipAddress sipPort) p =
     p\<lparr>p_setServers := set_insert sipAddress (removeAll fsAddress (p_setServers p)),
       p_reported := p_reported p @ [(fsAddress, sipAddress)]\<rparr>"
| "notify_action _ p = p"

definition thrown :: "FsInstance \<Rightarrow> fs_action list \<Rightarrow> monitor_exception option" where
  "thrown fs acts =
     (let e = FsException_new (fs_strAddress fs) (fs_nEventSocketPort fs)
      in if ThrowDisconnect \<in> set acts
         then Some (FsDisconnectException (e ''Disconnected; freeswitch was shut down''))
         else if ThrowReconnect \<in> set acts then Some (FsReconnectException (e ''Reconnected''))
         else None)"

text \<open>The effect of a handler on the pool and the exception that leaves it.\<close>

definition io_handler ::
  "u64 \<Rightarrow> nat \<Rightarrow> fs_event \<Rightarrow> bool \<Rightarrow> pool \<Rightarrow> (monitor_exception option \<times> pool) outcome" where
  "io_handler h i e write_ok p =
     (if i < length (p_conns p) then
        let s = p_conns p ! i
        in case fs_event_result h s e of
             None \<Rightarrow> Ret (None, p)
           | Some res \<Rightarrow>
               obind res (\<lambda>r.
                 let failed = (\<not> write_ok \<and> list_ex is_write (fst r));
                     r1 = (if failed then interrupted e (conn_fs s) r else r);
                     exn = (if failed then Some SystemError else thrown (conn_fs s) (fst r));
                     p1 = fold notify_action (fst r1) p
                 in Ret (exn, p1\<lparr>p_conns := (p_conns p1)[i := apply_result r1 (taken e s)]\<rparr>))
      else Ret (None, p))"

text \<open>
  \<open>reloadxml\<close> is called by the thread of the statistics port, to which the exception of a failed
  write goes.
\<close>

definition request_reload :: "nat \<Rightarrow> bool \<Rightarrow> pool \<Rightarrow> pool" where
  "request_reload i write_ok p =
     (if i < length (p_conns p) then
        let s = p_conns p ! i;
            r = reloadxml (conn_fs s);
            r1 = (if \<not> write_ok \<and> list_ex is_write (fst r) then interrupted Reload (conn_fs s) r else r)
        in p\<lparr>p_conns := (p_conns p)[i := apply_result r1 s]\<rparr>
      else p)"

section \<open>The thread\<close>

text \<open>
  \<open>io_service::run\<close>: it returns when the service is stopped, and leaves with the exception of a
  handler; the \<open>work\<close> object keeps it waiting when there is nothing to do, which is the end of the
  list of events.
\<close>

fun io_run :: "u64 \<Rightarrow> pool_event list \<Rightarrow> pool \<Rightarrow> (monitor_exception option \<times> pool_event list \<times> pool) outcome" where
  "io_run h [] p = Ret (None, [], p)"
| "io_run h (StopRequested # es) p = Ret (None, es, p\<lparr>p_stopped := True\<rparr>)"
| "io_run h (ReloadRequested i write_ok # es) p = io_run h es (request_reload i write_ok p)"
| "io_run h (Completion i e write_ok # es) p =
     (if p_stopped p then Ret (None, es, p)
      else obind (io_handler h i e write_ok p) (\<lambda>(exn, p').
        case exn of None \<Rightarrow> io_run h es p' | Some x \<Rightarrow> Ret (Some x, es, p')))"

lemma io_run_shorter: "io_run h es p = Ret (Some x, es', p') \<Longrightarrow> length es' < length es"
proof (induction es arbitrary: p)
  case (Cons e es)
  then have "length es' < length es" if "io_run h es q = Ret (Some x, es', p')" for q
    using that by blast
  with Cons.prems show ?case
    by (cases e) (auto simp: obind_Ret_iff less_SucI split: if_splits option.splits)
qed simp

text \<open>
  \<open>threadFunc\<close>: an exception of a connection goes back to the event loop, any other one ends the
  thread, and so does the return of the event loop.
\<close>

function threadFunc :: "u64 \<Rightarrow> pool_event list \<Rightarrow> pool \<Rightarrow> pool outcome" where
  "threadFunc h es p =
     (case io_run h es p of
        Aborted \<Rightarrow> Aborted
      | Undefined \<Rightarrow> Undefined
      | Ret (None, es', p') \<Rightarrow> Ret (if p_stopped p' then p'\<lparr>p_looping := False\<rparr> else p')
      | Ret (Some SystemError, es', p') \<Rightarrow>
          Ret (p'\<lparr>p_looping := False, p_caught := p_caught p' @ [SystemError]\<rparr>)
      | Ret (Some exn, es', p') \<Rightarrow> threadFunc h es' (p'\<lparr>p_caught := p_caught p' @ [exn]\<rparr>))"
  by pat_completeness auto
termination
  by (relation "measure (\<lambda>(h, es, p). length es)") (auto dest: io_run_shorter)

declare threadFunc.simps [simp del]

text \<open>The ways \<open>threadFunc\<close> goes on after one run of the event loop.\<close>

lemma threadFunc_run:
  assumes "io_run h es p = Ret (exn, es', p')"
  shows "exn = None \<Longrightarrow> threadFunc h es p = Ret (if p_stopped p' then p'\<lparr>p_looping := False\<rparr> else p')"
    "exn = Some SystemError \<Longrightarrow>
      threadFunc h es p = Ret (p'\<lparr>p_looping := False, p_caught := p_caught p' @ [SystemError]\<rparr>)"
    "exn = Some x \<Longrightarrow> x \<noteq> SystemError \<Longrightarrow> threadFunc h es p = threadFunc h es' (p'\<lparr>p_caught := p_caught p' @ [x]\<rparr>)"
  using assms by (simp_all add: threadFunc.simps [of h es p] split: monitor_exception.split)

lemma threadFunc_Ret:
  assumes "threadFunc h es p = Ret q"
  obtains exn es' p' where "io_run h es p = Ret (exn, es', p')"
  using assms by (auto simp: threadFunc.simps [of h es p] split: outcome.splits)

section \<open>Invariants of the thread\<close>

text \<open>
  What one handler, a reload asked for by another thread and the bookkeeping of the thread keep of
  a pool, any run of the thread keeps, exceptions and failed writes included.
\<close>

locale pool_invariant =
  fixes h :: u64 and P :: "pool \<Rightarrow> bool"
  assumes handler_keeps: "P p \<Longrightarrow> io_handler h i e wr p = Ret (exn, p') \<Longrightarrow> P p'"
    and reload_keeps: "P p \<Longrightarrow> P (request_reload i wr p)"
    and flags_keep: "P (p\<lparr>p_stopped := x\<rparr>) = P p" "P (p\<lparr>p_looping := x\<rparr>) = P p" "P (p\<lparr>p_caught := xs\<rparr>) = P p"
begin

lemma io_run_keeps: "io_run h es p = Ret (exn, es', p') \<Longrightarrow> P p \<Longrightarrow> P p'"
proof (induction es arbitrary: p)
  case (Cons ev es)
  show ?case
  proof (cases ev)
    case (Completion i e wr)
    show ?thesis
    proof (cases "p_stopped p")
      case False
      then obtain y q where q: "io_handler h i e wr p = Ret (y, q)"
        "(case y of None \<Rightarrow> io_run h es q | Some z \<Rightarrow> Ret (Some z, es, q)) = Ret (exn, es', p')"
        using Cons.prems(1) Completion by (auto simp: obind_Ret_iff)
      then show ?thesis using Cons.IH [of q] handler_keeps [OF Cons.prems(2) q(1)] by (cases y) auto
    qed (use Cons.prems Completion in simp)
  qed (use Cons in \<open>auto simp: reload_keeps flags_keep\<close>)
qed simp

lemma threadFunc_keeps: "threadFunc h es p = Ret p' \<Longrightarrow> P p \<Longrightarrow> P p'"
proof (induction "length es" arbitrary: es p rule: less_induct)
  case less
  obtain exn es' q where run: "io_run h es p = Ret (exn, es', q)" by (rule threadFunc_Ret [OF less.prems(1)])
  have q: "P q" using io_run_keeps [OF run less.prems(2)] .
  show ?case
  proof (cases "exn = None \<or> exn = Some SystemError")
    case True
    then show ?thesis using threadFunc_run(1,2) [OF run] less.prems(1) q by (auto simp: flags_keep split: if_splits)
  next
    case False
    then obtain x where x: "exn = Some x" "x \<noteq> SystemError" by auto
    moreover have "length es' < length es" using io_run_shorter run x(1) by blast
    ultimately show ?thesis using less.hyps threadFunc_run(3) [OF run x] less.prems(1) q by (simp add: flags_keep)
  qed
qed

end

section \<open>Start and stop\<close>

text \<open>
  \<open>run\<close> starts the thread unless it has one; \<open>stop\<close> stops the service, waits for the thread and
  drops the servers.
\<close>

definition monitor_run :: "pool \<Rightarrow> pool" where
  "monitor_run p = (if p_joinable p then p else p\<lparr>p_joinable := True, p_looping := \<not> p_stopped p\<rparr>)"

definition monitor_stop :: "pool \<Rightarrow> pool" where
  "monitor_stop p = p\<lparr>p_stopped := True, p_looping := False, p_joinable := False, p_conns := []\<rparr>"

text \<open>The pool of a monitor whose servers have just been started.\<close>

definition conn_of :: "FsInstance \<Rightarrow> fs_conn" where
  "conn_of fs = \<lparr>conn_fs = fs, conn_resolve = True, conn_connect = None, conn_reads = 0, conn_timer = False\<rparr>"

definition pool_of :: "FsMonitor \<Rightarrow> pool" where
  "pool_of m =
     \<lparr>p_conns = map conn_of (mon_servers m), p_setServers = mon_setServers m, p_reported = [],
      p_joinable = False, p_looping = False, p_stopped = False, p_caught = []\<rparr>"

text \<open>The monitor as the threads that ask it for servers see it.\<close>

definition monitor_of :: "FsMonitor \<Rightarrow> pool \<Rightarrow> FsMonitor" where
  "monitor_of m p = m\<lparr>mon_servers := map conn_fs (p_conns p), mon_setServers := p_setServers p\<rparr>"


section \<open>The connections by themselves\<close>

text \<open>The events of one connection among those of the pool, and what they do to it alone.\<close>

definition own_event :: "nat \<Rightarrow> pool_event \<Rightarrow> fs_event option" where
  "own_event i ev =
     (case ev of
        Completion j e wr \<Rightarrow> if j = i \<and> e \<noteq> Reload then Some e else None
      | ReloadRequested j wr \<Rightarrow> if j = i then Some Reload else None
      | StopRequested \<Rightarrow> None)"

definition conn_after :: "u64 \<Rightarrow> fs_event \<Rightarrow> fs_conn \<Rightarrow> fs_conn" where
  "conn_after h e s = (case fs_event_step h s e of None \<Rightarrow> s | Some t \<Rightarrow> t)"

definition alone :: "u64 \<Rightarrow> nat \<Rightarrow> pool_event list \<Rightarrow> fs_conn \<Rightarrow> fs_conn" where
  "alone h i es = fold (conn_after h) (List.map_filter (own_event i) es)"

text \<open>Nothing goes wrong with a write, and nobody stops the monitor.\<close>

definition undisturbed :: "pool_event \<Rightarrow> bool" where
  "undisturbed ev =
     (case ev of Completion i e wr \<Rightarrow> wr | ReloadRequested i wr \<Rightarrow> wr | StopRequested \<Rightarrow> False)"

lemma alone_simps [simp]:
  "alone h i [] s = s"
  "alone h i (ev # es) s = alone h i es (case own_event i ev of None \<Rightarrow> s | Some e \<Rightarrow> conn_after h e s)"
  "alone h i (es @ es') s = alone h i es' (alone h i es s)"
  by (simp_all add: alone_def List.map_filter_def split: option.split)

lemma event_result_step:
  assumes "e \<noteq> Reload"
  shows "fs_event_step h s e =
    (case fs_event_result h s e of Some (Ret r) \<Rightarrow> Some (apply_result r (taken e s)) | _ \<Rightarrow> None)"
  using assms by (cases e) (auto split: outcome.split option.split)

lemma notify_keeps [simp]:
  "p_conns (fold notify_action acts p) = p_conns p"
  "p_looping (fold notify_action acts p) = p_looping p"
  "p_stopped (fold notify_action acts p) = p_stopped p"
  "p_joinable (fold notify_action acts p) = p_joinable p"
  "p_caught (fold notify_action acts p) = p_caught p"
proof -
  have "p_conns (fold notify_action acts p) = p_conns p \<and> p_looping (fold notify_action acts p) = p_looping p \<and>
    p_stopped (fold notify_action acts p) = p_stopped p \<and> p_joinable (fold notify_action acts p) = p_joinable p \<and>
    p_caught (fold notify_action acts p) = p_caught p"
  proof (induction acts arbitrary: p)
    case (Cons act acts)
    then show ?case by (cases act) simp_all
  qed simp
  then show "p_conns (fold notify_action acts p) = p_conns p"
    "p_looping (fold notify_action acts p) = p_looping p"
    "p_stopped (fold notify_action acts p) = p_stopped p"
    "p_joinable (fold notify_action acts p) = p_joinable p"
    "p_caught (fold notify_action acts p) = p_caught p" by simp_all
qed

text \<open>What a handler leaves of the rest of the pool, whether its write succeeds or not.\<close>

lemma io_handler_Ret:
  assumes "io_handler h i e wr p = Ret (exn, p')"
  shows "p_looping p' = p_looping p" "p_stopped p' = p_stopped p" "p_joinable p' = p_joinable p"
    "p_caught p' = p_caught p" "length (p_conns p') = length (p_conns p)"
    "j \<noteq> i \<Longrightarrow> p_conns p' ! j = p_conns p ! j"
    "wr \<Longrightarrow> exn \<noteq> Some SystemError"
  using assms
  by (auto simp: io_handler_def obind_Ret_iff Let_def thrown_def split: if_splits option.splits)

lemma io_handler_own:
  assumes "io_handler h i e True p = Ret (exn, p')" "i < length (p_conns p)"
  shows "p_conns p' ! i = (if e = Reload then p_conns p ! i else conn_after h e (p_conns p ! i))"
  using assms
  by (cases "e = Reload")
    (auto simp: io_handler_def obind_Ret_iff Let_def conn_after_def event_result_step split: option.splits outcome.splits)

lemma request_reload_keeps [simp]:
  "p_looping (request_reload i wr p) = p_looping p" "p_stopped (request_reload i wr p) = p_stopped p"
  "p_caught (request_reload i wr p) = p_caught p" "p_joinable (request_reload i wr p) = p_joinable p"
  "length (p_conns (request_reload i wr p)) = length (p_conns p)"
  "j \<noteq> i \<Longrightarrow> p_conns (request_reload i wr p) ! j = p_conns p ! j"
  by (simp_all add: request_reload_def Let_def)

lemma request_reload_own:
  "i < length (p_conns p) \<Longrightarrow> p_conns (request_reload i True p) ! i = conn_after h Reload (p_conns p ! i)"
  by (simp add: request_reload_def Let_def conn_after_def)

text \<open>
  A part of a run in which each connection has gone its own way, and everything else about the
  thread has stayed.
\<close>

definition ran_alone :: "u64 \<Rightarrow> pool_event list \<Rightarrow> pool \<Rightarrow> pool \<Rightarrow> bool" where
  "ran_alone h es p p' \<longleftrightarrow>
     p_looping p' = p_looping p \<and> p_stopped p' = p_stopped p \<and> length (p_conns p') = length (p_conns p) \<and>
     (\<forall>i < length (p_conns p). p_conns p' ! i = alone h i es (p_conns p ! i))"

lemma ran_alone_Nil: "ran_alone h [] p p"
  by (simp add: ran_alone_def)

lemma ran_alone_append: "ran_alone h es p q \<Longrightarrow> ran_alone h es' q r \<Longrightarrow> ran_alone h (es @ es') p r"
  by (simp add: ran_alone_def)

lemma ran_alone_handler: "io_handler h i e True p = Ret (exn, p') \<Longrightarrow> ran_alone h [Completion i e True] p p'"
proof -
  assume run: "io_handler h i e True p = Ret (exn, p')"
  have "p_conns p' ! j = alone h j [Completion i e True] (p_conns p ! j)" if "j < length (p_conns p)" for j
    using that io_handler_own [OF run] io_handler_Ret(6) [OF run, of j]
    by (cases "j = i") (simp_all add: own_event_def)
  with io_handler_Ret(1-5) [OF run] show ?thesis by (simp add: ran_alone_def)
qed

lemma ran_alone_reload: "ran_alone h [ReloadRequested i True] p (request_reload i True p)"
proof -
  have "p_conns (request_reload i True p) ! j = alone h j [ReloadRequested i True] (p_conns p ! j)"
    if "j < length (p_conns p)" for j
    using that request_reload_own [of i p h] by (cases "j = i") (simp_all add: own_event_def)
  then show ?thesis by (simp add: ran_alone_def)
qed

lemma io_run_alone:
  assumes "io_run h es p = Ret (exn, es', p')" "\<forall>ev \<in> set es. undisturbed ev" "\<not> p_stopped p"
  shows "\<exists>handled. es = handled @ es' \<and> (exn = None \<longrightarrow> es' = []) \<and> exn \<noteq> Some SystemError \<and>
    p_caught p' = p_caught p \<and> ran_alone h handled p p'"
  using assms
proof (induction es arbitrary: p)
  case Nil
  then show ?case by (simp add: ran_alone_Nil)
next
  case (Cons ev es)
  have more: "?case" if "ran_alone h [ev] p q" "p_caught q = p_caught p" "io_run h es q = Ret (exn, es', p')" for q
  proof -
    have "\<not> p_stopped q" using that(1) Cons.prems(3) by (simp add: ran_alone_def)
    with Cons.IH [OF that(3)] Cons.prems(2) obtain handled where "es = handled @ es'" "exn = None \<longrightarrow> es' = []"
      "exn \<noteq> Some SystemError" "p_caught p' = p_caught q" "ran_alone h handled q p'" by auto
    then show ?thesis using ran_alone_append [OF that(1)] that(2) by (intro exI [of _ "ev # handled"]) auto
  qed
  show ?case
  proof (cases ev)
    case (Completion i e wr)
    then obtain x q where q: "io_handler h i e True p = Ret (x, q)" "wr"
      "(case x of None \<Rightarrow> io_run h es q | Some y \<Rightarrow> Ret (Some y, es, q)) = Ret (exn, es', p')"
      using Cons.prems by (auto simp: obind_Ret_iff undisturbed_def)
    note ran = ran_alone_handler [OF q(1)] and keep = io_handler_Ret [OF q(1)]
    show ?thesis
    proof (cases x)
      case None
      then show ?thesis using more [of q] ran q(2,3) keep Completion by simp
    next
      case (Some y)
      then show ?thesis using ran q(2,3) keep Completion by (intro exI [of _ "[ev]"]) auto
    qed
  next
    case (ReloadRequested i wr)
    then show ?thesis using more [of "request_reload i wr p"] ran_alone_reload [of h i p] Cons.prems
      by (simp add: undisturbed_def)
  next
    case StopRequested
    then show ?thesis using Cons.prems by (simp add: undisturbed_def)
  qed
qed

lemma caught_irrelevant [simp]: "ran_alone h es (p\<lparr>p_caught := xs\<rparr>) p' = ran_alone h es p p'"
  by (simp add: ran_alone_def)

lemma threadFunc_alone:
  assumes "threadFunc h es p = Ret p'" "\<forall>ev \<in> set es. undisturbed ev" "\<not> p_stopped p"
  shows "ran_alone h es p p' \<and> set (p_caught p') \<subseteq> set (p_caught p) \<union> - {SystemError}"
  using assms
proof (induction "length es" arbitrary: es p rule: less_induct)
  case less
  obtain exn es' q where q: "io_run h es p = Ret (exn, es', q)"
    by (rule threadFunc_Ret [OF less.prems(1)])
  obtain handled where hd: "es = handled @ es'" "exn = None \<longrightarrow> es' = []" "exn \<noteq> Some SystemError"
      "p_caught q = p_caught p" "ran_alone h handled p q"
    using io_run_alone [OF q less.prems(2,3)] by blast
  have st: "\<not> p_stopped q" using hd(5) less.prems(3) by (simp add: ran_alone_def)
  show ?case
  proof (cases exn)
    case None
    then show ?thesis using less.prems(1) hd st threadFunc_run(1) [OF q] by auto
  next
    case (Some x)
    let ?q = "q\<lparr>p_caught := p_caught q @ [x]\<rparr>"
    have run: "threadFunc h es' ?q = Ret p'"
      using less.prems(1) Some hd(3) threadFunc_run(3) [OF q, of x] by simp
    have "ran_alone h es' ?q p' \<and> set (p_caught p') \<subseteq> set (p_caught ?q) \<union> - {SystemError}"
      using less.hyps [OF _ run] less.prems(2) st io_run_shorter [of h es p x es' q] q Some hd(1) by simp
    then show ?thesis using hd Some ran_alone_append [OF hd(5), of es' p'] by auto
  qed
qed

section \<open>A write that fails\<close>

lemma io_run_append_exn:
  "io_run h es p = Ret (Some x, es', q) \<Longrightarrow> io_run h (es @ rest) p = Ret (Some x, es' @ rest, q)"
proof (induction es arbitrary: p)
  case (Cons ev es)
  show ?case
  proof (cases ev)
    case (Completion i e wr)
    then obtain y q1 where "io_handler h i e wr p = Ret (y, q1)" "\<not> p_stopped p"
      "(case y of None \<Rightarrow> io_run h es q1 | Some z \<Rightarrow> Ret (Some z, es, q1)) = Ret (Some x, es', q)"
      using Cons.prems by (auto simp: obind_Ret_iff split: if_splits)
    then show ?thesis using Completion Cons.IH [of q1] by (cases y) simp_all
  qed (use Cons in simp_all)
qed simp

lemma io_run_append:
  assumes "io_run h es p = Ret (None, [], q)" "\<forall>ev \<in> set es. undisturbed ev" "\<not> p_stopped p"
  shows "io_run h (es @ rest) p = io_run h rest q"
  using assms
proof (induction es arbitrary: p)
  case (Cons ev es)
  show ?case
  proof (cases ev)
    case (Completion i e wr)
    then obtain q1 where q1: "io_handler h i e wr p = Ret (None, q1)" "io_run h es q1 = Ret (None, [], q)"
      using Cons.prems by (auto simp: obind_Ret_iff split: option.splits)
    then have "\<not> p_stopped q1" using io_handler_Ret(2) [OF q1(1)] Cons.prems(3) by simp
    with Cons.IH [OF q1(2)] Cons.prems Completion q1(1) show ?thesis by simp
  qed (use Cons in \<open>simp_all add: undisturbed_def\<close>)
qed simp

lemma threadFunc_append:
  assumes "threadFunc h es p = Ret q" "\<forall>ev \<in> set es. undisturbed ev" "\<not> p_stopped p"
  shows "threadFunc h (es @ rest) p = threadFunc h rest q"
  using assms
proof (induction "length es" arbitrary: es p rule: less_induct)
  case less
  obtain exn es' p1 where run: "io_run h es p = Ret (exn, es', p1)" by (rule threadFunc_Ret [OF less.prems(1)])
  obtain handled where hd: "es = handled @ es'" "exn = None \<longrightarrow> es' = []" "exn \<noteq> Some SystemError"
      "ran_alone h handled p p1"
    using io_run_alone [OF run less.prems(2,3)] by blast
  have st: "\<not> p_stopped p1" using hd(4) less.prems(3) by (simp add: ran_alone_def)
  show ?case
  proof (cases exn)
    case None
    then have "q = p1" using threadFunc_run(1) [OF run] less.prems(1) st by simp
    moreover have "io_run h (es @ rest) p = io_run h rest p1"
      using io_run_append [OF _ less.prems(2,3)] run None hd(2) by simp
    ultimately show ?thesis by (simp add: threadFunc.simps [of h "es @ rest"] threadFunc.simps [of h rest])
  next
    case (Some x)
    let ?p = "p1\<lparr>p_caught := p_caught p1 @ [x]\<rparr>"
    have x: "x \<noteq> SystemError" using hd(3) Some by simp
    have "threadFunc h (es' @ rest) ?p = threadFunc h rest q"
    proof (rule less.hyps)
      show "length es' < length es" using io_run_shorter run Some by blast
      show "threadFunc h es' ?p = Ret q" using threadFunc_run(3) [OF run Some x] less.prems(1) by simp
    qed (use less.prems(2) hd(1) st in simp_all)
    then show ?thesis
      using threadFunc_run(3) [OF io_run_append_exn [of h es p x es' p1 rest]] run Some x by simp
  qed
qed

lemma io_handler_broken:
  assumes "i < length (p_conns p)" "fs_event_result h (p_conns p ! i) e = Some (Ret r)" "list_ex is_write (fst r)"
  obtains p' where "io_handler h i e False p = Ret (Some SystemError, p')"
  using assms by (auto simp: io_handler_def Let_def)

section \<open>The hosts of the servers\<close>

fun is_notify :: "fs_action \<Rightarrow> bool" where
  "is_notify (NotifySipServerAddress a b port) = True"
| "is_notify _ = False"

text \<open>A handler reports an address exactly when it stores one.\<close>

definition reports :: "FsInstance \<Rightarrow> fs_action list \<times> FsInstance \<Rightarrow> bool" where
  "reports fs r \<longleftrightarrow> fs_strAddress (snd r) = fs_strAddress fs \<and>
     ((\<forall>act \<in> set (fst r). \<not> is_notify act) \<and> fs_strSipAddress (snd r) = fs_strSipAddress fs \<or>
      (\<exists>port acts. fst r = NotifySipServerAddress (fs_strAddress fs) (fs_strSipAddress (snd r)) port # acts \<and>
         (\<forall>act \<in> set acts. \<not> is_notify act) \<and> fs_strSipAddress (snd r) \<noteq> []))"

lemma notify_silent: "\<forall>act \<in> set acts. \<not> is_notify act \<Longrightarrow> fold notify_action acts p = p"
proof (induction acts)
  case (Cons act acts)
  then show ?case by (cases act) simp_all
qed simp

lemma decide_address: "decide fs = Ret d \<Longrightarrow> fs_strAddress (d_fs d) = fs_strAddress fs"
  by (auto simp: decide_def nothing_decided_def Let_def obind_Ret_iff
    split: CONNECTION_STATE.splits if_splits option.splits)

lemma reports_read:
  assumes "read_handler h fs res = Ret r"
  shows "reports fs r"
  using assms
proof (cases rule: read_handler_cases)
  case (complete m d)
  note address = decide_address [OF complete(1)]
  from complete(1) show ?thesis
  proof (cases rule: decide_cases)
    case polled
    then show ?thesis using complete(2) address by (auto simp: reports_def carry_out_def)
  qed (use complete(2) in \<open>auto simp: reports_def carry_out_def nothing_decided_def\<close>)
qed (auto simp: reports_def)

lemma reports_event:
  assumes "fs_event_result h s e = Some (Ret r)"
  shows "reports (conn_fs s) r" "\<not> (\<exists>data. e = HaveRead (Some data)) \<Longrightarrow> fs_strSipAddress (snd r) = fs_strSipAddress (conn_fs s) \<and>
    (\<forall>act \<in> set (fst r). \<not> is_notify act)"
proof -
  have "reports (conn_fs s) r \<and> (\<not> (\<exists>data. e = HaveRead (Some data)) \<longrightarrow>
    fs_strSipAddress (snd r) = fs_strSipAddress (conn_fs s) \<and> (\<forall>act \<in> set (fst r). \<not> is_notify act))"
  proof (cases e)
    case (Resolved res)
    then show ?thesis using assms
      by (auto simp: reports_def resolve_handler_def split: if_splits option.splits list.splits)
  next
    case (Connected success)
    then show ?thesis using assms
      by (auto simp: reports_def connect_handler_def split: if_splits list.splits)
  next
    case (HaveRead res)
    then have r: "read_handler h (conn_fs s) res = Ret r" using assms by (auto split: if_splits)
    have "r = ([], conn_fs s)" if "res = None" using r that by (simp add: read_handler_def)
    with reports_read [OF r] HaveRead show ?thesis by (cases res) auto
  next
    case TimedOut
    then show ?thesis using assms
      by (cases "fs_state (conn_fs s)") (auto simp: reports_def timer_handler_def fs_start_def split: if_splits)
  qed (use assms in simp)
  then show "reports (conn_fs s) r" "\<not> (\<exists>data. e = HaveRead (Some data)) \<Longrightarrow> fs_strSipAddress (snd r) = fs_strSipAddress (conn_fs s) \<and>
    (\<forall>act \<in> set (fst r). \<not> is_notify act)" by auto
qed

lemma reports_interrupted:
  assumes "fs_event_result h s e = Some (Ret r)"
  shows "reports (conn_fs s) (interrupted e (conn_fs s) r)"
proof (cases "\<exists>data. e = HaveRead (Some data)")
  case True
  have silent: "\<forall>act \<in> set (takeWhile (\<lambda>act. \<not> is_write act) acts). \<not> is_notify act"
    if "\<forall>act \<in> set acts. \<not> is_notify act" for acts
    using that set_takeWhileD by fast
  from True show ?thesis using reports_event(1) [OF assms] silent by (auto simp: reports_def interrupted_def)
next
  case False
  then show ?thesis using reports_event(2) [OF assms False]
    by (auto simp: reports_def interrupted_def dest: set_takeWhileD split: fs_event.split option.split)
qed

text \<open>
  The host a server calls from: its event socket address until it has reported its SIP address. The
  hosts that are accepted are configured or reported ones, and a server is accepted unless another
  one has the same address on its event socket, whose report then removes it.
\<close>

definition host_of :: "fs_conn \<Rightarrow> string" where
  "host_of s = (if fs_strSipAddress (conn_fs s) = [] then fs_strAddress (conn_fs s)
                else fs_strSipAddress (conn_fs s))"

definition hosts_ok :: "string list \<Rightarrow> (nat \<Rightarrow> string) \<Rightarrow> string set \<Rightarrow> (string \<times> string) set \<Rightarrow> bool" where
  "hosts_ok as sip S rep \<longleftrightarrow> S \<subseteq> set as \<union> snd ` rep \<and>
     (\<forall>i < length as. let host = (if sip i = [] then as ! i else sip i) in
        (sip i \<noteq> [] \<longrightarrow> (as ! i, sip i) \<in> rep) \<and>
        ((\<forall>j < length as. j \<noteq> i \<longrightarrow> as ! j \<noteq> host) \<longrightarrow> host \<in> S))"

definition known_hosts :: "string list \<Rightarrow> pool \<Rightarrow> bool" where
  "known_hosts as p \<longleftrightarrow> map (\<lambda>s. fs_strAddress (conn_fs s)) (p_conns p) = as \<and>
     hosts_ok as (\<lambda>i. fs_strSipAddress (conn_fs (p_conns p ! i))) (set (p_setServers p)) (set (p_reported p))"

lemma hosts_ok_report:
  assumes "hosts_ok as sip S rep" "i < length as" "x \<noteq> []"
  shows "hosts_ok as (sip(i := x)) (insert x (S - {as ! i})) (insert (as ! i, x) rep)"
  using assms by (auto simp: hosts_ok_def Let_def)

lemma hosts_ok_cong: "(\<And>i. i < length as \<Longrightarrow> sip i = sip' i) \<Longrightarrow> hosts_ok as sip S rep = hosts_ok as sip' S rep"
  by (simp add: hosts_ok_def)

lemma set_insert_set [simp]: "set (set_insert x xs) = insert x (set xs)"
  by (auto simp: set_insert_def)

lemma known_hosts_update:
  assumes known: "known_hosts as p" and i: "i < length (p_conns p)" and rep: "reports (conn_fs (p_conns p ! i)) r"
  shows "known_hosts as ((fold notify_action (fst r) p)\<lparr>p_conns := (p_conns p)[i := apply_result r s]\<rparr>)"
proof -
  let ?fs = "conn_fs (p_conns p ! i)" and ?conns = "(p_conns p)[i := apply_result r s]"
  let ?sip = "\<lambda>j. fs_strSipAddress (conn_fs (p_conns p ! j))"
  have as: "map (\<lambda>s. fs_strAddress (conn_fs s)) (p_conns p) = as" using known by (simp add: known_hosts_def)
  then have len: "length as = length (p_conns p)" and asi: "as ! i = fs_strAddress ?fs" using i by auto
  have "fs_strAddress (snd r) = fs_strAddress ?fs" using rep by (simp add: reports_def)
  then have "map (\<lambda>s. fs_strAddress (conn_fs s)) ?conns = map (\<lambda>s. fs_strAddress (conn_fs s)) (p_conns p)"
    using i by (simp add: map_list_update_same)
  then have names: "map (\<lambda>s. fs_strAddress (conn_fs s)) ?conns = as" by (simp only: as)
  have sip: "hosts_ok as (\<lambda>j. fs_strSipAddress (conn_fs (?conns ! j))) S q =
      hosts_ok as (?sip(i := fs_strSipAddress (snd r))) S q" for S q
    using len i by (intro hosts_ok_cong) (auto simp: nth_list_update)
  have ok: "hosts_ok as ?sip (set (p_setServers p)) (set (p_reported p))" using known by (simp add: known_hosts_def)
  show ?thesis
  proof (cases "\<forall>act \<in> set (fst r). \<not> is_notify act")
    case True
    then have "?sip(i := fs_strSipAddress (snd r)) = ?sip" using rep by (auto simp: reports_def)
    then show ?thesis using ok sip names notify_silent [OF True] by (simp add: known_hosts_def)
  next
    case False
    then obtain port acts where n: "fst r = NotifySipServerAddress (as ! i) (fs_strSipAddress (snd r)) port # acts"
      "\<forall>act \<in> set acts. \<not> is_notify act" "fs_strSipAddress (snd r) \<noteq> []"
      using rep asi by (auto simp: reports_def)
    then show ?thesis using hosts_ok_report [OF ok _ n(3), of i] sip names i len
      by (simp add: known_hosts_def notify_silent)
  qed
qed

lemma known_hosts_handler:
  assumes "known_hosts as p" "io_handler h i e wr p = Ret (exn, p')"
  shows "known_hosts as p'"
proof (cases "i < length (p_conns p) \<and> fs_event_result h (p_conns p ! i) e \<noteq> None")
  case False
  then show ?thesis using assms by (auto simp: io_handler_def Let_def split: if_splits)
next
  case True
  then obtain r where r: "fs_event_result h (p_conns p ! i) e = Some (Ret r)"
    using assms(2) by (auto simp: io_handler_def Let_def obind_Ret_iff)
  have "p' = (let r1 = if \<not> wr \<and> list_ex is_write (fst r) then interrupted e (conn_fs (p_conns p ! i)) r else r
      in (fold notify_action (fst r1) p)\<lparr>p_conns := (p_conns p)[i := apply_result r1 (taken e (p_conns p ! i))]\<rparr>)"
    using assms(2) True r by (auto simp: io_handler_def Let_def)
  then show ?thesis using known_hosts_update [OF assms(1)] True reports_event(1) [OF r] reports_interrupted [OF r]
    by (auto simp: Let_def)
qed

lemma known_hosts_reload: "known_hosts as p \<Longrightarrow> known_hosts as (request_reload i wr p)"
proof -
  assume known: "known_hosts as p"
  let ?s = "p_conns p ! i" and ?w = "\<not> wr \<and> list_ex is_write (fst (reloadxml (conn_fs (p_conns p ! i))))"
  define r where "r = (if ?w then interrupted Reload (conn_fs ?s) (reloadxml (conn_fs ?s)) else reloadxml (conn_fs ?s))"
  have "reports (conn_fs ?s) r" and silent: "\<forall>act \<in> set (fst r). \<not> is_notify act"
    by (auto simp: r_def reports_def reloadxml_def interrupted_def)
  then show ?thesis
    using known_hosts_update [OF known, of i r ?s] known notify_silent [OF silent, of p]
    by (auto simp: request_reload_def r_def Let_def)
qed

lemma known_hosts_flags [simp]:
  "known_hosts as (p\<lparr>p_stopped := x\<rparr>) = known_hosts as p" "known_hosts as (p\<lparr>p_looping := x\<rparr>) = known_hosts as p"
  "known_hosts as (p\<lparr>p_caught := xs\<rparr>) = known_hosts as p" "known_hosts as (p\<lparr>p_joinable := x\<rparr>) = known_hosts as p"
  by (simp_all add: known_hosts_def)

interpretation hosts: pool_invariant h "known_hosts as"
proof unfold_locales
qed (fact known_hosts_handler known_hosts_reload known_hosts_flags)+

lemma known_hosts_start:
  assumes "reset ss m0 = Ret (acts, m)"
  shows "known_hosts (map fs_strAddress (mon_servers m)) (pool_of m)"
proof -
  have "(\<forall>fs \<in> set (mon_servers m1). fs_strSipAddress fs = []) \<and> set (mon_setServers m1) = fs_strAddress ` set (mon_servers m1)"
    if "add_servers addr port ss m2 = Ret (acts, m1)" "\<forall>fs \<in> set (mon_servers m2). fs_strSipAddress fs = []"
      "set (mon_setServers m2) = fs_strAddress ` set (mon_servers m2)" for addr port ss m2 acts m1
    using that
  proof (induction ss arbitrary: addr port m2 acts)
    case (Cons x ss)
    then show ?case
      by (fastforce simp: Let_def deref_Ret_iff obind_Ret_iff fs_start_def FsInstance_new_def split: prod.splits)
  qed simp
  from this [of "[]" None ss _ acts m] assms show ?thesis
    by (auto simp: reset_def known_hosts_def hosts_ok_def pool_of_def conn_of_def Let_def)
qed

section \<open>The connections of the pool\<close>

text \<open>The invariant of a connection is kept by a handler whose write throws, too.\<close>

lemma fs_inv_event:
  assumes "fs_inv s" "fs_event_result h s e = Some (Ret r)"
  shows "fs_inv (apply_result r (taken e s))"
  using assms resolve_keeps_inv [OF assms(1), of _ r] connect_keeps_inv [OF assms(1), of _ _ r]
    timer_keeps_inv [OF assms(1), of r] read_keeps_inv [OF assms(1), of h _ r]
  by (cases e) (auto split: if_splits)

lemma polled_silent: "decide fs = Ret d \<Longrightarrow> fs_state fs = querying_status \<Longrightarrow> d_out d = []"
  by (auto simp: decide_def nothing_decided_def obind_Ret_iff Let_def split: if_splits)

lemma fs_inv_read_interrupted:
  assumes inv: "fs_inv s" and reads: "0 < conn_reads s" and r: "read_handler h (conn_fs s) (Some data) = Ret r"
    and wr: "list_ex is_write (fst r)"
  shows "fs_inv (apply_result (interrupted (HaveRead (Some data)) (conn_fs s) r) (s\<lparr>conn_reads := conn_reads s - 1\<rparr>))"
  using r
proof (cases rule: read_handler_cases)
  case (complete m d)
  from complete(1) show ?thesis
  proof (cases rule: decide_cases)
    case (advance st out)
    then have "interrupted (HaveRead (Some data)) (conn_fs s) r =
        ([], (conn_fs s)\<lparr>fs_fsMsg := append_data (fs_fsMsg (conn_fs s)) data, fs_state := st\<rparr>)"
      using wr complete(2) by (auto simp: carry_out_def nothing_decided_def interrupted_def split: if_splits)
    then show ?thesis using inv reads advance(1) by (auto simp: fs_inv_def apply_result_def)
  next
    case (online address port out)
    then have "interrupted (HaveRead (Some data)) (conn_fs s) r =
        ([NotifySipServerAddress (fs_strAddress (conn_fs s)) address port], (conn_fs s)\<lparr>fs_fsMsg := append_data (fs_fsMsg (conn_fs s)) data,
          fs_strSipAddress := address, fs_nSipPort := port, fs_state := querying_status\<rparr>)"
      using wr complete(2) by (auto simp: carry_out_def nothing_decided_def interrupted_def split: if_splits)
    then show ?thesis using inv reads online(1,2) by (auto simp: fs_inv_def apply_result_def)
  next
    case polled
    then show ?thesis using wr complete(2) polled_silent [OF complete(1)] by (auto simp: carry_out_def split: if_splits)
  qed (use wr complete(2) in \<open>auto simp: carry_out_def nothing_decided_def split: if_splits\<close>)
qed (use wr in simp_all)

lemma fs_inv_interrupted:
  assumes "fs_inv s" "fs_event_result h s e = Some (Ret r)" "list_ex is_write (fst r)"
  shows "fs_inv (apply_result (interrupted e (conn_fs s) r) (taken e s))"
proof (cases e)
  case (HaveRead res)
  then show ?thesis using assms fs_inv_read_interrupted [OF assms(1), of h _ r]
    by (cases res) (auto simp: read_handler_def split: if_splits)
next
  case TimedOut
  then show ?thesis using assms
    by (cases "fs_state (conn_fs s)")
      (auto simp: timer_handler_def fs_start_def interrupted_def fs_inv_def apply_result_def split: if_splits)
qed (use assms in \<open>auto simp: resolve_handler_def connect_handler_def split: if_splits option.splits list.splits\<close>)

definition conns_ok :: "pool \<Rightarrow> bool" where
  "conns_ok p \<longleftrightarrow> (\<forall>s \<in> set (p_conns p). fs_inv s)"

lemma conns_ok_update:
  assumes "conns_ok p" "fs_inv s"
  shows "\<forall>t \<in> set ((p_conns p)[i := s]). fs_inv t"
  using assms set_update_subset_insert [of "p_conns p" i s] by (auto simp: conns_ok_def)

lemma conns_ok_handler:
  assumes "conns_ok p" "io_handler h i e wr p = Ret (exn, p')"
  shows "conns_ok p'"
proof -
  have "fs_inv (p_conns p ! i)" if "i < length (p_conns p)" using that assms(1) by (simp add: conns_ok_def)
  then show ?thesis using assms fs_inv_event [of "p_conns p ! i" h e] fs_inv_interrupted [of "p_conns p ! i" h e]
      conns_ok_update [OF assms(1)]
    by (auto simp: io_handler_def obind_Ret_iff Let_def conns_ok_def split: if_splits option.splits)
qed

lemma conns_ok_reload: "conns_ok p \<Longrightarrow> conns_ok (request_reload i wr p)"
proof -
  assume ok: "conns_ok p"
  have "fs_inv (p_conns p ! i)" if "i < length (p_conns p)" using that ok by (simp add: conns_ok_def)
  then show ?thesis using ok conns_ok_update [OF ok] reloadxml_keeps_inv [of "p_conns p ! i"]
    by (auto simp: request_reload_def Let_def conns_ok_def interrupted_def reloadxml_def apply_result_def split: if_splits)
qed

lemma conns_ok_flags:
  "conns_ok (p\<lparr>p_stopped := x\<rparr>) = conns_ok p" "conns_ok (p\<lparr>p_looping := x\<rparr>) = conns_ok p"
  "conns_ok (p\<lparr>p_caught := xs\<rparr>) = conns_ok p"
  by (simp_all add: conns_ok_def)

interpretation conns: pool_invariant h conns_ok
proof unfold_locales
qed (fact conns_ok_handler conns_ok_reload conns_ok_flags)+

lemma conns_ok_start:
  assumes "reset ss m0 = Ret (acts, m)"
  shows "conns_ok (pool_of m)"
proof -
  have "\<forall>fs \<in> set (mon_servers m1). fs_state fs = resolving"
    if "add_servers addr port ss m2 = Ret (acts, m1)" "\<forall>fs \<in> set (mon_servers m2). fs_state fs = resolving"
    for addr port ss m2 acts m1
    using that
  proof (induction ss arbitrary: addr port m2 acts)
    case (Cons x ss)
    then show ?case
      by (fastforce simp: Let_def deref_Ret_iff obind_Ret_iff fs_start_def FsInstance_new_def split: prod.splits)
  qed simp
  from this [of "[]" None ss _ acts m] assms show ?thesis
    by (auto simp: reset_def conns_ok_def pool_of_def conn_of_def fs_inv_def Let_def)
qed

section \<open>A pool\<close>

text \<open>Two servers, one of them online.\<close>

definition example_notice :: string where
  "example_notice = ''Content-Type: text/disconnect-notice\<newline>Content-Length: 4\<newline>\<newline>Bye\<newline>''"

definition example_conns :: "fs_conn list" where
  "example_conns =
     [(conn_of ((FsInstance_new ''10.0.0.1'' 8021 False)\<lparr>fs_state := querying_status, fs_strSipAddress := ''10.0.1.1'',
        fs_nMaxSessions := 30\<rparr>))\<lparr>conn_resolve := False, conn_reads := 1, conn_timer := True\<rparr>,
      conn_of ((FsInstance_new ''10.0.0.2'' 8021 False)\<lparr>fs_state := resolving\<rparr>)]"

definition example_pool :: pool where
  "example_pool =
     \<lparr>p_conns = example_conns, p_setServers = [''10.0.0.2'', ''10.0.1.1''], p_reported = [(''10.0.0.1'', ''10.0.1.1'')],
      p_joinable = True, p_looping = True, p_stopped = False, p_caught = []\<rparr>"

lemma example_notice_read:
  assumes "fs_fsMsg fs = fsmsg_reset"
  obtains m where "read_handler h fs (Some example_notice) = Ret ([CloseSocket, StartTimer 1000, ThrowDisconnect],
    fs\<lparr>fs_fsMsg := m, fs_bDisconnected := True, fs_state := starting\<rparr>)"
  using assms
  by (simp add: example_notice_def read_handler_def append_data_def parse_def parse_line_def parse_content_type_def
    parse_content_def fsmsg_finished_def fsmsg_reset_def parse_category_def parse_type_def string_eval Let_def)

section \<open>Properties\<close>

text \<open>
  C19. The monitor watches each server by itself: as long as no write to a server fails and nobody
  stops it, the thread stays in its loop whatever the servers send, exceptions of connections that
  were lost or came back included, and the state of each connection is the one its own events lead
  to, whatever happened on the others.
\<close>

theorem servers_watched_apart:
  assumes "threadFunc h es p = Ret p'" and "p_looping p" and "\<not> p_stopped p"
    and "\<forall>ev \<in> set es. undisturbed ev"
  shows "p_looping p' \<and> length (p_conns p') = length (p_conns p) \<and>
    (\<forall>i < length (p_conns p). p_conns p' ! i = alone h i es (p_conns p ! i)) \<and>
    set (p_caught p') \<subseteq> set (p_caught p) \<union> range FsDisconnectException \<union> range FsReconnectException"
proof -
  have "- {SystemError} = range FsDisconnectException \<union> range FsReconnectException"
    by (auto, metis monitor_exception.exhaust rangeI)
  then show ?thesis using threadFunc_alone [OF assms(1,4,3)] assms(2) by (auto simp: ran_alone_def)
qed

theorem servers_watched_apart_witness:
  "\<exists>p'. threadFunc 1000 [Completion 0 (HaveRead (Some example_notice)) True, Completion 1 (Resolved None) True]
      example_pool = Ret p' \<and> p_looping p' \<and> fs_state (conn_fs (p_conns p' ! 0)) = starting \<and>
      fs_state (conn_fs (p_conns p' ! 1)) = resolve_failed"
proof -
  let ?fs = "conn_fs (p_conns example_pool ! 0)"
  let ?es = "[Completion 0 (HaveRead (Some example_notice)) True, Completion 1 (Resolved None) True]"
  obtain m where m: "read_handler 1000 ?fs (Some example_notice) = Ret ([CloseSocket, StartTimer 1000, ThrowDisconnect],
      ?fs\<lparr>fs_fsMsg := m, fs_bDisconnected := True, fs_state := starting\<rparr>)"
    by (rule example_notice_read [of ?fs 1000]) (simp_all add: example_pool_def example_conns_def conn_of_def FsInstance_new_def)
  obtain p' where p': "threadFunc 1000 ?es example_pool = Ret p'"
    using m by (simp add: threadFunc.simps io_handler_def example_pool_def example_conns_def conn_of_def thrown_def
      resolve_handler_def Let_def)
  have pre: "p_looping example_pool" "\<not> p_stopped example_pool" "\<forall>ev \<in> set ?es. undisturbed ev"
    by (simp_all add: example_pool_def undisturbed_def)
  have two: "0 < length (p_conns example_pool)" "1 < length (p_conns example_pool)"
    by (simp_all add: example_pool_def example_conns_def)
  have "p_looping p'" "p_conns p' ! 0 = alone 1000 0 ?es (p_conns example_pool ! 0)"
    "p_conns p' ! 1 = alone 1000 1 ?es (p_conns example_pool ! 1)"
    using servers_watched_apart [OF p' pre] two by (blast, simp, simp)
  then show ?thesis using p' m
    by (simp add: own_event_def conn_after_def example_pool_def example_conns_def conn_of_def resolve_handler_def apply_result_def)
qed

text \<open>
  C20. A write that fails ends the monitoring of all servers: the exception of \<open>boost::asio::write\<close>
  takes the thread out of its loop, the other connections stay as they are for good, whatever
  their servers send from then on, and servers that counted as available go on being offered.
\<close>

theorem failed_write_ends_monitoring:
  assumes "threadFunc h es p = Ret q" and "\<forall>ev \<in> set es. undisturbed ev" and "\<not> p_stopped p"
    and "i < length (p_conns q)" and "fs_event_result h (p_conns q ! i) e = Some (Ret r)"
    and "list_ex is_write (fst r)"
  shows "\<exists>q'. (\<forall>later. threadFunc h (es @ Completion i e False # later) p = Ret q') \<and> \<not> p_looping q' \<and>
    (\<forall>j. j \<noteq> i \<longrightarrow> p_conns q' ! j = p_conns q ! j) \<and>
    (\<forall>m j. j \<noteq> i \<and> j < length (p_conns q) \<longrightarrow>
       isAvailable (mon_servers (monitor_of m q') ! j) = isAvailable (mon_servers (monitor_of m q) ! j))"
proof -
  obtain q1 where q1: "io_handler h i e False q = Ret (Some SystemError, q1)"
    by (rule io_handler_broken [OF assms(4-6)])
  note keep = io_handler_Ret [OF q1]
  have "\<not> p_stopped q" using threadFunc_alone [OF assms(1-3)] assms(3) by (simp add: ran_alone_def)
  then have "io_run h (Completion i e False # later) q = Ret (Some SystemError, later, q1)" for later
    by (simp add: q1)
  from threadFunc_run(2) [OF this] have "threadFunc h (es @ Completion i e False # later) p =
      Ret (q1\<lparr>p_looping := False, p_caught := p_caught q1 @ [SystemError]\<rparr>)" for later
    by (simp add: threadFunc_append [OF assms(1-3)])
  then show ?thesis
    using keep(5,6) by (intro exI [of _ "q1\<lparr>p_looping := False, p_caught := p_caught q1 @ [SystemError]\<rparr>"])
      (simp add: monitor_of_def)
qed

theorem failed_write_ends_monitoring_witness:
  "\<exists>q'. (\<forall>later. threadFunc 1000 (Completion 0 TimedOut False # later) example_pool = Ret q') \<and> \<not> p_looping q' \<and>
     p_conns q' ! 1 = p_conns example_pool ! 1"
proof -
  have h: "threadFunc 1000 [] example_pool = Ret example_pool" "\<forall>ev \<in> set []. undisturbed ev"
    "\<not> p_stopped example_pool" "0 < length (p_conns example_pool)"
    "fs_event_result 1000 (p_conns example_pool ! 0) TimedOut =
       Some (Ret ([WriteSocket (''api status'' @ crlf @ crlf), AsyncRead], conn_fs (p_conns example_pool ! 0)))"
    "list_ex is_write (fst ([WriteSocket (''api status'' @ crlf @ crlf), AsyncRead], conn_fs (p_conns example_pool ! 0)))"
    by (simp_all add: threadFunc.simps example_pool_def example_conns_def conn_of_def timer_handler_def)
  show ?thesis using failed_write_ends_monitoring [OF h] by auto
qed

text \<open>
  The hosts calls to carriers are accepted from, after any run of the monitor's thread, failed
  writes included: every one of them is the configured address of a server or an address a server
  has reported, an online server has reported the address it calls from, and that address is
  accepted if no other server is configured with it.
\<close>

theorem accepted_hosts:
  assumes "reset ss m0 = Ret (acts, m)" and "threadFunc h es (monitor_run (pool_of m)) = Ret p"
  shows "(\<forall>host. isAppserver (monitor_of m p) host \<longrightarrow>
      host \<in> fs_strAddress ` set (mon_servers m) \<or> (\<exists>a. (a, host) \<in> set (p_reported p))) \<and>
    (\<forall>i < length (mon_servers m). let fs = mon_servers (monitor_of m p) ! i in
      (fs_strSipAddress fs \<noteq> [] \<longrightarrow> (fs_strAddress (mon_servers m ! i), fs_strSipAddress fs) \<in> set (p_reported p)) \<and>
      ((\<forall>j < length (mon_servers m). j \<noteq> i \<longrightarrow> fs_strAddress (mon_servers m ! j) \<noteq> host_of (p_conns p ! i)) \<longrightarrow>
        isAppserver (monitor_of m p) (host_of (p_conns p ! i))))"
proof -
  have known: "known_hosts (map fs_strAddress (mon_servers m)) p"
    using hosts.threadFunc_keeps [OF assms(2)] known_hosts_start [OF assms(1)] by (simp add: monitor_run_def)
  then have names: "map (\<lambda>s. fs_strAddress (conn_fs s)) (p_conns p) = map fs_strAddress (mon_servers m)"
    by (simp add: known_hosts_def)
  then have len: "length (p_conns p) = length (mon_servers m)" by (metis length_map)
  have "fs_strAddress (conn_fs (p_conns p ! i)) = fs_strAddress (mon_servers m ! i)" if "i < length (mon_servers m)" for i
    using that len names by (metis nth_map)
  then show ?thesis using known len
    by (auto simp: known_hosts_def hosts_ok_def host_of_def isAppserver_def monitor_of_def Let_def)
qed

theorem accepted_hosts_witness:
  "\<exists>acts m p. reset [''10.0.0.1:8021'', ''10.0.0.2:8021''] FsMonitor_new = Ret (acts, m) \<and>
     threadFunc 1000 [Completion 0 (Resolved None) True] (monitor_run (pool_of m)) = Ret p \<and>
     isAppserver (monitor_of m p) ''10.0.0.2'' \<and> \<not> isAppserver (monitor_of m p) ''6.6.6.6''"
proof -
  let ?fs = "\<lambda>a. snd (fs_start (FsInstance_new a 8021 False))"
  obtain acts m where m: "reset [''10.0.0.1:8021'', ''10.0.0.2:8021''] FsMonitor_new = Ret (acts, m)"
    "mon_servers m = [?fs ''10.0.0.1'', ?fs ''10.0.0.2'']"
    by (simp add: reset_def server_address_def server_port_def FsMonitor_new_def string_eval Let_def fs_start_def)
  obtain p where p: "threadFunc 1000 [Completion 0 (Resolved None) True] (monitor_run (pool_of m)) = Ret p"
    "p_conns p ! 1 = conn_of (?fs ''10.0.0.2'')" "p_reported p = []"
    by (simp add: threadFunc.simps io_handler_def monitor_run_def pool_of_def m(2) conn_of_def resolve_handler_def
      thrown_def Let_def)
  have "host_of (p_conns p ! 1) = ''10.0.0.2''"
    using p(2) by (simp add: host_of_def conn_of_def fs_start_def FsInstance_new_def)
  then have "isAppserver (monitor_of m p) ''10.0.0.2'' \<and> \<not> isAppserver (monitor_of m p) ''6.6.6.6''"
    using accepted_hosts [OF m(1) p(1)]
    by (fastforce simp: m(2) p(3) fs_start_def FsInstance_new_def Let_def less_Suc_eq)
  with m(1) p(1) show ?thesis by blast
qed

end
