(* ===== verification/Nagios.thy ===== *)
theory Nagios
  imports Controller_Calls
begin

text \<open>
  The statistics port: \<open>NagiosConnector::StatsSession\<close> (\<open>nagios-connector.cpp\<close>), which answers the
  commands of the monitoring, and \<open>check-ssp.cpp\<close>, the program that sends them. A reply is the
  text written to the connection; which of several servers with the same address is listed first
  is left to the sort.
\<close>

section \<open>Reports\<close>

text \<open>\<open>string::compare\<close> below 0: the lexicographic order of the bytes.\<close>

fun string_less :: "string \<Rightarrow> string \<Rightarrow> bool" where
  "string_less [] ys = (ys \<noteq> [])"
| "string_less (x # xs) [] = False"
| "string_less (x # xs) (y # ys) = ((of_char x :: nat) < of_char y \<or> x = y \<and> string_less xs ys)"

definition name_sorter :: "FsInstance \<Rightarrow> FsInstance \<Rightarrow> bool" where
  "name_sorter a b = string_less (fs_strAddress a) (fs_strAddress b)"

abbreviation endl :: string where
  "endl \<equiv> [CHR 0x0A]"

text \<open>The line of a server in the long report, and the loop over the servers.\<close>

definition server_line :: "FsInstance \<Rightarrow> string" where
  "server_line p =
     (if isOnline p then
        fs_strAddress p @ '',online,'' @ fs_strSipAddress p @ '':'' @ show_u32 (fs_nSipPort p) @ '','' @
        show_u32 (fs_nCurrentSessions p) @ '','' @ show_u32 (fs_nMaxSessions p) @ endl
      else fs_strAddress p @ '',offline,,,'' @ endl)"

fun report_servers :: "bool \<Rightarrow> FsInstance list \<Rightarrow> u32 \<times> u32 \<times> string \<Rightarrow> u32 \<times> u32 \<times> string" where
  "report_servers brief [] acc = acc"
| "report_servers brief (p # ps) (nActiveServers, sessions, ol) =
     report_servers brief ps
       (if isOnline p then nActiveServers + 1 else nActiveServers,
        if \<not> brief \<and> isOnline p then sessions + fs_nCurrentSessions p else sessions,
        if brief then ol else ol @ server_line p)"

definition getCountOfDialogs :: "controller \<Rightarrow> u32" where
  "getCountOfDialogs c = word_of_nat (length (c_dialogs c))"

definition processNagiosRequest :: "(FsInstance list \<Rightarrow> FsInstance list) \<Rightarrow> bool \<Rightarrow> controller \<Rightarrow> string" where
  "processNagiosRequest sorter brief c =
     (let servers = sorter (getAllServers (c_fsMonitor c));
          (nActiveServers, sessions, ol) = report_servers brief servers (0, 0, []);
          ol1 = (if brief then ol else ol @ ''total active freeswitch session count: '' @ show_u32 sessions @ endl)
      in (if m_bIsActive (c_config c) then ''System Active '' else ''System Inactive '') @
         show_u32 (getCountOfDialogs c) @ '' call legs '' @
         '' | '' @ show_u32 nActiveServers @ '' of '' @ show_nat (length servers) @ '' freeswitch servers active'' @ endl @
         (if brief then [] else ''|'' @ endl @ ol1 @ endl))"

section \<open>Commands\<close>

text \<open>
  \<open>processFsReloadxml\<close>: the servers of the sorted list are the objects of the pool, so a reload is
  asked of each in the order of the sort and noted in the pool.
\<close>

definition reload_actions :: "FsInstance list \<Rightarrow> fs_action list" where
  "reload_actions servers = concat (map (\<lambda>p. if isOnline p then fst (reloadxml p) else []) servers)"

definition processFsReloadxml ::
  "(FsInstance list \<Rightarrow> FsInstance list) \<Rightarrow> controller \<Rightarrow> string \<times> fs_action list \<times> controller" where
  "processFsReloadxml sorter c =
     (let m = c_fsMonitor c
      in (''OK'' @ endl, reload_actions (sorter (getAllServers m)),
          c\<lparr>c_fsMonitor := m\<lparr>mon_servers := map (\<lambda>p. if isOnline p then snd (reloadxml p) else p) (mon_servers m)\<rparr>\<rparr>))"

definition trunk_line :: "bool \<Rightarrow> TrunkStats \<Rightarrow> string" where
  "trunk_line brief tr =
     ts_strAddress tr @ '' ('' @ ts_strCarrier tr @ '') attempts/failures: '' @ show_u64 (ts_attempts tr) @ ''/'' @
     show_u64 (getFailureCount tr) @ endl @
     (if brief then []
      else concat (map (\<lambda>i. if getFailureCountOf i tr > 0
             then ''   '' @ show_nat i @ '': '' @ show_u64 (getFailureCountOf i tr) @ endl else []) [400..<700]))"

definition processOutboundTrunkStatsRequest :: "bool \<Rightarrow> controller \<Rightarrow> string" where
  "processOutboundTrunkStatsRequest brief c =
     (if c_mapTrunkStats c = [] then ''No outbound trunks have been utilized for calling yet'' @ endl
      else concat (map (\<lambda>(address, tr). trunk_line brief tr) (c_mapTrunkStats c)))"

definition processResetOutboundStatsRequest :: "controller \<Rightarrow> string \<times> controller" where
  "processResetOutboundStatsRequest c = (''OK'' @ endl, resetOutboundTrunkStats c)"

text \<open>\<open>read_handler\<close> of a session: the reply, if there is one, what the servers are asked, and the state.\<close>

definition stats_read_handler ::
  "(FsInstance list \<Rightarrow> FsInstance list) \<Rightarrow> string \<Rightarrow> controller \<Rightarrow> string option \<times> fs_action list \<times> controller" where
  "stats_read_handler sorter s c =
     (let command = (case tokenize [CHR 0x0A, CHR 0x0D, CHR '','', CHR '' ''] s of [] \<Rightarrow> [] | t # _ \<Rightarrow> t)
      in if command = ''nagios-short'' then (Some (processNagiosRequest sorter True c), [], c)
         else if command = ''nagios-long'' then (Some (processNagiosRequest sorter False c), [], c)
         else if command = ''outbound-stats-short'' then (Some (processOutboundTrunkStatsRequest True c), [], c)
         else if command = ''outbound-stats-long'' then (Some (processOutboundTrunkStatsRequest False c), [], c)
         else if command = ''outbound-stats-reset'' then
           (case processResetOutboundStatsRequest c of (o_str, c1) \<Rightarrow> (Some o_str, [], c1))
         else if command = ''fs-reloadxml'' then
           (case processFsReloadxml sorter c of (o_str, acts, c1) \<Rightarrow> (Some o_str, acts, c1))
         else (None, [], c))"

section \<open>The program that sends the commands\<close>

text \<open>The arguments as \<open>getopt_long\<close> delivers them, and the file-level variables they set.\<close>

datatype check_arg =
  opt_help | opt_long | opt_show_outbound_stats | opt_reset_outbound_stats | opt_fs_reloadxml
  | opt_host string | opt_port string

record check_ssp =
  printHelp :: int
  printLong :: int
  printNagios :: int
  printOutboundStats :: int
  resetOutboundStats :: int
  cs_reloadxml :: int
  cs_host :: string
  cs_port :: u32

definition check_ssp_initial :: check_ssp where
  "check_ssp_initial =
     \<lparr>printHelp = 0, printLong = 0, printNagios = 0, printOutboundStats = 0, resetOutboundStats = 0,
      cs_reloadxml = 0, cs_host = [], cs_port = 8022\<rparr>"

fun set_option :: "check_arg \<Rightarrow> check_ssp \<Rightarrow> check_ssp" where
  "set_option opt_help v = v\<lparr>printHelp := 1\<rparr>"
| "set_option opt_long v = v\<lparr>printLong := 1\<rparr>"
| "set_option opt_show_outbound_stats v = v\<lparr>printOutboundStats := 1\<rparr>"
| "set_option opt_reset_outbound_stats v = v\<lparr>resetOutboundStats := 1\<rparr>"
| "set_option opt_fs_reloadxml v = v\<lparr>cs_reloadxml := 1\<rparr>"
| "set_option (opt_host optarg) v = v\<lparr>cs_host := optarg\<rparr>"
| "set_option (opt_port optarg) v = v\<lparr>cs_port := atoi optarg\<rparr>"

definition check_parseCmdArgs :: "check_arg list \<Rightarrow> bool \<times> check_ssp" where
  "check_parseCmdArgs args =
     (let v = fold set_option args check_ssp_initial;
          commands = printOutboundStats v + resetOutboundStats v + cs_reloadxml v
      in if printHelp v \<noteq> 0 then (False, v)
         else if commands > 1 then (False, v)
         else let v1 = (if commands = 0 then v\<lparr>printNagios := 1\<rparr> else v)
           in if cs_host v1 = [] then (False, v1) else (True, v1))"

text \<open>The handlers of \<open>check-ssp\<close> and what they start; the program ends with an exit status.\<close>

datatype check_action =
  CheckConnect string "string list" | CheckSend string | CheckRead | CheckClose | CheckPrint string | CheckExit int

text \<open>The text \<open>connect_handler\<close> sends once connected.\<close>

definition check_command :: "check_ssp \<Rightarrow> string" where
  "check_command v =
     (if printNagios v \<noteq> 0 then ''nagios-'' @ (if printLong v \<noteq> 0 then ''long'' else ''short'')
      else if printOutboundStats v \<noteq> 0 then ''outbound-stats-'' @ (if printLong v \<noteq> 0 then ''long'' else ''short'')
      else if resetOutboundStats v \<noteq> 0 then ''outbound-stats-reset''
      else if cs_reloadxml v \<noteq> 0 then ''fs-reloadxml''
      else [])"

definition check_resolve_handler :: "string list option \<Rightarrow> check_action list outcome" where
  "check_resolve_handler res =
     (case res of
        None \<Rightarrow> Ret [CheckExit 3]
      | Some [] \<Rightarrow> Undefined
      | Some (e # it) \<Rightarrow> Ret [CheckConnect e it])"

definition check_connect_handler :: "check_ssp \<Rightarrow> bool \<Rightarrow> string list \<Rightarrow> check_action list" where
  "check_connect_handler v success it =
     (if success then [CheckSend (check_command v), CheckRead]
      else case it of
        e # it' \<Rightarrow> [CheckClose, CheckConnect e it']
      | [] \<Rightarrow> [CheckExit 3])"

definition check_read_handler :: "string option \<Rightarrow> check_action list" where
  "check_read_handler res =
     (case res of Some s \<Rightarrow> [CheckPrint s, CheckExit 0] | None \<Rightarrow> [CheckExit 3])"

text \<open>The endpoints of the host, tried one after the other: \<open>accepts\<close> says which of them answer.\<close>

fun check_connect :: "check_ssp \<Rightarrow> (string \<Rightarrow> bool) \<Rightarrow> string \<Rightarrow> string list \<Rightarrow> check_action list" where
  "check_connect v accepts e [] = check_connect_handler v (accepts e) []"
| "check_connect v accepts e (e' # it) =
     check_connect_handler v (accepts e) (e' # it) @ (if accepts e then [] else check_connect v accepts e' it)"

section \<open>The order of the report\<close>

lemma string_less_iff: "string_less xs ys \<longleftrightarrow> (map of_char xs, map of_char ys) \<in> lexord {(m, n :: nat). m < n}"
  by (induction xs ys rule: string_less.induct) (auto simp: inj_eq [OF inj_of_char] neq_Nil_conv)

lemma of_char_inj: "map of_char xs = (map of_char ys :: nat list) \<longleftrightarrow> xs = ys"
  using inj_map_eq_map [OF inj_of_char [where 'a = nat]] by blast

lemma string_less_total: "string_less xs ys \<or> xs = ys \<or> string_less ys xs"
proof -
  have "\<forall>a b. (a, b) \<in> {(m, n :: nat). m < n} \<or> a = b \<or> (b, a) \<in> {(m, n). m < n}" by auto
  from lexord_linear [OF this, of "map of_char xs" "map of_char ys"] show ?thesis
    by (auto simp: string_less_iff of_char_inj)
qed

lemma string_less_trans: "string_less xs ys \<Longrightarrow> string_less ys zs \<Longrightarrow> string_less xs zs"
  unfolding string_less_iff by (rule lexord_trans) (auto simp: trans_def)

lemma string_less_irrefl: "\<not> string_less xs xs"
  by (induction xs) simp_all

interpretation by_name: weak_order name_sorter
proof unfold_locales
  show "\<not> name_sorter a a" for a by (simp add: name_sorter_def string_less_irrefl)
  show "name_sorter a b \<Longrightarrow> name_sorter b c \<Longrightarrow> name_sorter a c" for a b c
    unfolding name_sorter_def by (rule string_less_trans)
  show "\<not> name_sorter a b \<Longrightarrow> \<not> name_sorter b a \<Longrightarrow> \<not> name_sorter b c \<Longrightarrow> \<not> name_sorter c b \<Longrightarrow>
      \<not> name_sorter a c \<and> \<not> name_sorter c a" for a b c
    unfolding name_sorter_def using string_less_total by metis
qed

section \<open>Properties\<close>

lemma report_servers_eq:
  "report_servers brief ps (n, s, ol) =
     (n + word_of_nat (length (filter isOnline ps)),
      s + (if brief then 0 else \<Sum>p \<leftarrow> filter isOnline ps. fs_nCurrentSessions p),
      ol @ (if brief then [] else concat (map server_line ps)))"
  by (induction ps arbitrary: n s ol) (simp_all add: algebra_simps)

lemma sort_result_filter:
  assumes "sort_result before xs ys"
  shows "length ys = length xs" "length (filter P ys) = length (filter P xs)"
    "(\<Sum>x \<leftarrow> filter P ys. f x) = (\<Sum>x \<leftarrow> filter P xs. f x :: 'b::comm_monoid_add)"
proof -
  have m: "mset ys = mset xs" using assms by (simp add: sort_result_def)
  then show "length ys = length xs" by (rule mset_eq_length)
  have f: "mset (filter P ys) = mset (filter P xs)" using m by simp
  then show "length (filter P ys) = length (filter P xs)" by (rule mset_eq_length)
  have "mset (map f (filter P ys)) = mset (map f (filter P xs))" using f by simp
  then show "(\<Sum>x \<leftarrow> filter P ys. f x) = (\<Sum>x \<leftarrow> filter P xs. f x)" by (metis sum_mset_sum_list)
qed

text \<open>
  The reports of the statistics port, for every result the sort may give: the short one shows
  whether the system is active, the number of dialogs, and how many of the servers of the pool are
  online, and does not depend on the sort; the long one adds a line for each server, ordered by
  address, and the sum of the sessions of the servers that are online.
\<close>

theorem nagios_report:
  assumes sorted: "sort_result name_sorter (mon_servers (c_fsMonitor c)) (sorter (mon_servers (c_fsMonitor c)))"
  shows "\<exists>servers. mset servers = mset (mon_servers (c_fsMonitor c)) \<and>
    sorted_wrt (\<lambda>a b. \<not> string_less (fs_strAddress b) (fs_strAddress a)) servers \<and>
    processNagiosRequest sorter True c =
      (if m_bIsActive (c_config c) then ''System Active '' else ''System Inactive '') @
      show_u32 (word_of_nat (length (c_dialogs c))) @ '' call legs  | '' @
      show_u32 (word_of_nat (length (filter isOnline (mon_servers (c_fsMonitor c))))) @ '' of '' @
      show_nat (length (mon_servers (c_fsMonitor c))) @ '' freeswitch servers active'' @ endl \<and>
    processNagiosRequest sorter False c = processNagiosRequest sorter True c @ ''|'' @ endl @
      concat (map server_line servers) @ ''total active freeswitch session count: '' @
      show_u32 (\<Sum>p \<leftarrow> filter isOnline (mon_servers (c_fsMonitor c)). fs_nCurrentSessions p) @ endl @ endl"
proof -
  let ?s = "sorter (mon_servers (c_fsMonitor c))"
  note same = sort_result_filter [OF sorted]
  have "mset ?s = mset (mon_servers (c_fsMonitor c))"
    "sorted_wrt (\<lambda>a b. \<not> string_less (fs_strAddress b) (fs_strAddress a)) ?s"
    using sorted by (simp_all add: sort_result_def name_sorter_def)
  then show ?thesis
    by (intro exI [of _ ?s]) (simp add: processNagiosRequest_def getAllServers_def getCountOfDialogs_def report_servers_eq same)
qed

theorem nagios_report_witness:
  "\<exists>c servers. mset servers = mset (mon_servers example_monitor) \<and>
    processNagiosRequest (sort_by name_sorter) True c = ''System Active 0 call legs  | 2 of 3 freeswitch servers active'' @ endl \<and>
    processNagiosRequest (sort_by name_sorter) False c = processNagiosRequest (sort_by name_sorter) True c @ ''|'' @ endl @
      concat (map server_line servers) @ ''total active freeswitch session count: 100'' @ endl @ endl"
proof -
  let ?c = "(SipLbController_new initial_config (- 1))\<lparr>c_fsMonitor := example_monitor\<rparr>"
  have "filter isOnline (mon_servers example_monitor) = [example_server ''a'' 90 100, example_server ''b'' 10 100]"
    by (simp add: example_monitor_def example_server_def FsInstance_new_def isOnline_def)
  moreover have "length (mon_servers example_monitor) = 3" by (simp add: example_monitor_def)
  moreover have "m_bIsActive (c_config ?c)" "c_dialogs ?c = []"
    by (simp_all add: SipLbController_new_def installConfig_def initial_config_def Let_def)
  moreover note nagios_report [of ?c "sort_by name_sorter", OF by_name.sort_by_result]
  ultimately show ?thesis
    by (intro exI [of _ ?c]) (fastforce simp: string_eval example_server_def FsInstance_new_def)
qed

text \<open>The variables after the arguments were read.\<close>

lemma fold_set_option:
  "printHelp (fold set_option args v) = (if opt_help \<in> set args then 1 else printHelp v)"
  "printLong (fold set_option args v) = (if opt_long \<in> set args then 1 else printLong v)"
  "printNagios (fold set_option args v) = printNagios v"
  "printOutboundStats (fold set_option args v) = (if opt_show_outbound_stats \<in> set args then 1 else printOutboundStats v)"
  "resetOutboundStats (fold set_option args v) = (if opt_reset_outbound_stats \<in> set args then 1 else resetOutboundStats v)"
  "cs_reloadxml (fold set_option args v) = (if opt_fs_reloadxml \<in> set args then 1 else cs_reloadxml v)"
proof (induction args arbitrary: v)
  case (Cons a args)
  { case 1 show ?case using Cons.IH(1) by (cases a) simp_all }
  { case 2 show ?case using Cons.IH(2) by (cases a) simp_all }
  { case 3 show ?case using Cons.IH(3) by (cases a) simp_all }
  { case 4 show ?case using Cons.IH(4) by (cases a) simp_all }
  { case 5 show ?case using Cons.IH(5) by (cases a) simp_all }
  { case 6 show ?case using Cons.IH(6) by (cases a) simp_all }
qed simp_all

text \<open>The state after a reload was asked for: every server that is online waits for its answer.\<close>

definition reloading_servers :: "controller \<Rightarrow> controller" where
  "reloading_servers c = c\<lparr>c_fsMonitor := (c_fsMonitor c)\<lparr>mon_servers :=
     map (\<lambda>p. if isOnline p then p\<lparr>fs_bReloadingXml := True\<rparr> else p) (mon_servers (c_fsMonitor c))\<rparr>\<rparr>"

lemma reload_online: "(if isOnline p then snd (reloadxml p) else p) = (if isOnline p then p\<lparr>fs_bReloadingXml := True\<rparr> else p)"
  by (simp add: reloadxml_def isOnline_def)

lemma stats_commands:
  "stats_read_handler sorter ''nagios-short'' c = (Some (processNagiosRequest sorter True c), [], c)"
  "stats_read_handler sorter ''nagios-long'' c = (Some (processNagiosRequest sorter False c), [], c)"
  "stats_read_handler sorter ''outbound-stats-short'' c = (Some (processOutboundTrunkStatsRequest True c), [], c)"
  "stats_read_handler sorter ''outbound-stats-long'' c = (Some (processOutboundTrunkStatsRequest False c), [], c)"
  "stats_read_handler sorter ''outbound-stats-reset'' c = (Some (''OK'' @ endl), [], resetOutboundTrunkStats c)"
  "stats_read_handler sorter ''fs-reloadxml'' c =
     (Some (''OK'' @ endl), reload_actions (sorter (mon_servers (c_fsMonitor c))), reloading_servers c)"
  by (simp_all add: stats_read_handler_def tokenize_def processResetOutboundStatsRequest_def processFsReloadxml_def
    getAllServers_def Let_def reloading_servers_def reload_online)

text \<open>The command that is sent for accepted arguments.\<close>

lemma check_command_eq:
  assumes "check_parseCmdArgs args = (True, v)"
  shows "check_command v =
    (let long = opt_long \<in> set args
     in if opt_show_outbound_stats \<in> set args then if long then ''outbound-stats-long'' else ''outbound-stats-short''
        else if opt_reset_outbound_stats \<in> set args then ''outbound-stats-reset''
        else if opt_fs_reloadxml \<in> set args then ''fs-reloadxml''
        else if long then ''nagios-long'' else ''nagios-short'')"
proof -
  let ?v = "fold set_option args check_ssp_initial"
  let ?commands = "printOutboundStats ?v + resetOutboundStats ?v + cs_reloadxml ?v"
  have "v = (if ?commands = 0 then ?v\<lparr>printNagios := 1\<rparr> else ?v)"
    using assms by (simp add: check_parseCmdArgs_def Let_def split: if_splits)
  then show ?thesis
    by (simp add: check_command_def Let_def fold_set_option check_ssp_initial_def)
qed



text \<open>After a reset every trunk that was used is reported with no attempts and no failures.\<close>

lemma trunks_after_reset:
  "processOutboundTrunkStatsRequest brief (resetOutboundTrunkStats c) =
     (if c_mapTrunkStats c = [] then ''No outbound trunks have been utilized for calling yet'' @ endl
      else concat (map (\<lambda>(address, tr). ts_strAddress tr @ '' ('' @ ts_strCarrier tr @ '') attempts/failures: 0/0'' @ endl)
        (c_mapTrunkStats c)))"
proof -
  have "trunk_line brief (trunk_reset tr) = ts_strAddress tr @ '' ('' @ ts_strCarrier tr @ '') attempts/failures: 0/0'' @ endl"
    for tr
    by (simp add: trunk_line_def trunk_reset_def getFailureCount_def getFailureCountOf_def show_u64_def show_nat.simps
      digit_char_def sum_list_triv)
  then show ?thesis
    by (simp add: processOutboundTrunkStatsRequest_def resetOutboundTrunkStats_def comp_def split_def)
qed

text \<open>The command is sent to the first endpoint that accepts; if none does, the program ends with status 3.\<close>

lemma check_connect_first:
  "CheckSend s \<in> set (check_connect v accepts e it) \<longleftrightarrow> s = check_command v \<and> list_ex accepts (e # it)"
  "CheckExit n \<in> set (check_connect v accepts e it) \<longleftrightarrow> n = 3 \<and> \<not> list_ex accepts (e # it)"
  by (induction it arbitrary: e) (auto simp: check_connect_handler_def)

end
