(* ===== verification/Logging.thy ===== *)
theory Logging
  imports Nagios "HOL-Library.Sublist"
begin

text \<open>
  The log: levels, the syslog sink of \<open>initializeLogging\<close>, the two reports \<open>logConfig\<close> and
  \<open>logAgentStats\<close>, and \<open>__sofiasip_logger_func\<close>, which puts the lines in which the SIP stack traces
  a message back together (\<open>ssp-controller.cpp\<close>). Formatting by \<open>vsnprintf\<close> is a parameter: the
  text a call would print.
\<close>

section \<open>Levels and the sink\<close>

fun severity_rank :: "severity_levels \<Rightarrow> nat" where
  "severity_rank log_notice = 0"
| "severity_rank log_error = 1"
| "severity_rank log_warning = 2"
| "severity_rank log_info = 3"
| "severity_rank log_debug = 4"

lemma severity_rank_inject: "severity_rank a = severity_rank b \<longleftrightarrow> a = b"
  by (cases a; cases b) simp_all

text \<open>The levels are compared as the numbers of the enumeration.\<close>

instantiation severity_levels :: linorder
begin

definition less_eq_severity_levels :: "severity_levels \<Rightarrow> severity_levels \<Rightarrow> bool" where
  "less_eq_severity_levels a b \<longleftrightarrow> severity_rank a \<le> severity_rank b"

definition less_severity_levels :: "severity_levels \<Rightarrow> severity_levels \<Rightarrow> bool" where
  "less_severity_levels a b \<longleftrightarrow> severity_rank a < severity_rank b"

instance
  by standard (auto simp: less_eq_severity_levels_def less_severity_levels_def severity_rank_inject)

end

datatype syslog_level = syslog_critical | syslog_warning | syslog_notice | syslog_info | syslog_debug

text \<open>\<open>createLogger\<close> and \<open>initializeLogging\<close>: the facility, the target and the filter of the sink.\<close>

record log_sink =
  sink_facility :: nat
  sink_target :: string
  sink_threshold :: severity_levels

fun severity_mapping :: "severity_levels \<Rightarrow> syslog_level" where
  "severity_mapping log_debug = syslog_debug"
| "severity_mapping log_notice = syslog_notice"
| "severity_mapping log_info = syslog_info"
| "severity_mapping log_warning = syslog_warning"
| "severity_mapping log_error = syslog_critical"

definition getSyslogTarget :: "ssp_config \<Rightarrow> string \<times> u32" where
  "getSyslogTarget cfg = (m_syslogAddress cfg, m_sysLogPort cfg)"

definition initializeLogging :: "controller \<Rightarrow> log_sink" where
  "initializeLogging c =
     (let facility = (case getSyslogFacility (c_config c) of None \<Rightarrow> 0 | Some f \<Rightarrow> f);
          (syslogAddress, syslogPort) = getSyslogTarget (c_config c)
      in \<lparr>sink_facility = facility, sink_target = syslogAddress, sink_threshold = c_current_severity_threshold c\<rparr>)"

text \<open>What the sink passes on of a record.\<close>

definition sink_record :: "log_sink \<Rightarrow> severity_levels \<times> string \<Rightarrow> (nat \<times> syslog_level \<times> string) option" where
  "sink_record sink r =
     (case r of (sev, msg) \<Rightarrow>
        if sev \<le> sink_threshold sink then Some (sink_facility sink, severity_mapping sev, msg) else None)"

section \<open>Reports\<close>

definition logConfig :: "controller \<Rightarrow> (severity_levels \<times> string) list" where
  "logConfig c =
     [(log_notice, ''Logging threshold:                     '' @ show_nat (severity_rank (c_current_severity_threshold c)) @ endl),
      (log_notice, ''Freeswitch health check timer (msecs): '' @ show_u64 (c_nFSTimerMsecs c) @ endl),
      (log_notice, ''Number of termination routes to try:   '' @ show_u32 (c_nTerminationRetries c) @ endl)] @
     (if m_bIsActive (c_config c) then []
      else [(log_notice, ''SSP mode is set to inactive!  Existing calls will be allowed to finish but new calls '' @
        ''(and OPTIONS requests) will receive a 503 '' @ endl)])"

text \<open>The counters \<open>nta_agent_get_stats\<close> fills in; one it does not know keeps the value -1.\<close>

datatype nta_stat =
  irq_hash | orq_hash | leg_hash | irq_used | orq_used | leg_used | recv_msg | sent_msg | recv_request
  | recv_response | bad_message | bad_request | bad_response | drop_request | drop_response | client_tr
  | server_tr | dialog_tr | acked_tr | canceled_tr | trless_request | trless_to_tr | trless_response
  | trless_200 | merged_request | sent_request | sent_response | retry_request | retry_response
  | recv_retry | tout_request | tout_response

definition agent_stat :: "(nta_stat \<Rightarrow> u64 option) \<Rightarrow> nta_stat \<Rightarrow> u64" where
  "agent_stat stats k = (case stats k of None \<Rightarrow> - 1 | Some n \<Rightarrow> n)"

definition agent_stat_lines :: "(severity_levels \<times> string \<times> nta_stat) list" where
  "agent_stat_lines =
     [(log_debug, ''size of hash table for server-side transactions                  '', irq_hash),
      (log_debug, ''size of hash table for client-side transactions                  '', orq_hash),
      (log_info, ''size of hash table for dialogs                                   '', leg_hash),
      (log_info, ''number of server-side transactions in the hash table             '', irq_used),
      (log_info, ''number of client-side transactions in the hash table             '', orq_used),
      (log_info, ''number of dialogs in the hash table                              '', leg_used),
      (log_info, ''number of sip messages received                                  '', recv_msg),
      (log_info, ''number of sip messages sent                                      '', sent_msg),
      (log_info, ''number of sip requests received                                  '', recv_request),
      (log_info, ''number of sip requests sent                                      '', sent_request),
      (log_debug, ''number of bad sip messages received                              '', bad_message),
      (log_debug, ''number of bad sip requests received                              '', bad_request),
      (log_debug, ''number of bad sip requests received                              '', drop_request),
      (log_debug, ''number of bad sip reponses dropped                               '', drop_response),
      (log_debug, ''number of client transactions created                            '', client_tr),
      (log_debug, ''number of server transactions created                            '', server_tr),
      (log_info, ''number of in-dialog server transactions created                  '', dialog_tr),
      (log_debug, ''number of server transactions that have received ack             '', acked_tr),
      (log_debug, ''number of server transactions that have received cancel          '', canceled_tr),
      (log_debug, ''number of requests that were processed stateless                 '', trless_request),
      (log_debug, ''number of requests converted to transactions by message callback '', trless_to_tr),
      (log_debug, ''number of responses without matching request                     '', trless_response),
      (log_debug, ''number of successful responses missing INVITE client transaction '', trless_200),
      (log_debug, ''number of requests merged by UAS                                 '', merged_request),
      (log_info, ''number of SIP requests sent by stack                             '', sent_request),
      (log_info, ''number of SIP responses sent by stack                            '', sent_response),
      (log_info, ''number of SIP requests retransmitted by stack                    '', retry_request),
      (log_info, ''number of SIP responses retransmitted by stack                   '', retry_response),
      (log_info, ''number of retransmitted SIP requests received by stack           '', recv_retry),
      (log_debug, ''number of SIP client transactions that has timeout               '', tout_request),
      (log_debug, ''number of SIP server transactions that has timeout               '', tout_response)]"

definition logAgentStats :: "(nta_stat \<Rightarrow> u64 option) \<Rightarrow> controller \<Rightarrow> (severity_levels \<times> string) list" where
  "logAgentStats stats c =
     map (\<lambda>(sev, label, k). (sev, label @ show_u64 (agent_stat stats k) @ endl)) agent_stat_lines @
     [(log_info, show_nat (length (c_dialogs c)) @ ''/'' @ show_nat (length (c_mapTerminationAttempts c)) @ ''/'' @
        show_nat (length (c_transactions c)) @ ''/'' @ show_nat (length (c_mapDialogInfo c)) @
        '' (dialogs/transactions/termination attempts/dialog info)'' @ endl)] @
     map (\<lambda>(address, tr). (log_info, ''Outbound trunk attempts/failures: '' @ ts_strAddress tr @ '' ('' @ ts_strCarrier tr @
        ''): '' @ show_u64 (ts_attempts tr) @ ''/'' @ show_u64 (getFailureCount tr) @ endl)) (c_mapTrunkStats c)"

section \<open>The trace of the SIP stack\<close>

text \<open>The static variables of the function, and the C library's search for a substring.\<close>

record sofia_log =
  loggingSipMsg :: bool
  sipMsg :: string

fun strstr :: "string \<Rightarrow> string \<Rightarrow> nat option" where
  "strstr [] pat = (if pat = [] then Some 0 else None)"
| "strstr (c # s) pat = (if prefix pat (c # s) then Some 0 else map_option Suc (strstr s pat))"

definition MSG_SEPARATOR :: string where
  "MSG_SEPARATOR = replicate 72 (CHR ''-'') @ endl"

definition MAXLOGLEN :: nat where
  "MAXLOGLEN = 8192"

text \<open>
  One call: \<open>fmt\<close> is its format, \<open>s\<close> the text it stands for, of which \<open>vsnprintf\<close> keeps what fits.
  The result has the record that is logged, if any.
\<close>

definition sofiasip_logger_func ::
  "severity_levels \<Rightarrow> string \<Rightarrow> string \<Rightarrow> sofia_log \<Rightarrow> (severity_levels \<times> string) option \<times> sofia_log" where
  "sofiasip_logger_func loglevel fmt s v =
     (if loglevel < log_error then (None, v)
      else if loggingSipMsg v \<and> fmt = endl then (None, v\<lparr>sipMsg := sipMsg v @ endl\<rparr>)
      else
        let out = take (MAXLOGLEN - 1) s
        in if \<not> loggingSipMsg v then
             (if strstr out ''recv '' = Some 0 \<or> strstr out ''send '' = Some 0 then
                let out1 = (case strstr out (''   '' @ MSG_SEPARATOR) of None \<Rightarrow> out | Some i \<Rightarrow> take i out)
                in (None, \<lparr>loggingSipMsg = True, sipMsg = dropWhile (\<lambda>c. c = CHR '' '') out1\<rparr>)
              else (Some (log_info, out), v))
           else if strstr fmt MSG_SEPARATOR \<noteq> None then
             (Some (log_info, sipMsg v @ '' '' @ endl), v\<lparr>loggingSipMsg := False\<rparr>)
           else (None, v\<lparr>sipMsg := sipMsg v @ dropWhile (\<lambda>c. c = CHR '' '') out\<rparr>))"

text \<open>A sequence of calls and the records they log.\<close>

fun sofia_calls ::
  "severity_levels \<Rightarrow> (string \<times> string) list \<Rightarrow> sofia_log \<Rightarrow> (severity_levels \<times> string) list \<times> sofia_log" where
  "sofia_calls loglevel [] v = ([], v)"
| "sofia_calls loglevel ((fmt, s) # calls) v =
     (case sofiasip_logger_func loglevel fmt s v of (r, v1) \<Rightarrow>
      case sofia_calls loglevel calls v1 of (rs, v2) \<Rightarrow> ((case r of None \<Rightarrow> [] | Some x \<Rightarrow> [x]) @ rs, v2))"

text \<open>
  The calls by which the transport of the stack (\<open>tport_log_msg\<close>) traces a message: the stamp and
  a separator, every line behind three blanks and followed by a line end of its own, a separator.
\<close>

definition trace_calls :: "string \<Rightarrow> string list \<Rightarrow> (string \<times> string) list" where
  "trace_calls stamp lines =
     (''%s   '' @ MSG_SEPARATOR, stamp @ ''   '' @ MSG_SEPARATOR) #
     concat (map (\<lambda>l. [(''%s%.*s'', ''   '' @ l), (endl, endl)]) lines) @
     [(''%s   '' @ MSG_SEPARATOR, ''   '' @ MSG_SEPARATOR)]"

lemma strstr_prefix: "prefix pat s \<Longrightarrow> strstr s pat = Some 0"
  by (cases s) auto

lemma strstr_short: "length s < length pat \<Longrightarrow> strstr s pat = None"
  by (induction s) (auto dest: prefix_length_le)

lemma strstr_skip:
  assumes "\<And>i. i < length xs \<Longrightarrow> \<not> prefix pat (drop i (xs @ pat @ ys))"
  shows "strstr (xs @ pat @ ys) pat = Some (length xs)"
  using assms
proof (induction xs)
  case Nil
  then show ?case by (simp add: strstr_prefix)
next
  case (Cons x xs)
  have "\<not> prefix pat (drop i (xs @ pat @ ys))" if "i < length xs" for i
    using Cons.prems [of "Suc i"] that by simp
  then show ?case using Cons.IH Cons.prems [of 0] by simp
qed

text \<open>A character of the pattern that is not in the text before it shows where the pattern begins.\<close>

lemma strstr_marked:
  assumes "k < length pat" "pat ! k = c" "\<And>j. j < k \<Longrightarrow> pat ! j \<noteq> c" "c \<notin> set xs"
  shows "strstr (xs @ pat @ ys) pat = Some (length xs)"
proof (rule strstr_skip)
  fix i
  assume i: "i < length xs"
  show "\<not> prefix pat (drop i (xs @ pat @ ys))"
  proof
    assume "prefix pat (drop i (xs @ pat @ ys))"
    then obtain zs where "drop i (xs @ pat @ ys) = pat @ zs" by (auto simp: prefix_def)
    then have "(xs @ pat @ ys) ! (i + k) = c" using nth_drop [of i "xs @ pat @ ys" k] i assms(1,2) by (simp add: nth_append)
    moreover have "xs ! (i + k) \<noteq> c" if "i + k < length xs" using that assms(4) nth_mem by blast
    moreover have "pat ! (i + k - length xs) \<noteq> c" "i + k - length xs < length pat" if "\<not> i + k < length xs"
      using assms(1,3) that i by simp_all
    ultimately show False by (auto simp: nth_append split: if_splits)
  qed
qed

lemma separator_found:
  assumes "CHR ''-'' \<notin> set xs"
  shows "strstr (xs @ (''   '' @ MSG_SEPARATOR) @ ys) (''   '' @ MSG_SEPARATOR) = Some (length xs)"
proof (rule strstr_marked [of 3, OF _ _ _ assms])
  show "(''   '' @ MSG_SEPARATOR) ! 3 = CHR ''-''" "3 < length (''   '' @ MSG_SEPARATOR)"
    by (simp_all add: MSG_SEPARATOR_def numeral_3_eq_3 nth_append)
  show "(''   '' @ MSG_SEPARATOR) ! j \<noteq> CHR ''-''" if "j < 3" for j
    using that by (auto simp: less_Suc_eq numeral_3_eq_3)
qed

lemma separator_in_format: "strstr (''%s   '' @ MSG_SEPARATOR) MSG_SEPARATOR \<noteq> None"
  by (simp add: strstr_prefix MSG_SEPARATOR_def)

text \<open>The lines of a message, one after the other.\<close>

lemma traced_lines:
  assumes "log_error \<le> loglevel" "\<forall>l \<in> set lines. length l < 8000 \<and> (l = [] \<or> hd l \<noteq> CHR '' '')" "loggingSipMsg v"
  shows "sofia_calls loglevel (concat (map (\<lambda>l. [(''%s%.*s'', ''   '' @ l), (endl, endl)]) lines) @ calls) v =
    sofia_calls loglevel calls (v\<lparr>sipMsg := sipMsg v @ concat (map (\<lambda>l. l @ endl) lines)\<rparr>)"
  using assms(2,3)
proof (induction lines arbitrary: v)
  case (Cons l lines)
  have "dropWhile (\<lambda>c. c = CHR '' '') (take (MAXLOGLEN - 1) (''   '' @ l)) = l"
    using Cons.prems(1) by (cases l) (simp_all add: MAXLOGLEN_def)
  moreover have "strstr ''%s%.*s'' MSG_SEPARATOR = None" by (rule strstr_short) (simp add: MSG_SEPARATOR_def)
  ultimately have "sofiasip_logger_func loglevel ''%s%.*s'' (''   '' @ l) v = (None, v\<lparr>sipMsg := sipMsg v @ l\<rparr>)"
    using assms(1) Cons.prems(2) by (simp add: sofiasip_logger_func_def not_less [symmetric])
  then show ?case
    using Cons.IH [of "v\<lparr>sipMsg := (sipMsg v @ l) @ endl\<rparr>"] Cons.prems assms(1)
    by (simp add: sofiasip_logger_func_def [of _ endl] not_less [symmetric])
qed simp

lemma traced_end:
  assumes "log_error \<le> loglevel" "loggingSipMsg v"
  shows "sofiasip_logger_func loglevel (''%s   '' @ MSG_SEPARATOR) s v = (Some (log_info, sipMsg v @ '' '' @ endl), v\<lparr>loggingSipMsg := False\<rparr>)"
proof -
  have "''%s   '' @ MSG_SEPARATOR \<noteq> endl" by simp
  then show ?thesis using assms separator_in_format
    unfolding sofiasip_logger_func_def by (simp only: Let_def not_less [symmetric] if_False if_True simp_thms)
qed

section \<open>A message in the log\<close>

text \<open>
  C40. The trace of a SIP message comes out of the log whole: unless only notices are logged, the
  calls in which the stack writes a message it received or sent, piece by piece between two
  separators, give exactly one record with the stamp and all lines in order, as long as no line
  starts with a blank and none is longer than the buffer, and the function is ready for the next
  message. When only notices are logged the calls leave no trace and no state.
\<close>

theorem sip_trace_logged:
  assumes "\<not> loggingSipMsg v" "prefix ''recv '' stamp \<or> prefix ''send '' stamp" "CHR ''-'' \<notin> set stamp" "length stamp < 8000"
    and "\<forall>l \<in> set lines. length l < 8000 \<and> (l = [] \<or> hd l \<noteq> CHR '' '')"
  shows "sofia_calls loglevel (trace_calls stamp lines) v =
    (if loglevel = log_notice then ([], v)
     else let msg = stamp @ concat (map (\<lambda>l. l @ endl) lines)
       in ([(log_info, msg @ '' '' @ endl)], \<lparr>loggingSipMsg = False, sipMsg = msg\<rparr>))"
proof (cases "loglevel = log_notice")
  case True
  then have "sofiasip_logger_func loglevel fmt s w = (None, w)" for fmt s w
    by (simp add: sofiasip_logger_func_def less_severity_levels_def)
  then have "sofia_calls loglevel calls w = ([], w)" for calls w by (induction calls) auto
  with True show ?thesis by simp
next
  case False
  then have level: "log_error \<le> loglevel" by (cases loglevel) (simp_all add: less_eq_severity_levels_def)
  define sep where "sep = ''   '' @ MSG_SEPARATOR"
  have fits: "take (MAXLOGLEN - 1) (stamp @ sep) = stamp @ sep"
    using assms(4) by (simp add: MAXLOGLEN_def MSG_SEPARATOR_def sep_def)
  have found: "strstr (stamp @ sep) sep = Some (length stamp)"
    using separator_found [OF assms(3), of "[]"] unfolding sep_def [symmetric] by simp
  have "strstr (stamp @ sep) ''recv '' = Some 0 \<or> strstr (stamp @ sep) ''send '' = Some 0"
    using assms(2) strstr_prefix [OF prefix_prefix] by blast
  moreover have "dropWhile (\<lambda>c. c = CHR '' '') stamp = stamp" using assms(2) by (auto simp: prefix_def)
  ultimately have start: "sofiasip_logger_func loglevel (''%s   '' @ MSG_SEPARATOR) (stamp @ sep) v =
      (None, \<lparr>loggingSipMsg = True, sipMsg = stamp\<rparr>)"
    unfolding sofiasip_logger_func_def fits sep_def [symmetric]
    using assms(1) level found by (simp add: Let_def not_less [symmetric])
  let ?msg = "stamp @ concat (map (\<lambda>l. l @ endl) lines)"
  have "sofia_calls loglevel (trace_calls stamp lines) v = sofia_calls loglevel
      [(''%s   '' @ MSG_SEPARATOR, sep)] \<lparr>loggingSipMsg = True, sipMsg = ?msg\<rparr>"
    using traced_lines [OF level assms(5), of "\<lparr>loggingSipMsg = True, sipMsg = stamp\<rparr>"] start
    unfolding trace_calls_def sep_def [symmetric] by (simp only: sofia_calls.simps) simp
  also have "\<dots> = ([(log_info, ?msg @ '' '' @ endl)], \<lparr>loggingSipMsg = False, sipMsg = ?msg\<rparr>)"
    using traced_end [OF level, of "\<lparr>loggingSipMsg = True, sipMsg = ?msg\<rparr>" sep]
    by (simp only: sofia_calls.simps) simp
  finally show ?thesis using False by (simp add: Let_def)
qed

theorem sip_trace_logged_witness:
  "sofia_calls log_info (trace_calls (''recv 30 bytes'' @ endl) [''BYE sip:a SIP/2.0'', ''Max-Forwards: 70'', []]) \<lparr>loggingSipMsg = False, sipMsg = []\<rparr> =
    ([(log_info, ''recv 30 bytes'' @ endl @ ''BYE sip:a SIP/2.0'' @ endl @ ''Max-Forwards: 70'' @ endl @ endl @ '' '' @ endl)],
     \<lparr>loggingSipMsg = False, sipMsg = ''recv 30 bytes'' @ endl @ ''BYE sip:a SIP/2.0'' @ endl @ ''Max-Forwards: 70'' @ endl @ endl\<rparr>)"
  using sip_trace_logged [of "\<lparr>loggingSipMsg = False, sipMsg = []\<rparr>" "''recv 30 bytes'' @ endl"
    "[''BYE sip:a SIP/2.0'', ''Max-Forwards: 70'', []]" log_info]
  by (simp add: Let_def)

end
