(* ===== verification/Stats_Port.thy ===== *)
theory Stats_Port
  imports Nagios
begin

text \<open>
  The life of the statistics port, \<open>NagiosConnector\<close> of \<open>nagios-connector.cpp\<close>: its thread, the
  outstanding accept, and the sessions of its clients. A session lives as long as an operation of
  it is outstanding. What a command does is in theory \<open>Nagios\<close>; here a write to a server that fails
  while its reload is asked for throws, as \<open>boost::asio::write\<close> does.
\<close>

section \<open>The port\<close>

text \<open>The sessions with their outstanding operation, and the replies written so far.\<close>

datatype session_op = SessionReading | SessionWriting

record stats_port =
  np_accepting :: bool
  np_sessions :: "(nat \<times> session_op) list"
  np_next :: nat
  np_looping :: bool
  np_replies :: "(nat \<times> string) list"
  np_asked :: "fs_action list"
  np_controller :: controller

definition start_accept :: "stats_port \<Rightarrow> stats_port" where
  "start_accept s = s\<lparr>np_accepting := True\<rparr>"

text \<open>The constructor starts the thread and the first accept.\<close>

definition NagiosConnector_new :: "controller \<Rightarrow> stats_port" where
  "NagiosConnector_new c = start_accept
     \<lparr>np_accepting = False, np_sessions = [], np_next = 0, np_looping = True, np_replies = [], np_asked = [],
      np_controller = c\<rparr>"

definition session_start :: "nat \<Rightarrow> stats_port \<Rightarrow> stats_port" where
  "session_start i s = s\<lparr>np_sessions := (i, SessionReading) # np_sessions s\<rparr>"

definition stats_accept_handler :: "bool \<Rightarrow> stats_port \<Rightarrow> stats_port" where
  "stats_accept_handler success s =
     start_accept (if success then (session_start (np_next s) s)\<lparr>np_next := Suc (np_next s)\<rparr> else s)"

text \<open>
  The reload of the servers up to the first one whose socket fails, if there is one. \<open>fails\<close> says
  which sockets do.
\<close>

definition reload_throws :: "(FsInstance \<Rightarrow> bool) \<Rightarrow> controller \<Rightarrow> bool" where
  "reload_throws fails c \<longleftrightarrow> list_ex (\<lambda>p. isOnline p \<and> fails p) (getAllServers (c_fsMonitor c))"

definition reload_before_throw ::
  "(FsInstance list \<Rightarrow> FsInstance list) \<Rightarrow> (FsInstance \<Rightarrow> bool) \<Rightarrow> controller \<Rightarrow> fs_action list \<times> controller" where
  "reload_before_throw sorter fails c =
     (let m = c_fsMonitor c;
          asked = takeWhile (\<lambda>p. \<not> fails p) (filter isOnline (sorter (getAllServers m)))
      in (concat (map (\<lambda>p. fst (reloadxml p)) asked),
          c\<lparr>c_fsMonitor := m\<lparr>mon_servers := map (\<lambda>p. if p \<in> set asked then snd (reloadxml p) else p) (mon_servers m)\<rparr>\<rparr>))"

definition is_reload_command :: "string \<Rightarrow> bool" where
  "is_reload_command s \<longleftrightarrow>
     (case tokenize [CHR 0x0A, CHR 0x0D, CHR '','', CHR '' ''] s of [] \<Rightarrow> False | t # _ \<Rightarrow> t = ''fs-reloadxml'')"

text \<open>
  The read handler of a session with the thread around it: a reply is written, a command without
  one ends the session, and an exception ends the thread.
\<close>

definition stats_session_read ::
  "(FsInstance list \<Rightarrow> FsInstance list) \<Rightarrow> (FsInstance \<Rightarrow> bool) \<Rightarrow> nat \<Rightarrow> string \<Rightarrow> stats_port \<Rightarrow> stats_port" where
  "stats_session_read sorter fails i data s =
     (let s1 = s\<lparr>np_sessions := AList.delete i (np_sessions s)\<rparr>
      in if is_reload_command data \<and> reload_throws fails (np_controller s) then
           (case reload_before_throw sorter fails (np_controller s) of (acts, c) \<Rightarrow>
              s1\<lparr>np_asked := np_asked s @ acts, np_controller := c, np_looping := False\<rparr>)
         else
           (case stats_read_handler sorter data (np_controller s) of (res, acts, c) \<Rightarrow>
              let s2 = s1\<lparr>np_asked := np_asked s @ acts, np_controller := c\<rparr>
              in case res of
                   None \<Rightarrow> s2
                 | Some r \<Rightarrow> s2\<lparr>np_sessions := (i, SessionWriting) # np_sessions s2, np_replies := np_replies s @ [(i, r)]\<rparr>))"

text \<open>
  What \<open>io_service::run\<close> delivers. An error of a read is not looked at: the text is then what was
  read. \<open>stop\<close> is called by the destructor.
\<close>

datatype stats_event =
  StatsAccepted bool
  | StatsRead nat string "FsInstance \<Rightarrow> bool"
  | StatsWritten nat
  | StatsStop

definition stats_stop :: "stats_port \<Rightarrow> stats_port" where
  "stats_stop s = s\<lparr>np_accepting := False, np_looping := False\<rparr>"

definition stats_event_handler :: "(FsInstance list \<Rightarrow> FsInstance list) \<Rightarrow> stats_event \<Rightarrow> stats_port \<Rightarrow> stats_port" where
  "stats_event_handler sorter e s =
     (if \<not> np_looping s then s
      else case e of
        StatsAccepted success \<Rightarrow>
          if np_accepting s then stats_accept_handler success (s\<lparr>np_accepting := False\<rparr>) else s
      | StatsRead i data fails \<Rightarrow>
          if map_of (np_sessions s) i = Some SessionReading then stats_session_read sorter fails i data s else s
      | StatsWritten i \<Rightarrow>
          if map_of (np_sessions s) i = Some SessionWriting then s\<lparr>np_sessions := AList.delete i (np_sessions s)\<rparr> else s
      | StatsStop \<Rightarrow> stats_stop s)"

definition stats_threadFunc :: "(FsInstance list \<Rightarrow> FsInstance list) \<Rightarrow> stats_event list \<Rightarrow> stats_port \<Rightarrow> stats_port" where
  "stats_threadFunc sorter es s = fold (stats_event_handler sorter) es s"

section \<open>Sessions\<close>

text \<open>
  The invariant: an accept is outstanding as long as the thread loops, every session has one
  operation outstanding, and a client has had at most one reply, none while it is still read from.
\<close>

definition stats_inv :: "stats_port \<Rightarrow> bool" where
  "stats_inv s \<longleftrightarrow> (np_looping s \<longrightarrow> np_accepting s) \<and> assoc_wf (np_sessions s) \<and> assoc_wf (np_replies s) \<and>
     (\<forall>i. map_of (np_sessions s) i \<noteq> None \<or> map_of (np_replies s) i \<noteq> None \<longrightarrow> i < np_next s) \<and>
     (\<forall>i. map_of (np_sessions s) i = Some SessionReading \<longrightarrow> map_of (np_replies s) i = None)"

lemma stats_inv_new: "stats_inv (NagiosConnector_new c)"
  by (simp add: stats_inv_def NagiosConnector_new_def start_accept_def)

lemma assoc_wf_Cons: "assoc_wf ((k, v) # m) \<longleftrightarrow> map_of m k = None \<and> assoc_wf m"
  by (auto simp: assoc_wf_def map_of_eq_None_iff)

lemma assoc_wf_snoc: "assoc_wf (m @ [(k, v)]) \<longleftrightarrow> map_of m k = None \<and> assoc_wf m"
  by (auto simp: assoc_wf_def map_of_eq_None_iff)

lemma stats_session_read_inv:
  assumes inv: "stats_inv s" and i: "map_of (np_sessions s) i = Some SessionReading"
  shows "stats_inv (stats_session_read sorter fails i data s)"
proof -
  have new: "map_of (np_replies s) i = None" "i < np_next s" using inv i by (auto simp: stats_inv_def)
  show ?thesis using inv new
    by (auto simp: stats_session_read_def stats_inv_def assoc_wf_Cons assoc_wf_snoc map_add_def Let_def
      split: prod.splits option.splits if_splits)
qed

lemma stats_event_inv: "stats_inv s \<Longrightarrow> stats_inv (stats_event_handler sorter e s)"
proof (cases "np_looping s")
  case True
  assume inv: "stats_inv s"
  have fresh: "map_of (np_sessions s) (np_next s) = None" "map_of (np_replies s) (np_next s) = None"
    using inv by (auto simp: stats_inv_def)
  show ?thesis
  proof (cases e)
    case (StatsAccepted success)
    then show ?thesis using inv fresh True
      by (auto simp: stats_event_handler_def stats_accept_handler_def session_start_def start_accept_def stats_inv_def
        assoc_wf_Cons less_Suc_eq)
  next
    case StatsRead
    then show ?thesis using inv True stats_session_read_inv [OF inv] by (simp add: stats_event_handler_def)
  next
    case StatsWritten
    then show ?thesis using inv True by (auto simp: stats_event_handler_def stats_inv_def)
  next
    case StatsStop
    then show ?thesis using inv True by (simp add: stats_event_handler_def stats_stop_def stats_inv_def)
  qed
qed (simp add: stats_event_handler_def)

lemma stats_thread_inv: "stats_inv s \<Longrightarrow> stats_inv (stats_threadFunc sorter es s)"
  unfolding stats_threadFunc_def by (induction es arbitrary: s) (simp_all add: stats_event_inv)

text \<open>Events that let the thread go on: no stop, and no reload that meets a broken socket.\<close>

fun calm :: "stats_event \<Rightarrow> bool" where
  "calm StatsStop = False"
| "calm (StatsRead i data fails) = (is_reload_command data \<longrightarrow> (\<forall>p. \<not> fails p))"
| "calm _ = True"

fun session_event :: "nat \<Rightarrow> stats_event \<Rightarrow> bool" where
  "session_event i (StatsRead j data fails) = (i = j)"
| "session_event i (StatsWritten j) = (i = j)"
| "session_event i _ = False"

lemma calm_no_throw: "is_reload_command data \<longrightarrow> (\<forall>p. \<not> fails p) \<Longrightarrow> \<not> (is_reload_command data \<and> reload_throws fails c)"
  by (auto simp: reload_throws_def list_ex_iff)

lemma calm_looping: "calm e \<Longrightarrow> np_looping s \<Longrightarrow> np_looping (stats_event_handler sorter e s)"
  using calm_no_throw
  by (cases e) (auto simp: stats_event_handler_def stats_accept_handler_def session_start_def start_accept_def
    stats_session_read_def Let_def split: prod.splits option.splits)

lemma session_untouched:
  assumes "\<not> session_event i e" "i < np_next s"
  shows "map_of (np_sessions (stats_event_handler sorter e s)) i = map_of (np_sessions s) i \<and>
    np_next s \<le> np_next (stats_event_handler sorter e s)"
  using assms
  by (cases e) (auto simp: stats_event_handler_def stats_accept_handler_def session_start_def start_accept_def stats_stop_def
    stats_session_read_def Let_def split: prod.splits option.splits)

lemma calm_events:
  assumes "\<forall>e \<in> set es. calm e \<and> \<not> session_event i e" "np_looping s" "i < np_next s"
  shows "np_looping (stats_threadFunc sorter es s) \<and>
    map_of (np_sessions (stats_threadFunc sorter es s)) i = map_of (np_sessions s) i"
  using assms
proof (induction es arbitrary: s)
  case (Cons e es)
  then show ?case
    using Cons.IH [of "stats_event_handler sorter e s"] calm_looping [of e s sorter] session_untouched [of i e s sorter]
    by (simp add: stats_threadFunc_def)
qed (simp add: stats_threadFunc_def)

section \<open>Clients of the port\<close>



text \<open>
  C38. A reload that meets a broken socket ends the statistics port: when a client asks for the
  reload while the socket of a server that is online fails, the exception of the write leaves the
  read handler and the thread, the client gets no reply, the servers after the broken one are not
  asked, and from then on no client is accepted or answered until the configuration is read again.
\<close>

theorem failed_reload_ends_statistics:
  assumes "np_looping s" "map_of (np_sessions s) i = Some SessionReading" "is_reload_command data"
    "reload_throws fails (np_controller s)"
  shows "let s' = stats_threadFunc sorter (StatsRead i data fails # es) s
    in \<not> np_looping s' \<and> np_replies s' = np_replies s \<and> np_next s' = np_next s \<and> map_of (np_sessions s') i = None \<and>
      np_asked s' = np_asked s @ concat (map (\<lambda>p. fst (reloadxml p))
        (takeWhile (\<lambda>p. \<not> fails p) (filter isOnline (sorter (getAllServers (c_fsMonitor (np_controller s)))))))"
proof -
  let ?s = "stats_session_read sorter fails i data s"
  have "\<not> np_looping t \<Longrightarrow> stats_threadFunc sorter es t = t" for t
    unfolding stats_threadFunc_def by (induction es) (simp_all add: stats_event_handler_def)
  moreover have "\<not> np_looping ?s" using assms(3,4) by (simp add: stats_session_read_def split: prod.splits)
  ultimately have "stats_threadFunc sorter (StatsRead i data fails # es) s = ?s"
    using assms(1,2) by (simp add: stats_threadFunc_def stats_event_handler_def)
  then show ?thesis using assms(3,4)
    by (simp add: stats_session_read_def reload_before_throw_def Let_def)
qed

theorem failed_reload_ends_statistics_witness:
  "\<exists>p s s'. isOnline p \<and> getAllServers (c_fsMonitor (np_controller s)) = [p] \<and>
     s' = stats_threadFunc (sort_by name_sorter) [StatsRead 0 ''fs-reloadxml'' (\<lambda>p. True), StatsAccepted True] s \<and>
     np_looping s \<and> \<not> np_looping s' \<and> np_replies s' = []"
proof -
  define p where "p = (FsInstance_new ''10.0.1.1'' 8021 False)\<lparr>fs_state := querying_status\<rparr>"
  define c where "c = (SipLbController_new initial_config (- 1))\<lparr>c_fsMonitor := FsMonitor_new\<lparr>mon_servers := [p]\<rparr>\<rparr>"
  define s where "s = (NagiosConnector_new c)\<lparr>np_sessions := [(0, SessionReading)], np_next := 1\<rparr>"
  have p: "isOnline p" by (simp add: p_def isOnline_def)
  have s: "np_looping s" "map_of (np_sessions s) 0 = Some SessionReading" "getAllServers (c_fsMonitor (np_controller s)) = [p]"
    "np_replies s = []"
    by (simp_all add: s_def c_def NagiosConnector_new_def start_accept_def getAllServers_def)
  have "is_reload_command ''fs-reloadxml''" "reload_throws (\<lambda>p. True) (np_controller s)"
    using s(3) p by (simp_all add: is_reload_command_def tokenize_def reload_throws_def)
  note ends = failed_reload_ends_statistics [OF s(1,2) this, of "sort_by name_sorter" "[StatsAccepted True]"]
  have "isOnline p \<and> getAllServers (c_fsMonitor (np_controller s)) = [p] \<and>
      np_looping s \<and> \<not> np_looping (stats_threadFunc (sort_by name_sorter) [StatsRead 0 ''fs-reloadxml'' (\<lambda>p. True), StatsAccepted True] s) \<and>
      np_replies (stats_threadFunc (sort_by name_sorter) [StatsRead 0 ''fs-reloadxml'' (\<lambda>p. True), StatsAccepted True] s) = []"
    using ends s p by (simp add: Let_def)
  then show ?thesis by blast
qed

end
