(* ===== verification/Call_Records.thy ===== *)
theory Call_Records
  imports Cdr_Database Call_Theorems
begin

text \<open>
  Calls from their first INVITE to their end, and what the writer makes of their records: the
  controller and the writer share the records, so it matters when the writer gets to them. And the
  end of the retries of a call that no carrier takes.
\<close>

section \<open>The writer and the controller\<close>

text \<open>
  The tables after the writer worked off the records that were posted between two states, each as
  it is in the second one.
\<close>

definition records_written :: "controller \<Rightarrow> controller \<Rightarrow> cdr_tables \<Rightarrow> cdr_tables" where
  "records_written c c' t = fold (\<lambda>p. record_event (c_cdrs c' p)) (drop (length (c_posted c)) (c_posted c')) t"

text \<open>That this is what the writer does, with a driver that keeps its connections.\<close>

lemma writer_writes_posted:
  assumes "writer_ok my_live w" "w_queue w = drop (length (c_posted c)) (c_posted c')"
  shows "my_tables (w_db ((writer_step mysql_driver (c_cdrs c') ^^ length (w_queue w)) w)) =
    records_written c c' (my_tables (w_db w))"
  using my.drain_refines [OF assms(1) refl, of "c_cdrs c'"] assms(2) by (simp add: records_written_def)

lemma records_written_one: "c_posted c' = c_posted c @ ps \<Longrightarrow>
    records_written c c' t = fold (\<lambda>p. record_event (c_cdrs c' p)) ps t"
  by (simp add: records_written_def)

text \<open>A record other than the first one of a call never adds the row of a session.\<close>

lemma record_event_absent:
  assumes "cdr_cdrType c \<noteq> origination_request" "session_of u t = None"
  shows "session_of u (record_event c t) = None"
  using assms
  by (cases "cdr_cdrType c")
    (auto simp: record_event_def apply_two_def session_of_update insert_attempt_def final_params_def cancel_params_def
      term1_params_def term2_params_def bye1_params_def bye2_params_def split: if_splits)

section \<open>A call that is answered and cleared\<close>

text \<open>The two events after the INVITE, and the records they leave.\<close>

lemma answered_and_cleared:
  assumes inv: "ctl_inv R c1" and up: "origination_up c1 irq orq a b p" and writer: "c_cdrWriter c1"
    and ans: "response_env env2 irq a b" "fresh_retry env2 c1" "sip_status sip2 = Some (200, phrase)"
      "sip_to sip2 \<noteq> None" "sip_contact sip2 \<noteq> None" "sip_payload sip2 \<noteq> None"
    and bye: "(leg, other) = (a, b) \<or> (leg, other) = (b, a)" "sip_request sip3 = Some sip_method_bye"
  obtains c2 c3 where "processInviteResponseInsideDialog env2 orq sip2 c1 = Ret (0, c2)"
    "processRequestInsideDialog env3 leg irq3 sip3 c2 = Ret (200, c3)" "call_removed c1 irq orq a b c3"
    "c_posted c2 = c_posted c1 @ [c_next_cdr c1]" "c_posted c3 = c_posted c2 @ [p]"
    "c_cdrs c2 (c_next_cdr c1) = response_record None (env_now env2) 200 (c_cdrs c1 p)"
    "c_cdrs c3 = (c_cdrs c2)(p := populateByeCdr (env_now env3) (leg = a) (c_cdrs c1 p))" "p \<noteq> c_next_cdr c1"
proof -
  obtain d where d: "map_of (c_mapDialogInfo c1) a = Some d" "di_pCdr d = Some p" "di_bOrigination d"
    and start: "response_start env2 orq c1 = Ret \<lparr>x_orq = orq, x_irq = irq, x_outgoing_leg = b, x_a_leg = a,
       x_attempt = None, x_pDialog = Some d, x_pCdr = p\<rparr>" (is "_ = Ret ?x")
    by (rule response_start_origination [OF inv up ans(1)])
  have cu: "call_up c1 irq orq a b" using up by (simp add: origination_up_def)
  have p: "p \<noteq> c_next_cdr c1"
    using inv d by (auto simp: ctl_inv_def tables_ok_def assoc_lookup info_ok_def)
  have x: "x_irq ?x = irq" "x_outgoing_leg ?x = b" "x_a_leg ?x = a" "x_pCdr ?x = p" "x_attempt ?x = None \<longrightarrow> sip_payload sip2 \<noteq> None"
    using ans(6) by simp_all
  obtain c2 where c2: "processInviteResponseInsideDialog env2 orq sip2 c1 = Ret (0, c2)" "call_answered c1 irq orq a c2"
    "c_posted c2 = (if c_cdrWriter c1 then c_posted c1 @ [c_next_cdr c1] else c_posted c1)"
    "c_cdrs c2 (c_next_cdr c1) = setCdrType (if x_attempt ?x = None then origination_final_response else termination_attempt)
      (populateFinalResponseCdr (env_now env2) 200 (c_cdrs c1 p))"
    "c_cdrs c2 p = (if p = c_next_cdr c1 then c_cdrs c2 p else c_cdrs c1 p)" "c_cdrWriter c2 = c_cdrWriter c1"
    by (rule answered_call [OF inv cu start x(1-4) ans(3-5) x(5)])
  have inv2: "ctl_inv R c2" using processInviteResponseInsideDialog_inv [OF inv ans(2) c2(1)] .
  obtain e where e: "map_of (c_mapDialogInfo c2) a = Some e" "di_bOrigination e" "di_pCdr e = Some p"
    using c2(2) d by (auto simp: call_answered_def)
  have "bm_left (c_dialogs c2) a = Some b" using c2(2) cu by (simp add: call_answered_def call_up_def)
  then obtain c3 where c3: "processRequestInsideDialog env3 leg irq3 sip3 c2 = Ret (200, c3)" "dialog_gone c2 a b c3"
    "c_posted c3 = (if c_cdrWriter c2 then c_posted c2 @ [p] else c_posted c2)"
    "c_cdrs c3 = (c_cdrs c2)(p := populateByeCdr (env_now env3) (leg = a) (c_cdrs c2 p))"
    by (rule bye_call [OF inv2 _ e bye])
  have "call_removed c1 irq orq a b c3"
    using c2(2) c3(2) by (auto simp: call_removed_def call_answered_def dialog_gone_def fun_eq_iff)
  with c2 c3 p writer show ?thesis by (intro that [OF c2(1) c3(1)]) (simp_all add: response_record_def)
qed

definition time_value :: "time_t \<Rightarrow> sqlval" where
  "time_value now = VDateTime (if now = 0 then [] else strftime now)"

lemmas time_values = time_value_def getTimeStartFormatted_def getTimeConnectFormatted_def getTimeEndFormatted_def

lemma bye_record [simp]:
  "cdr_cdrType (populateByeCdr now byCaller cdr) = call_cleared" "cdr_uuid (populateByeCdr now byCaller cdr) = cdr_uuid cdr"
  "cdr_tmEnd (populateByeCdr now byCaller cdr) = now"
  "cdr_releaseCause (populateByeCdr now byCaller cdr) = (if byCaller then calling_party_release else called_party_release)"
  by (simp_all add: populateByeCdr_def cdr_set)

lemma answer_record [simp]:
  "cdr_cdrType (response_record None now 200 cdr) = origination_final_response"
  "cdr_uuid (response_record None now 200 cdr) = cdr_uuid cdr" "cdr_tmConnect (response_record None now 200 cdr) = now"
  "cdr_sipStatus (response_record None now 200 cdr) = 200"
  by (simp_all add: response_record_def populateFinalResponseCdr_def cdr_set)

text \<open>The INVITE of a carrier that is accepted, as the start of a call.\<close>

definition accepted_call :: "nta_env \<Rightarrow> nat \<Rightarrow> sip_t \<Rightarrow> string \<Rightarrow> controller \<Rightarrow> nat \<Rightarrow> nat \<Rightarrow> nat \<Rightarrow> bool" where
  "accepted_call env irq sip carrier c orq a b \<longleftrightarrow> invite_ok sip \<and>
     (\<exists>host. contact_host sip = Ret host \<and> getCarrier (c_config c) host = Some carrier \<and> rejection c host = None) \<and>
     length (mon_servers (c_fsMonitor c)) < 2 ^ 32 \<and> (\<exists>callId. call_env env irq c orq a b callId)"

lemma accepted_call_Ret:
  assumes inv: "ctl_inv R c" and call: "accepted_call env irq sip carrier c orq a b"
    and run: "processRequestOutsideDialog env irq sip c = Ret (rc, c1)"
  shows "origination_up c1 irq orq a b (c_next_cdr c)" "ctl_inv R c1" "rc = 0"
    "c_posted c1 = (if c_cdrWriter c then c_posted c @ [c_next_cdr c] else c_posted c)" "c_cdrWriter c1 = c_cdrWriter c"
    "cdr_cdrType (c_cdrs c1 (c_next_cdr c)) = origination_request" "cdr_uuid (c_cdrs c1 (c_next_cdr c)) = env_uuid env"
    "cdr_originatingCarrier (c_cdrs c1 (c_next_cdr c)) = carrier" "cdr_tmStart (c_cdrs c1 (c_next_cdr c)) = env_now env"
proof -
  obtain host callId where h: "invite_ok sip" "contact_host sip = Ret host" "getCarrier (c_config c) host = Some carrier"
    "rejection c host = None" "length (mon_servers (c_fsMonitor c)) < 2 ^ 32" "call_env env irq c orq a b callId"
    using call by (auto simp: accepted_call_def)
  obtain user where user: "to_user sip = Ret user" using invite_ok_parts [OF h(1)] by metis
  have fit: "length (server_url user (hd (chosen (env_sorter env) (c_fsMonitor c)))) < URL_MAXLEN"
    by (rule ccontr) (use overlong_origination [OF h(1,2) user h(3-5), of env irq] run in simp)
  obtain c' where c': "processRequestOutsideDialog env irq sip c = Ret (0, c')" "origination_up c' irq orq a b (c_next_cdr c)"
    "c_posted c' = (if c_cdrWriter c then c_posted c @ [c_next_cdr c] else c_posted c)" "c_cdrWriter c' = c_cdrWriter c"
    "cdr_cdrType (c_cdrs c' (c_next_cdr c)) = origination_request" "cdr_uuid (c_cdrs c' (c_next_cdr c)) = env_uuid env"
    "cdr_originatingCarrier (c_cdrs c' (c_next_cdr c)) = carrier" "cdr_tmStart (c_cdrs c' (c_next_cdr c)) = env_now env"
    by (rule accepted_origination [OF h(1,2) user h(3-5) inv h(6) fit])
  have "fresh_call env irq c" using h(6) by (auto simp: fresh_call_def call_env_def)
  then have "ctl_inv R c'" using processRequestOutsideDialog_inv [OF inv _ c'(1)] by blast
  with c' run show "origination_up c1 irq orq a b (c_next_cdr c)" "ctl_inv R c1" "rc = 0"
    "c_posted c1 = (if c_cdrWriter c then c_posted c @ [c_next_cdr c] else c_posted c)" "c_cdrWriter c1 = c_cdrWriter c"
    "cdr_cdrType (c_cdrs c1 (c_next_cdr c)) = origination_request" "cdr_uuid (c_cdrs c1 (c_next_cdr c)) = env_uuid env"
    "cdr_originatingCarrier (c_cdrs c1 (c_next_cdr c)) = carrier" "cdr_tmStart (c_cdrs c1 (c_next_cdr c)) = env_now env"
    by simp_all
qed

section \<open>Properties\<close>

text \<open>
  C11. A call from a carrier that is accepted, answered with 200 and cleared by either side leaves
  no entry in the tables of the controller, and exactly the right row in the database if the writer
  keeps up, that is if it writes what each of the three events posted before the next one happens:
  the carrier, the times of the three events, status 200 and the side that released the call.
\<close>

theorem call_leaves_its_row:
  assumes inv: "ctl_inv R c" and call: "accepted_call env irq sip carrier c orq a b" and writer: "c_cdrWriter c"
    and run: "processRequestOutsideDialog env irq sip c = Ret (rc, c1)"
    and ans: "response_env env2 irq a b" "fresh_retry env2 c1" "sip_status sip2 = Some (200, phrase)"
      "sip_to sip2 \<noteq> None" "sip_contact sip2 \<noteq> None" "sip_payload sip2 \<noteq> None"
    and bye: "(leg, other) = (a, b) \<or> (leg, other) = (b, a)" "sip_request sip3 = Some sip_method_bye"
    and new: "session_of (env_uuid env) t = None"
  shows "\<exists>c2 c3 r. processInviteResponseInsideDialog env2 orq sip2 c1 = Ret (0, c2) \<and>
    processRequestInsideDialog env3 leg irq3 sip3 c2 = Ret (200, c3) \<and> call_removed c1 irq orq a b c3 \<and>
    session_of (env_uuid env) (records_written c2 c3 (records_written c1 c2 (records_written c c1 t))) = Some r \<and>
    s_originating_carrier r = VString carrier \<and> s_start_time r = time_value (env_now env) \<and>
    s_connect_time r = time_value (env_now env2) \<and> s_end_time r = time_value (env_now env3) \<and>
    s_final_sip_status r = VInt 200 \<and>
    s_release_cause r = VInt (release_code (if leg = a then calling_party_release else called_party_release))"
proof -
  let ?p = "c_next_cdr c" and ?u = "env_uuid env"
  note c1 = accepted_call_Ret [OF inv call run]
  obtain c2 c3 where r: "processInviteResponseInsideDialog env2 orq sip2 c1 = Ret (0, c2)"
    "processRequestInsideDialog env3 leg irq3 sip3 c2 = Ret (200, c3)" "call_removed c1 irq orq a b c3"
    "c_posted c2 = c_posted c1 @ [c_next_cdr c1]" "c_posted c3 = c_posted c2 @ [?p]"
    "c_cdrs c2 (c_next_cdr c1) = response_record None (env_now env2) 200 (c_cdrs c1 ?p)"
    "c_cdrs c3 = (c_cdrs c2)(?p := populateByeCdr (env_now env3) (leg = a) (c_cdrs c1 ?p))"
    by (rule answered_and_cleared [OF c1(2,1) _ ans bye, of env3 irq3]) (use c1(5) writer in simp_all)
  let ?t1 = "record_event (c_cdrs c1 ?p) t" and ?q = "c_cdrs c2 (c_next_cdr c1)"
  have w: "records_written c2 c3 (records_written c1 c2 (records_written c c1 t)) =
      record_event (c_cdrs c3 ?p) (record_event ?q ?t1)"
    using records_written_one [OF r(4)] records_written_one [OF r(5)] records_written_one [of c1 c] c1(4) writer by simp
  obtain r1 where r1: "session_of ?u ?t1 = Some r1" "s_start_time r1 = time_value (env_now env)"
    "s_originating_carrier r1 = VString carrier"
    using record_origination(1) [OF c1(6), of t] new c1(7-9) by (auto simp: time_values)
  have "session_of ?u (record_event ?q ?t1) = Some (r1\<lparr>s_final_sip_status := VInt 200,
      s_connect_time := time_value (env_now env2), s_end_time := VNull, s_release_cause := VInt 0\<rparr>)"
    using record_final(1) [of ?q ?t1 r1] r(6) r1(1) c1(7) by (simp add: time_values)
  then have "session_of ?u (record_event (c_cdrs c3 ?p) (record_event ?q ?t1)) = Some (r1\<lparr>s_final_sip_status := VInt 200,
      s_connect_time := time_value (env_now env2), s_end_time := time_value (env_now env3),
      s_release_cause := VInt (release_code (if leg = a then calling_party_release else called_party_release))\<rparr>)"
    using record_cleared(1) [of "c_cdrs c3 ?p" "record_event ?q ?t1"] r(7) c1(7) by (simp add: time_values)
  with r(1-3) w r1(2,3) show ?thesis by (intro exI [of _ c2] exI [of _ c3]) auto
qed

text \<open>
  C12. A call whose writer falls behind leaves no row: the records of the call request and of its
  end are one shared object, so when nothing is written before the call is cleared, the request is
  no longer in the queue as a request, and after all three records the session is not in the
  database.
\<close>

theorem late_writer_loses_call:
  assumes inv: "ctl_inv R c" and call: "accepted_call env irq sip carrier c orq a b" and writer: "c_cdrWriter c"
    and run: "processRequestOutsideDialog env irq sip c = Ret (rc, c1)"
    and ans: "response_env env2 irq a b" "fresh_retry env2 c1" "sip_status sip2 = Some (200, phrase)"
      "sip_to sip2 \<noteq> None" "sip_contact sip2 \<noteq> None" "sip_payload sip2 \<noteq> None"
    and bye: "(leg, other) = (a, b) \<or> (leg, other) = (b, a)" "sip_request sip3 = Some sip_method_bye"
    and new: "session_of (env_uuid env) t = None"
  shows "\<exists>c2 c3. processInviteResponseInsideDialog env2 orq sip2 c1 = Ret (0, c2) \<and>
    processRequestInsideDialog env3 leg irq3 sip3 c2 = Ret (200, c3) \<and>
    length (c_posted c3) = length (c_posted c) + 3 \<and> session_of (env_uuid env) (records_written c c3 t) = None"
proof -
  let ?p = "c_next_cdr c"
  note c1 = accepted_call_Ret [OF inv call run]
  obtain c2 c3 where r: "processInviteResponseInsideDialog env2 orq sip2 c1 = Ret (0, c2)"
    "processRequestInsideDialog env3 leg irq3 sip3 c2 = Ret (200, c3)" "call_removed c1 irq orq a b c3"
    "c_posted c2 = c_posted c1 @ [c_next_cdr c1]" "c_posted c3 = c_posted c2 @ [?p]"
    "c_cdrs c2 (c_next_cdr c1) = response_record None (env_now env2) 200 (c_cdrs c1 ?p)"
    "c_cdrs c3 = (c_cdrs c2)(?p := populateByeCdr (env_now env3) (leg = a) (c_cdrs c1 ?p))" "?p \<noteq> c_next_cdr c1"
    by (rule answered_and_cleared [OF c1(2,1) _ ans bye, of env3 irq3]) (use c1(5) writer in simp_all)
  have posted: "c_posted c3 = c_posted c @ [?p, c_next_cdr c1, ?p]" using r(4,5) c1(4) writer by simp
  have "cdr_cdrType (c_cdrs c3 q) \<noteq> origination_request" if "q = ?p \<or> q = c_next_cdr c1" for q
    using that r(6-8) by (auto simp: r(7))
  then have "session_of (env_uuid env) (records_written c c3 t) = None"
    using new by (simp add: records_written_one [OF posted] record_event_absent)
  with r posted show ?thesis by (intro exI [of _ c2] exI [of _ c3]) simp
qed

text \<open>A call of the example controller, and the environment of its answer.\<close>

definition ex_answer_env :: nta_env where
  "ex_answer_env = (ex_env 1 2 5 2)\<lparr>env_now := 1005, env_b_leg := None, env_orq := None\<rparr>"

lemma ex_accepted_call:
  "accepted_call (ex_env 1 2 5 2) 7 (ex_request sip_method_invite ''10.0.0.9'') ''level3'' ex_controller 5 1 2"
  using ex_invite(1,2) ex_accepted ex_call_env [of 1 2 5 2 7] by (auto simp: accepted_call_def)

lemma ex_answered:
  obtains c1 where "processRequestOutsideDialog (ex_env 1 2 5 2) 7 (ex_request sip_method_invite ''10.0.0.9'') ex_controller =
      Ret (0, c1)" "response_env ex_answer_env 7 1 2" "fresh_retry ex_answer_env c1"
proof -
  obtain c1 where run: "processRequestOutsideDialog (ex_env 1 2 5 2) 7 (ex_request sip_method_invite ''10.0.0.9'') ex_controller =
      Ret (0, c1)"
    by (rule accepted_origination [OF ex_invite(1-3) ex_accepted ex_controller_inv ex_call_env, of 1 2 5 2 7])
      (use ex_chosen_fits in \<open>simp_all add: ex_env_def\<close>)
  note c1 = accepted_call_Ret [OF ex_controller_inv ex_accepted_call run]
  have "bm_right (c_dialogs c1) 2 = Some 1" using call_up_right(2) [OF c1(2)] c1(1) by (auto simp: origination_up_def)
  then have "fresh_retry ex_answer_env c1" by (simp add: fresh_retry_def ex_answer_env_def ex_env_def)
  moreover have "response_env ex_answer_env 7 1 2" by (simp add: response_env_def ex_answer_env_def ex_env_def)
  ultimately show ?thesis using that run by blast
qed

theorem call_leaves_its_row_witness:
  "\<exists>c1 c2 c3 r. processRequestOutsideDialog (ex_env 1 2 5 2) 7 (ex_request sip_method_invite ''10.0.0.9'') ex_controller =
      Ret (0, c1) \<and> processInviteResponseInsideDialog ex_answer_env 5 (ex_response 200) c1 = Ret (0, c2) \<and>
    processRequestInsideDialog ((ex_env 1 2 5 2)\<lparr>env_now := 1060\<rparr>) 2 8 (ex_request sip_method_bye ''10.0.1.1'') c2 = Ret (200, c3) \<and>
    session_of ''u'' (records_written c2 c3 (records_written c1 c2 (records_written ex_controller c1 (my_tables empty_db)))) = Some r \<and>
    s_end_time r = time_value 1060 \<and> s_release_cause r = VInt (release_code called_party_release)"
proof -
  obtain c1 where run: "processRequestOutsideDialog (ex_env 1 2 5 2) 7 (ex_request sip_method_invite ''10.0.0.9'') ex_controller =
      Ret (0, c1)" and ans: "response_env ex_answer_env 7 1 2" "fresh_retry ex_answer_env c1" by (rule ex_answered)
  have bye: "(2 :: nat, 1 :: nat) = (1, 2) \<or> (2 :: nat, 1 :: nat) = (2, 1)"
    "sip_request (ex_request sip_method_bye ''10.0.1.1'') = Some sip_method_bye" by (simp_all add: ex_request_def)
  have new: "session_of (env_uuid (ex_env 1 2 5 2)) (my_tables empty_db) = None"
    by (simp add: session_of_def empty_db_def)
  from call_leaves_its_row [OF ex_controller_inv ex_accepted_call ex_writer run ans ex_200 bye new,
      of "(ex_env 1 2 5 2)\<lparr>env_now := 1060\<rparr>" 8] run
  show ?thesis by (auto simp: ex_env_def)
qed

theorem late_writer_loses_call_witness:
  "\<exists>c1 c2 c3. processRequestOutsideDialog (ex_env 1 2 5 2) 7 (ex_request sip_method_invite ''10.0.0.9'') ex_controller =
      Ret (0, c1) \<and> processInviteResponseInsideDialog ex_answer_env 5 (ex_response 200) c1 = Ret (0, c2) \<and>
    processRequestInsideDialog ((ex_env 1 2 5 2)\<lparr>env_now := 1060\<rparr>) 2 8 (ex_request sip_method_bye ''10.0.1.1'') c2 = Ret (200, c3) \<and>
    session_of ''u'' (records_written ex_controller c3 (my_tables empty_db)) = None"
proof -
  obtain c1 where run: "processRequestOutsideDialog (ex_env 1 2 5 2) 7 (ex_request sip_method_invite ''10.0.0.9'') ex_controller =
      Ret (0, c1)" and ans: "response_env ex_answer_env 7 1 2" "fresh_retry ex_answer_env c1" by (rule ex_answered)
  have bye: "(2 :: nat, 1 :: nat) = (1, 2) \<or> (2 :: nat, 1 :: nat) = (2, 1)"
    "sip_request (ex_request sip_method_bye ''10.0.1.1'') = Some sip_method_bye" by (simp_all add: ex_request_def)
  have new: "session_of (env_uuid (ex_env 1 2 5 2)) (my_tables empty_db) = None"
    by (simp add: session_of_def empty_db_def)
  from late_writer_loses_call [OF ex_controller_inv ex_accepted_call ex_writer run ans ex_200 bye new,
      of "(ex_env 1 2 5 2)\<lparr>env_now := 1060\<rparr>" 8] run
  show ?thesis by (auto simp: ex_env_def)
qed

section \<open>The end of the retries\<close>

text \<open>
  A call from a server that every carrier refuses with 503 or 480: \<open>refused n c irq orq a b t c'\<close>
  says that \<open>n\<close> refusals in a row, each of the INVITE sent last, lead from \<open>c\<close> to \<open>c'\<close>, where the
  call has no more attempts left.
\<close>

inductive refused :: "nat \<Rightarrow> controller \<Rightarrow> nat \<Rightarrow> nat \<Rightarrow> nat \<Rightarrow> nat \<Rightarrow> TerminationAttempt \<Rightarrow> controller \<Rightarrow> bool" where
  given_up: "response_env env irq a b \<Longrightarrow> sip_status sip = Some (status, phrase) \<Longrightarrow> status = 503 \<or> status = 480 \<Longrightarrow>
    \<not> ta_nAttemptCount t < c_nTerminationRetries c - 1 \<Longrightarrow>
    processInviteResponseInsideDialog env orq sip c = Ret (rc, c') \<Longrightarrow> refused 1 c irq orq a b t c'"
| retried: "response_env env irq a b \<Longrightarrow> sip_status sip = Some (status, phrase) \<Longrightarrow> status = 503 \<or> status = 480 \<Longrightarrow>
    ta_nAttemptCount t < c_nTerminationRetries c - 1 \<Longrightarrow> to_user sip = Ret user \<Longrightarrow>
    env_b_leg env = Some bNew \<Longrightarrow> env_orq env = Some (orqNew, callId) \<Longrightarrow> fresh_retry env c \<Longrightarrow>
    processInviteResponseInsideDialog env orq sip c = Ret (rc, c1) \<Longrightarrow> map_of (c_mapTerminationAttempts c1) orqNew = Some t1 \<Longrightarrow>
    refused n c1 irq orqNew a bNew t1 c' \<Longrightarrow> refused (Suc n) c irq orq a b t c'"

lemma unat_pred: "0 < (w :: u32) \<Longrightarrow> unat (w - 1) = unat w - 1"
  by (simp add: unat_minus_one word_gt_0)

lemma refused_ends:
  assumes "refused n c irq orq a b t c'" "ctl_inv R c" "termination_up c irq orq a b t" "routable (c_config c)"
    "0 < c_nTerminationRetries c" "unat (ta_nAttemptCount t) < unat (c_nTerminationRetries c)"
  shows "n + unat (ta_nAttemptCount t) = unat (c_nTerminationRetries c) \<and>
    bm_left (c_transactions c') irq = None \<and> bm_left (c_dialogs c') a = None"
  using assms
proof (induction rule: refused.induct)
  case (given_up env irq a b sip status phrase t c orq rc c')
  obtain p where start: "response_start env orq c = Ret \<lparr>x_orq = orq, x_irq = irq, x_outgoing_leg = b, x_a_leg = a,
       x_attempt = Some t, x_pDialog = None, x_pCdr = p\<rparr>" (is "_ = Ret ?x")
    using response_start_termination [OF given_up.prems(1,2) given_up.hyps(1)] by blast
  have cu: "call_up c irq orq a b" using given_up.prems(2) by (simp add: termination_up_def)
  have x: "x_irq ?x = irq" "x_outgoing_leg ?x = b" "x_pCdr ?x = p" "passed_on (x_attempt ?x) status (c_nTerminationRetries c)"
    using given_up.hyps by (auto simp: passed_on_def)
  have "call_removed c irq orq a b c'"
    by (rule failed_call [OF given_up.prems(1) cu start x(1-3) given_up.hyps(2) x(4)]) (use given_up.hyps(5) in simp)
  moreover have "unat (c_nTerminationRetries c) - 1 \<le> unat (ta_nAttemptCount t)"
    using given_up.hyps(4) unat_pred [OF given_up.prems(4)] by (simp add: word_less_nat_alt)
  ultimately show ?case using given_up.prems(5) by (auto simp: call_removed_def)
next
  case (retried env irq a b sip status phrase t c user bNew orqNew callId orq rc c1 t1 n c')
  obtain rt cfg where rt: "getTerminationRouteForAltCarrier (c_config c) (ta_carrier t) = Ret (Some rt, cfg)" "routable cfg"
    by (rule getTerminationRouteForAltCarrier_ok [OF retried.prems(3)])
  have new: "bm_right (c_transactions c) orqNew = None" "fresh_leg (c_dialogs c) bNew"
    using retried.hyps(6-8) by (auto simp: fresh_retry_def)
  have fit: "length (ta_url (next_attempt user rt t)) < URL_MAXLEN"
    by (rule ccontr)
      (use overlong_retry [OF retried.prems(1,2) retried.hyps(1-4) rt(1) retried.hyps(6,5)] retried.hyps(9) in simp)
  obtain c2 where c2: "processInviteResponseInsideDialog env orq sip c = Ret (0, c2)"
    "termination_up c2 irq orqNew a bNew (next_attempt user rt t)" "c_nTerminationRetries c2 = c_nTerminationRetries c" "c_config c2 = cfg"
    by (rule cranked_back_call [OF retried.prems(1,2) retried.hyps(1-4) rt(1) retried.hyps(6,7) new retried.hyps(5) fit])
  then have c1: "c1 = c2" "t1 = next_attempt user rt t" using retried.hyps(9,10) by (auto simp: termination_up_def)
  have "ctl_inv R c1" using processInviteResponseInsideDialog_inv [OF retried.prems(1) retried.hyps(8,9)] .
  moreover have cnt: "unat (ta_nAttemptCount t1) = Suc (unat (ta_nAttemptCount t))"
    using unat_Suc_less [OF retried.hyps(4)] by (simp add: c1 next_attempt_def split_beta)
  moreover have "unat (ta_nAttemptCount t) < unat (c_nTerminationRetries c) - 1"
    using retried.hyps(4) unat_pred [OF retried.prems(4)] by (simp add: word_less_nat_alt)
  ultimately show ?case using retried.IH retried.prems(4) c2 rt(2) by (simp add: c1)
qed



end
