(* ===== verification/Db_Test.thy ===== *)
theory Db_Test
  imports Call_Records
begin

text \<open>
  The option \<open>--dbtest\<close>: \<open>runDbTest\<close> of \<open>ssp-controller.cpp\<close> posts the records of a hundred made-up
  calls, and what they leave in the database once the writer has worked them off. \<open>uuid i\<close> is what
  \<open>generateUuid\<close> gives for call \<open>i\<close>, and \<open>now k\<close> what the \<open>k\<close>-th \<open>time(0)\<close> of a call returns.
\<close>

section \<open>The test\<close>

definition db_test_request :: "string \<Rightarrow> (nat \<Rightarrow> time_t) \<Rightarrow> CdrInfo" where
  "db_test_request u now =
     setCallingPartyNumber ''cli'' (setCalledPartyNumberIn ''did''
     (setOriginatingEdgeServerAddress ''localhost-orig-edge'' (setBLegCallId ''B-leg-callid''
     (setALegCallId ''A-leg-callid'' (setOriginatingCarrierAddress ''carrierX-address''
     (setOriginatingCarrier ''carrierX'' (setTimeStart (now 0) (setUuid u (CdrInfo_new origination_request)))))))))"

definition db_test_attempt :: "string \<Rightarrow> (nat \<Rightarrow> time_t) \<Rightarrow> CdrInfo" where
  "db_test_attempt u now =
     setCalledPartyNumberOut ''8XX'' (setTerminatingEdgeServerAddress ''localhost-term-edge''
     (setTerminatingCarrierAddress ''carrierY-address'' (setTerminatingCarrier ''carrierY''
     (setDLegCallId ''D-Leg-callid'' (setCLegCallId ''C-Leg-callid'' (setSipStatus 200
     (setTimeConnect (now 2) (setTimeStart (now 1) (setUuid u (CdrInfo_new termination_attempt))))))))))"

definition db_test_final :: "string \<Rightarrow> (nat \<Rightarrow> time_t) \<Rightarrow> CdrInfo" where
  "db_test_final u now =
     setTimeConnect (now 3) (setSipStatus 200 (setUuid u (CdrInfo_new origination_final_response)))"

definition db_test_cleared :: "string \<Rightarrow> (nat \<Rightarrow> time_t) \<Rightarrow> CdrInfo" where
  "db_test_cleared u now =
     setReleaseCause calling_party_release (setTimeEnd (now 4) (setUuid u (CdrInfo_new call_cleared)))"

definition db_test_cancel :: "string \<Rightarrow> (nat \<Rightarrow> time_t) \<Rightarrow> CdrInfo" where
  "db_test_cancel u now = setTimeEnd (now 1) (setUuid u (CdrInfo_new origination_cancel))"

text \<open>The body of the loop, with the records in the order they are posted.\<close>

definition db_test_call :: "nat \<Rightarrow> string \<Rightarrow> (nat \<Rightarrow> time_t) \<Rightarrow> CdrInfo list" where
  "db_test_call i u now =
     db_test_request u now #
     (if i mod 2 = 0 then [db_test_attempt u now, db_test_final u now, db_test_cleared u now]
      else [db_test_cancel u now])"

text \<open>Each record is a new object; the writer is used without a look whether there is one.\<close>

fun post_records :: "CdrInfo list \<Rightarrow> controller \<Rightarrow> controller outcome" where
  "post_records [] c = Ret c"
| "post_records (cdr # cdrs) c = (if c_cdrWriter c then post_records cdrs (post_new_cdr cdr c) else Undefined)"

fun db_test_loop :: "(nat \<Rightarrow> string) \<Rightarrow> (nat \<Rightarrow> nat \<Rightarrow> time_t) \<Rightarrow> nat list \<Rightarrow> controller \<Rightarrow> controller outcome" where
  "db_test_loop uuid now [] c = Ret c"
| "db_test_loop uuid now (i # is) c =
     obind (post_records (db_test_call i (uuid i) (now i)) c) (db_test_loop uuid now is)"

definition runDbTest :: "(nat \<Rightarrow> string) \<Rightarrow> (nat \<Rightarrow> nat \<Rightarrow> time_t) \<Rightarrow> controller \<Rightarrow> controller outcome" where
  "runDbTest uuid now c = db_test_loop uuid now [0..<100] c"

section \<open>What is posted\<close>

lemma db_test_loop_eq:
  "db_test_loop uuid now is = post_records (concat (map (\<lambda>i. db_test_call i (uuid i) (now i)) is))"
proof (induction "is")
  case (Cons i "is")
  have "post_records (xs @ ys) d = obind (post_records xs d) (post_records ys)" for xs ys d
    by (induction xs arbitrary: d) simp_all
  then show ?case by (intro ext) (simp add: Cons)
qed (simp add: fun_eq_iff)

lemma post_records_Ret:
  assumes "c_cdrWriter c"
  obtains c' where "post_records cdrs c = Ret c'" "c_posted c' = c_posted c @ [c_next_cdr c..<c_next_cdr c + length cdrs]"
    "map (c_cdrs c') [c_next_cdr c..<c_next_cdr c + length cdrs] = cdrs" "\<forall>p < c_next_cdr c. c_cdrs c' p = c_cdrs c p"
proof -
  have "\<exists>c'. post_records cdrs c = Ret c' \<and> c_posted c' = c_posted c @ [c_next_cdr c..<c_next_cdr c + length cdrs] \<and>
      map (c_cdrs c') [c_next_cdr c..<c_next_cdr c + length cdrs] = cdrs \<and> (\<forall>p < c_next_cdr c. c_cdrs c' p = c_cdrs c p)"
    using assms
  proof (induction cdrs arbitrary: c)
    case (Cons cdr cdrs)
    then obtain c' where c': "post_records cdrs (post_new_cdr cdr c) = Ret c'"
      "c_posted c' = c_posted (post_new_cdr cdr c) @ [Suc (c_next_cdr c)..<Suc (c_next_cdr c) + length cdrs]"
      "map (c_cdrs c') [Suc (c_next_cdr c)..<Suc (c_next_cdr c) + length cdrs] = cdrs"
      "\<forall>p < Suc (c_next_cdr c). c_cdrs c' p = c_cdrs (post_new_cdr cdr c) p"
      by (metis post_new_cdr_frame(6) post_new_cdr_frame(10))
    then have "c_cdrs c' (c_next_cdr c) = cdr" "\<forall>p < c_next_cdr c. c_cdrs c' p = c_cdrs c p" by simp_all
    with c' Cons.prems show ?case by (simp add: upt_conv_Cons del: upt_Suc)
  qed simp
  then show thesis using that by blast
qed

section \<open>What reaches the database\<close>

lemma posted_written:
  "c_posted c' = c_posted c @ ps \<Longrightarrow> map (c_cdrs c') ps = cs \<Longrightarrow> records_written c c' t = fold record_event cs t"
  by (auto simp: records_written_one fold_map comp_def)

lemma end_attempts_other: "v \<noteq> u \<Longrightarrow> attempts_of u (end_attempts v e t) = attempts_of u t"
proof -
  assume "v \<noteq> u"
  then have "filter (\<lambda>r. t_cdr_session_uuid r = u) (map (\<lambda>r. if t_cdr_session_uuid r = v \<and>
      t_final_sip_status r = VInt 200 then r\<lparr>t_end_time := e\<rparr> else r) rs) = filter (\<lambda>r. t_cdr_session_uuid r = u) rs" for rs
    by (induction rs) auto
  then show ?thesis by (simp add: attempts_of_def end_attempts_def)
qed

lemma insert_session_other:
  "key_string (ps ! 0) \<noteq> u \<Longrightarrow> session_of u (snd (insert_session ps t)) = session_of u t"
  "attempts_of u (snd (insert_session ps t)) = attempts_of u t"
  by (simp_all add: insert_session_def session_of_def find_append_None split: option.splits)

lemma insert_attempt_other:
  "session_of u (snd (insert_attempt ps t)) = session_of u t"
  "key_string (ps ! 0) \<noteq> u \<Longrightarrow> attempts_of u (snd (insert_attempt ps t)) = attempts_of u t"
  by (simp add: insert_attempt_def) (simp add: insert_attempt_def attempts_of_def)

lemma apply_two_snd:
  "snd (apply_two k1 ps1 k2 ps2 t) = (let t1 = snd (apply_stmt k1 ps1 t) in
     if fst (apply_stmt k1 ps1 t) = Success then snd (apply_stmt k2 ps2 t1) else t1)"
  by (simp add: apply_two_def Let_def split: prod.splits)

lemma record_event_other:
  assumes "cdr_uuid c \<noteq> u"
  shows "session_of u (record_event c t) = session_of u t" "attempts_of u (record_event c t) = attempts_of u t"
proof -
  have keys: "key_string (orig_params c ! 0) \<noteq> u" "key_string (term1_params c ! 0) \<noteq> u" "cdr_uuid c \<noteq> u"
    "key_string (final_params c ! 4) \<noteq> u" "key_string (cancel_params c ! 2) \<noteq> u" "key_string (term2_params c ! 8) \<noteq> u"
    "key_string (bye1_params c ! 2) \<noteq> u" "key_string (bye2_params c ! 1) \<noteq> u"
    using assms by (simp_all add: orig_params_def term1_params_def final_params_def cancel_params_def term2_params_def
      bye1_params_def bye2_params_def)
  show "session_of u (record_event c t) = session_of u t"
    using keys by (cases "cdr_cdrType c")
      (simp_all add: record_event_def apply_two_snd session_of_update insert_session_other insert_attempt_other Let_def)
  show "attempts_of u (record_event c t) = attempts_of u t"
    using keys by (cases "cdr_cdrType c")
      (simp_all add: record_event_def apply_two_snd insert_session_other insert_attempt_other end_attempts_other Let_def)
qed

lemma record_events_other:
  "\<forall>c \<in> set cs. cdr_uuid c \<noteq> u \<Longrightarrow>
   session_of u (fold record_event cs t) = session_of u t \<and> attempts_of u (fold record_event cs t) = attempts_of u t"
  by (induction cs arbitrary: t) (simp_all add: record_event_other)

lemma record_cancel:
  assumes "cdr_cdrType c = origination_cancel" "session_of (cdr_uuid c) t = Some r"
  shows "session_of (cdr_uuid c) (record_event c t) = Some (r\<lparr>s_final_sip_status := VInt 487,
      s_end_time := VDateTime (getTimeEndFormatted c), s_release_cause := VInt (release_code call_canceled)\<rparr>)"
    and "attempts_of u (record_event c t) = attempts_of u t"
  using assms by (simp_all add: record_event_def cancel_params_def session_of_update)

text \<open>
  The rows of one call: an even one is answered over \<open>carrierY\<close> and cleared by the caller, an odd
  one is cancelled.
\<close>

definition db_test_rows :: "nat \<Rightarrow> string \<Rightarrow> (nat \<Rightarrow> time_t) \<Rightarrow> cdr_tables \<Rightarrow> bool" where
  "db_test_rows i u now t \<longleftrightarrow> (\<exists>r. session_of u t = Some r \<and> s_start_time r = time_value (now 0) \<and>
     s_originating_carrier r = VString ''carrierX'' \<and>
     (if even i then
        s_connect_time r = time_value (now 3) \<and> s_end_time r = time_value (now 4) \<and> s_final_sip_status r = VInt 200 \<and>
        s_release_cause r = VInt (release_code calling_party_release) \<and> s_terminating_carrier r = VString ''carrierY'' \<and>
        attempts_of u t = [(attempt_row_of (db_test_attempt u now) 1)\<lparr>t_end_time := time_value (now 4)\<rparr>]
      else
        s_connect_time r = VNull \<and> s_end_time r = time_value (now 1) \<and> s_final_sip_status r = VInt 487 \<and>
        s_release_cause r = VInt (release_code call_canceled) \<and> attempts_of u t = []))"

lemmas db_test_records = db_test_request_def db_test_attempt_def db_test_final_def db_test_cleared_def db_test_cancel_def
  CdrInfo_new_def cdr_set

lemma db_test_fields [simp]:
  "cdr_uuid (db_test_request u now) = u" "cdr_uuid (db_test_attempt u now) = u" "cdr_uuid (db_test_final u now) = u"
  "cdr_uuid (db_test_cleared u now) = u" "cdr_uuid (db_test_cancel u now) = u"
  "cdr_cdrType (db_test_request u now) = origination_request" "cdr_cdrType (db_test_attempt u now) = termination_attempt"
  "cdr_cdrType (db_test_final u now) = origination_final_response" "cdr_cdrType (db_test_cleared u now) = call_cleared"
  "cdr_cdrType (db_test_cancel u now) = origination_cancel"
  "VDateTime (getTimeStartFormatted (db_test_request u now)) = time_value (now 0)"
  "VDateTime (getTimeConnectFormatted (db_test_final u now)) = time_value (now 3)"
  "VDateTime (getTimeEndFormatted (db_test_cleared u now)) = time_value (now 4)"
  "VDateTime (getTimeEndFormatted (db_test_cancel u now)) = time_value (now 1)"
  "cdr_originatingCarrier (db_test_request u now) = ''carrierX''" "cdr_terminatingCarrier (db_test_attempt u now) = ''carrierY''"
  "cdr_sipStatus (db_test_attempt u now) = 200" "cdr_sipStatus (db_test_final u now) = 200"
  "cdr_releaseCause (db_test_cleared u now) = calling_party_release"
  by (simp_all add: db_test_records time_values)

lemma db_test_call_rows:
  assumes new: "session_of u t = None" "attempts_of u t = []"
  shows "db_test_rows i u now (fold record_event (db_test_call i u now) t)"
proof -
  let ?t1 = "record_event (db_test_request u now) t"
  obtain r1 where r1: "session_of u ?t1 = Some r1" "s_start_time r1 = time_value (now 0)" "s_connect_time r1 = VNull"
    "s_originating_carrier r1 = VString ''carrierX''"
    using record_origination(1) [of "db_test_request u now" t] new by auto
  have a1: "attempts_of u ?t1 = []" using record_origination(2) [of "db_test_request u now" t] new by simp
  show ?thesis
  proof (cases "even i")
    case False
    then have "db_test_call i u now = [db_test_request u now, db_test_cancel u now]" by (simp add: db_test_call_def odd_iff_mod_2_eq_one)
    then show ?thesis
      using record_cancel [of "db_test_cancel u now" ?t1] r1 a1 False by (simp add: db_test_rows_def)
  next
    case True
    let ?a = "db_test_attempt u now"
    let ?t2 = "record_event ?a ?t1"
    let ?t3 = "record_event (db_test_final u now) ?t2"
    obtain r2 where r2: "session_of u ?t2 = Some r2" "s_start_time r2 = time_value (now 0)"
      "s_originating_carrier r2 = VString ''carrierX''" "s_terminating_carrier r2 = VString ''carrierY''"
      using record_attempt(1) [of ?a ?t1] r1 by auto
    have "next_sequence u ?t1 = 1" using a1 by (simp add: next_sequence_def)
    then have a2: "attempts_of u ?t2 = [attempt_row_of ?a 1]"
      using record_attempt(2) [of ?a ?t1] r1 a1 by (simp add: attempt_row_of_def)
    have r3: "session_of u ?t3 = Some (r2\<lparr>s_final_sip_status := VInt 200, s_connect_time := time_value (now 3),
        s_end_time := VNull, s_release_cause := VInt 0\<rparr>)"
      using record_final(1) [of "db_test_final u now" ?t2 r2] r2(1) by simp
    have a3: "attempts_of u ?t3 = [attempt_row_of ?a 1]" using record_final(2) [of "db_test_final u now"] r2(1) a2 by simp
    have "t_final_sip_status (attempt_row_of ?a 1) = VInt 200" by (simp add: attempt_row_of_def)
    moreover have "db_test_call i u now = [db_test_request u now, ?a, db_test_final u now, db_test_cleared u now]"
      using True by (simp add: db_test_call_def even_iff_mod_2_eq_zero)
    ultimately show ?thesis
      using record_cleared [of "db_test_cleared u now" ?t3] r3 a3 r2 True by (simp add: db_test_rows_def)
  qed
qed

lemma db_test_call_uuid: "c \<in> set (db_test_call i u now) \<Longrightarrow> cdr_uuid c = u"
  by (auto simp: db_test_call_def split: if_splits)

lemma db_test_rows_other:
  assumes "db_test_rows i u now t" "\<forall>c \<in> set cs. cdr_uuid c \<noteq> u"
  shows "db_test_rows i u now (fold record_event cs t)"
  using assms(1) record_events_other [OF assms(2), of t] by (simp only: db_test_rows_def)

lemma db_test_loop_rows:
  assumes "distinct (map uuid is)" "\<forall>i \<in> set is. session_of (uuid i) t = None \<and> attempts_of (uuid i) t = []" "i \<in> set is"
  shows "db_test_rows i (uuid i) (now i) (fold record_event (concat (map (\<lambda>i. db_test_call i (uuid i) (now i)) is)) t)"
  using assms
proof (induction "is" arbitrary: t)
  case (Cons j js)
  let ?t = "fold record_event (db_test_call j (uuid j) (now j)) t"
  have other: "session_of (uuid k) ?t = session_of (uuid k) t \<and> attempts_of (uuid k) ?t = attempts_of (uuid k) t" if "k \<in> set js" for k
    using record_events_other [of "db_test_call j (uuid j) (now j)" "uuid k" t] that Cons.prems(1) by (force dest: db_test_call_uuid)
  show ?case
  proof (cases "i = j")
    case True
    have "db_test_rows j (uuid j) (now j) ?t" using db_test_call_rows Cons.prems(2) by simp
    moreover have "\<forall>c \<in> set (concat (map (\<lambda>i. db_test_call i (uuid i) (now i)) js)). cdr_uuid c \<noteq> uuid j"
      using Cons.prems(1) by (auto simp: image_iff dest!: db_test_call_uuid)
    ultimately show ?thesis using db_test_rows_other True by simp
  next
    case False
    have "\<forall>i \<in> set js. session_of (uuid i) ?t = None \<and> attempts_of (uuid i) ?t = []"
      using other Cons.prems(2) by simp
    then show ?thesis using Cons.IH [of ?t] Cons.prems False by simp
  qed
qed simp

lemma db_test_length: "length (concat (map (\<lambda>i. db_test_call i (uuid i) (now i)) [0..<n])) = 3 * n + n mod 2"
proof (induction n)
  case (Suc n)
  have "length (db_test_call n (uuid n) (now n)) = (if even n then 4 else 2)"
    by (simp add: db_test_call_def even_iff_mod_2_eq_zero)
  then show ?case using Suc by (cases "even n") (auto elim!: evenE oddE)
qed simp

section \<open>The database after the test\<close>

text \<open>
  The test of the database leaves the rows it means to: with a writer and new identifiers,
  \<open>--dbtest\<close> posts three hundred records, and when the writer has worked them off, each of the
  hundred calls has its row in the database, the even ones answered over the second carrier with
  one attempt that ends with the call, the odd ones cancelled without an attempt, and the rows of
  every other session are as before. Without settings for the database the test uses the writer
  that is not there.
\<close>

theorem db_test_reaches_database:
  assumes "inj_on uuid {..<100}" "\<forall>i < 100. session_of (uuid i) t = None \<and> attempts_of (uuid i) t = []"
  shows "case runDbTest uuid now c of
      Ret c' \<Rightarrow> c_cdrWriter c \<and> length (c_posted c') = length (c_posted c) + 300 \<and>
        (\<forall>i < 100. db_test_rows i (uuid i) (now i) (records_written c c' t)) \<and>
        (\<forall>u. u \<notin> uuid ` {..<100} \<longrightarrow> session_of u (records_written c c' t) = session_of u t \<and>
           attempts_of u (records_written c c' t) = attempts_of u t)
    | Undefined \<Rightarrow> \<not> c_cdrWriter c
    | Aborted \<Rightarrow> False"
proof (cases "c_cdrWriter c")
  case True
  let ?cs = "concat (map (\<lambda>i. db_test_call i (uuid i) (now i)) [0..<100])"
  obtain c' where c': "post_records ?cs c = Ret c'" "c_posted c' = c_posted c @ [c_next_cdr c..<c_next_cdr c + length ?cs]"
    "map (c_cdrs c') [c_next_cdr c..<c_next_cdr c + length ?cs] = ?cs"
    by (rule post_records_Ret [OF True])
  have "records_written c c' t = fold record_event ?cs t" by (rule posted_written [OF c'(2,3)])
  moreover have "length ?cs = 300" using db_test_length [of uuid now 100] by simp
  moreover have "distinct (map uuid [0..<100])" using assms(1) by (simp add: distinct_map lessThan_atLeast0)
  then have "db_test_rows i (uuid i) (now i) (fold record_event ?cs t)" if "i < 100" for i
    using db_test_loop_rows [of uuid "[0..<100]" t i now] assms(2) that by simp
  moreover have "\<forall>c \<in> set ?cs. cdr_uuid c \<noteq> u" if "u \<notin> uuid ` {..<100}" for u
    using that by (auto dest!: db_test_call_uuid)
  ultimately show ?thesis using c'(1,2) True record_events_other [of ?cs]
    by (simp add: runDbTest_def db_test_loop_eq)
next
  case False
  moreover have "[0..<100] = 0 # [1..<100 :: nat]" using upt_conv_Cons [of 0 "100 :: nat"] by simp
  ultimately show ?thesis by (simp add: runDbTest_def db_test_call_def)
qed

theorem db_test_reaches_database_witness:
  "\<exists>c'. runDbTest show_nat (\<lambda>i k. 1371000000) ex_controller = Ret c' \<and> length (c_posted c') = 300 \<and>
     db_test_rows 7 ''7'' (\<lambda>k. 1371000000) (records_written ex_controller c' (my_tables empty_db))"
proof -
  have "inj_on show_nat {..<100}" "\<forall>i < 100. session_of (show_nat i) (my_tables empty_db) = None \<and>
      attempts_of (show_nat i) (my_tables empty_db) = []"
    by (auto intro!: inj_onI simp: session_of_def attempts_of_def empty_db_def) (metis digits_val_show_nat)
  from db_test_reaches_database [OF this, where now = "\<lambda>i k. 1371000000" and c = ex_controller] ex_writer
  obtain c' where c': "runDbTest show_nat (\<lambda>i k. 1371000000) ex_controller = Ret c'"
    "length (c_posted c') = length (c_posted ex_controller) + 300"
    "\<forall>i < 100. db_test_rows i (show_nat i) (\<lambda>k. 1371000000) (records_written ex_controller c' (my_tables empty_db))"
    by (auto split: outcome.splits)
  have "length (c_posted c') = 300" using c'(2) by (simp add: ex_controller_simps)
  moreover have "show_nat 7 = ''7''" by (simp add: show_nat.simps digit_char_def)
  then have "db_test_rows 7 ''7'' (\<lambda>k. 1371000000) (records_written ex_controller c' (my_tables empty_db))"
    using c'(3) [rule_format, of 7] by (simp only: rel_simps)
  ultimately show ?thesis using c'(1) by blast
qed

end
