(* ===== verification/Cdr_Worker.thy ===== *)
theory Cdr_Worker
  imports Cdr_Database
begin

text \<open>
  The life of a \<open>CdrWriter\<close> (\<open>cdr-writer.cpp\<close>): the constructor starts the worker thread, which
  starts the timer of the connection test; the handler of the timer is bound to
  \<open>shared_from_this()\<close>, so a pending timer keeps the object. The controller gives it up with
  \<open>m_cdrWriter.reset()\<close>.
\<close>

section \<open>Constructor, thread and destructor\<close>

record 'db writer_life =
  wl_writer :: "'db cdr_writer"
  wl_owned :: bool
  wl_thread :: bool

text \<open>Without an instance of the driver the constructor only reports the error.\<close>

definition CdrWriter_construct :: "bool \<Rightarrow> 'db \<Rightarrow> 'db writer_life" where
  "CdrWriter_construct driver db =
     \<lparr>wl_writer = (CdrWriter_new db)\<lparr>w_timer := False\<rparr>, wl_owned = False, wl_thread = driver\<rparr>"

text \<open>\<open>m_cdrWriter.reset( new CdrWriter(...) )\<close>: the object has an owner after its constructor.\<close>

definition take_ownership :: "'db writer_life \<Rightarrow> 'db writer_life" where
  "take_ownership l = l\<lparr>wl_owned := True\<rparr>"

text \<open>
  The start of \<open>worker_thread\<close>. \<open>shared_from_this()\<close> of an object without an owner throws
  \<open>bad_weak_ptr\<close>, which no handler of the thread catches.
\<close>

definition startSqlTimer :: "'db writer_life \<Rightarrow> 'db writer_life outcome" where
  "startSqlTimer l =
     (if wl_owned l \<or> w_timer (wl_writer l) then Ret (l\<lparr>wl_writer := (wl_writer l)\<lparr>w_timer := True\<rparr>\<rparr>) else Aborted)"

definition worker_thread_start :: "bool \<Rightarrow> 'db writer_life \<Rightarrow> 'db writer_life outcome" where
  "worker_thread_start threadInit l =
     (if \<not> wl_thread l then Ret l
      else if \<not> threadInit then Ret (l\<lparr>wl_thread := False\<rparr>)
      else startSqlTimer l)"

text \<open>The destructor: the timer is cancelled, and the thread works off what was posted before it ends.\<close>

definition CdrWriter_destroy :: "'db sql_driver \<Rightarrow> (nat \<Rightarrow> CdrInfo) \<Rightarrow> 'db writer_life \<Rightarrow> 'db writer_life" where
  "CdrWriter_destroy drv heap l =
     (let w = (wl_writer l)\<lparr>w_timer := False\<rparr>
      in l\<lparr>wl_writer := (if wl_thread l then (writer_step drv heap ^^ length (w_queue w)) w else w), wl_thread := False\<rparr>)"

text \<open>What happens to a writer: a record is posted, the thread takes the next handler, the owner lets go.\<close>

datatype worker_event = CdrPosted nat | NextRecord | SqlTimerExpired | OwnerReset

definition worker_event_handler ::
  "'db sql_driver \<Rightarrow> (nat \<Rightarrow> CdrInfo) \<Rightarrow> worker_event \<Rightarrow> 'db writer_life \<Rightarrow> 'db writer_life" where
  "worker_event_handler drv heap e l =
     (let w = wl_writer l
      in case e of
           CdrPosted p \<Rightarrow> if wl_owned l then l\<lparr>wl_writer := postCdr p w\<rparr> else l
         | NextRecord \<Rightarrow> if wl_thread l then l\<lparr>wl_writer := writer_step drv heap w\<rparr> else l
         | SqlTimerExpired \<Rightarrow>
             if wl_thread l \<and> w_timer w then l\<lparr>wl_writer := cdr_timer_handler drv True (w\<lparr>w_timer := False\<rparr>)\<rparr> else l
         | OwnerReset \<Rightarrow>
             if wl_owned l then
               (let l1 = l\<lparr>wl_owned := False\<rparr>
                in if w_timer w then l1 else CdrWriter_destroy drv heap l1)
             else l)"

section \<open>The timer keeps the writer\<close>

lemma getConnection_timer: "getConnection drv w = (res, w1) \<Longrightarrow> w_timer w1 = w_timer w"
  by (auto simp: getConnection_def split: list.splits prod.splits)

lemma run_statement_timer: "run_statement drv conn k ps w = (r, w1) \<Longrightarrow> w_timer w1 = w_timer w"
  by (auto simp: run_statement_def prepareStatement_def executeUpdate_def Let_def
      split: option.splits prod.splits if_splits)

lemma run_two_timer: "run_two drv conn k1 ps1 k2 ps2 w = (r, w1) \<Longrightarrow> w_timer w1 = w_timer w"
  by (auto simp: run_two_def split: prod.splits if_splits dest!: run_statement_timer)

lemma handle_exceptions_timer: "w_timer (snd (handle_exceptions ks rw)) = w_timer (snd rw)"
  by (auto simp: handle_exceptions_def split: prod.splits sql_result.splits)

lemma write_event_timer: "w_timer (snd (write_event drv c conn w)) = w_timer w"
proof -
  have "w_timer (snd (run_statement drv conn k ps w)) = w_timer w"
    "w_timer (snd (run_two drv conn k ps k2 ps2 w)) = w_timer w" for k ps k2 ps2
    using run_statement_timer run_two_timer by (metis prod.collapse)+
  then show ?thesis
    by (cases "cdr_cdrType c")
      (simp_all add: write_event_def writeOriginationRequestCdr_def writeOriginationFinalResponseCdr_def
        writeOriginationCancelCdr_def writeTerminationAttemptCdr_def writeByeCdr_def handle_exceptions_timer)
qed

lemma writer_step_timer: "w_timer (writer_step drv heap w) = w_timer w"
proof -
  have "w_timer (writeCdr drv c v) = w_timer v" for c v
    using write_event_timer [of drv c]
    by (auto simp: writeCdr_def releaseConnection_def split: prod.splits option.splits
        dest!: getConnection_timer) (metis snd_conv)+
  then show ?thesis by (simp add: writer_step_def split: list.splits)
qed

lemma timer_restarted: "w_timer (cdr_timer_handler drv True w)"
  by (simp add: cdr_timer_handler_def Let_def split: prod.splits option.splits)

lemma worker_event_keeps:
  assumes "wl_thread l" "w_timer (wl_writer l)"
  shows "wl_thread (worker_event_handler drv heap e l) \<and> w_timer (wl_writer (worker_event_handler drv heap e l))"
  using assms
  by (cases e) (simp_all add: worker_event_handler_def Let_def postCdr_def writer_step_timer timer_restarted)

section \<open>A writer that is given up\<close>

text \<open>
  C32. Giving up the writer does not wait for its records: once the thread of a writer has started
  its timer, then after any events the timer is pending, so the object is kept by its own timer
  when the owner lets go: the destructor, which would write what is left, does not run, the records
  posted before are still in the queue, and the thread goes on. If the thread comes to its timer
  before the new object has its owner, the program ends.
\<close>

theorem writer_outlives_owner:
  assumes start: "worker_thread_start True (take_ownership (CdrWriter_construct True db)) = Ret l0"
  shows "(let l = fold (worker_event_handler drv heap) es l0; l' = worker_event_handler drv heap OwnerReset l
     in wl_thread l' \<and> w_timer (wl_writer l') \<and> \<not> wl_owned l' \<and> w_queue (wl_writer l') = w_queue (wl_writer l)) \<and>
    worker_thread_start True (CdrWriter_construct True db) = Aborted"
proof -
  have "wl_thread l0" "w_timer (wl_writer l0)"
    using start by (auto simp: worker_thread_start_def startSqlTimer_def take_ownership_def CdrWriter_construct_def)
  then have "wl_thread (fold (worker_event_handler drv heap) es l0) \<and> w_timer (wl_writer (fold (worker_event_handler drv heap) es l0))"
    by (induction es arbitrary: l0) (simp_all add: worker_event_keeps)
  then show ?thesis
    by (auto simp: worker_event_handler_def Let_def worker_thread_start_def startSqlTimer_def CdrWriter_construct_def)
qed

theorem writer_outlives_owner_witness:
  "\<exists>l0. worker_thread_start True (take_ownership (CdrWriter_construct True empty_db)) = Ret l0 \<and>
     (let l = fold (worker_event_handler mysql_driver (\<lambda>p. example_cdr call_cleared 0 1371000060)) [CdrPosted 0, CdrPosted 1] l0;
          l' = worker_event_handler mysql_driver (\<lambda>p. example_cdr call_cleared 0 1371000060) OwnerReset l
      in w_queue (wl_writer l') = [0, 1] \<and> wl_thread l')"
proof -
  obtain l0 where l0: "worker_thread_start True (take_ownership (CdrWriter_construct True empty_db)) = Ret l0"
    "wl_owned l0" "w_queue (wl_writer l0) = []"
    by (simp add: worker_thread_start_def startSqlTimer_def take_ownership_def CdrWriter_construct_def CdrWriter_new_def)
  have "w_queue (wl_writer (fold (worker_event_handler mysql_driver (\<lambda>p. example_cdr call_cleared 0 1371000060)) [CdrPosted 0, CdrPosted 1] l0)) = [0, 1]"
    using l0 by (simp add: worker_event_handler_def postCdr_def Let_def)
  with writer_outlives_owner [OF l0(1), where drv = mysql_driver and heap = "\<lambda>p. example_cdr call_cleared 0 1371000060" and
      es = "[CdrPosted 0, CdrPosted 1]"] l0(1)
  show ?thesis by (simp add: Let_def)
qed

end
