(* ===== verification/Program.thy ===== *)
theory Program
  imports Startup Fs_Pool Logging Stats_Port Db_Test Cdr_Worker
begin

text \<open>
  The program as a whole: \<open>main\<close> (\<open>main.cpp\<close>), \<open>daemonize\<close> and \<open>run\<close> (\<open>ssp-controller.cpp\<close>) from the
  command line to the end of the event loop, with every way out of them. What the operating system
  and the SIP stack answer is a parameter; the result is the list of what the program did, in
  order, and how it ended. What happens in the event loop is the subject of the other theories.
\<close>

section \<open>The surroundings\<close>

record os_env =
  os_fork :: int
  os_getpwnam :: "string \<Rightarrow> nat option"
  os_setuid :: int
  os_errno :: int
  os_setsid :: int
  os_chdir :: int

record sofia_env =
  so_su_init :: int
  so_root :: bool
  so_home :: bool
  so_mclass :: int
  so_agent :: bool
  so_leg :: bool
  so_contact :: agent_contact

datatype program_action =
  PrintPid int | SetUid nat | PrintError string | SetUmask nat | NewSession | ChangeDir string | CloseStandardFiles
  | StartLog log_sink | WriteLog "severity_levels \<times> string" | OpenStatsPort string u32 | OpenCdrWriter | RunDbTest
  | InitStack | CreateRoot | CreateHome | RedirectStackLog u32 | CreateAgent agent_mode string | CreateDefaultLeg
  | CreateDefaultOutgoing | StartMonitor "fs_action list" | StartWatchdog nat | EventLoop | StopMonitor
  | DestroyRoot | ReleaseHome | DeinitStack | DropConfig | StopLog

datatype run_end = ExitProcess int | EarlyReturn | LoopEnded

definition show_int :: "int \<Rightarrow> string" where
  "show_int n = (if n < 0 then ''-'' else []) @ show_nat (nat (abs n))"

section \<open>The daemon\<close>

text \<open>The parent prints the number of the child and ends; \<open>None\<close> is the child that goes on.\<close>

definition daemonize :: "os_env \<Rightarrow> string \<Rightarrow> program_action list \<times> int option" where
  "daemonize os user =
     (if os_fork os < 0 then ([], Some 1)
      else if os_fork os > 0 then ([PrintPid (os_fork os)], Some 0)
      else
        let uid = (if user = [] then None else os_getpwnam os user);
            acts = (case uid of
                      None \<Rightarrow> []
                    | Some u \<Rightarrow> SetUid u #
                        (if os_setuid os \<noteq> 0 then [PrintError (''Error setting userid to user '' @ user @ '': '' @ show_int (os_errno os) @ endl)] else [])) @
                   [SetUmask 0, NewSession]
        in if os_setsid os < 0 then (acts, Some 1)
           else if os_chdir os < 0 then (acts @ [ChangeDir ''/tmp''], Some 1)
           else (acts @ [ChangeDir ''/tmp'', CloseStandardFiles], None))"

section \<open>Start, event loop and end\<close>

text \<open>\<open>m_my_via\<close>.\<close>

definition my_via :: "agent_contact \<Rightarrow> string" where
  "my_via contact = ''SIP/2.0/UDP '' @ my_host contact @ (case my_port contact of None \<Rightarrow> [] | Some p \<Rightarrow> '':'' @ p)"

text \<open>The log, the statistics port and the writer.\<close>

definition open_services :: "controller \<Rightarrow> program_action list" where
  "open_services c =
     StartLog (initializeLogging c) # map WriteLog (logConfig c) @
     (if m_statsPort (c_config c) \<noteq> 0 then [OpenStatsPort (m_statsAddress (c_config c)) (m_statsPort (c_config c))] else []) @
     (if getCdrConnectInfo (c_config c) \<noteq> None then [OpenCdrWriter]
      else [WriteLog (log_notice, ''Call detail records will not be written, as database connectivity has not been provided'' @ endl)])"

text \<open>
  The SIP stack up to the agent; \<open>None\<close> is a failure that is logged. The buffer for the address has
  \<open>URL_MAXLEN\<close> bytes, the copy as many as the address.
\<close>

definition create_agent :: "sofia_env \<Rightarrow> ssp_config \<Rightarrow> (program_action list \<times> bool) outcome" where
  "create_agent so cfg =
     (let url = m_sipUrl cfg; failed = (\<lambda>msg. WriteLog (log_error, msg @ endl));
          a1 = [WriteLog (log_notice, ''starting sip stack on '' @ url @ endl), InitStack]
      in if so_su_init so < 0 then Ret (a1 @ [failed (''Error calling su_init: '' @ show_int (so_su_init so))], False)
         else if \<not> so_root so then Ret (a1 @ [CreateRoot, failed ''Error calling su_root_create: ''], False)
         else
           let a2 = a1 @ [CreateRoot, CreateHome] @ (if so_home so then [] else [failed ''Error calling su_home_create'']) @
                 [RedirectStackLog (m_nSofiaLogLevel cfg)]
           in if \<not> length url < URL_MAXLEN then Undefined
              else if so_mclass so < 0 then Ret (a2 @ [failed ''Error calling sip_update_default_mclass''], False)
              else
                let a3 = a2 @ [CreateAgent (m_agent_mode cfg) url]
                in if \<not> so_agent so then Ret (a3 @ [failed ''Error calling nta_agent_create''], False)
                   else if m_agent_mode cfg = agent_mode_stateless then Ret (a3, True)
                   else if \<not> so_leg so then Ret (a3 @ [CreateDefaultLeg, failed ''Error creating default leg''], False)
                   else Ret (a3 @ [CreateDefaultLeg, CreateDefaultOutgoing], True))"

definition serve_actions :: "agent_contact \<Rightarrow> fs_action list \<Rightarrow> program_action list" where
  "serve_actions contact ms =
     [WriteLog (log_debug, ''My via header: '' @ my_via contact @ endl), StartMonitor ms, StartWatchdog 10000,
      WriteLog (log_notice, ''Starting sofia event loop'' @ endl), EventLoop,
      WriteLog (log_notice, ''Sofia event loop ended'' @ endl), StopMonitor, DestroyRoot, ReleaseHome, DeinitStack,
      DropConfig, StopLog]"

definition ssp_run ::
  "os_env \<Rightarrow> sofia_env \<Rightarrow> string \<Rightarrow> (nat \<Rightarrow> string) \<Rightarrow> (nat \<Rightarrow> nat \<Rightarrow> time_t) \<Rightarrow> cmd_args \<Rightarrow> controller \<Rightarrow>
   (program_action list \<times> run_end \<times> controller) outcome" where
  "ssp_run os so version uuid now v c =
     (case (if arg_bDaemonize v then daemonize os (arg_user v) else ([], None)) of
        (a0, Some code) \<Rightarrow> Ret (a0, ExitProcess code, c)
      | (a0, None) \<Rightarrow>
          let a1 = a0 @ open_services c; c1 = create_writer c
          in if arg_bDbTest v then obind (runDbTest uuid now c1) (\<lambda>c2. Ret (a1 @ [RunDbTest], EarlyReturn, c2))
             else
               obind (create_agent so (c_config c1)) (\<lambda>(a2, created).
                 if \<not> created then Ret (a1 @ a2, EarlyReturn, c1)
                 else
                   obind (start_monitor (generateUserAgent version (c1\<lparr>c_my := so_contact so\<rparr>))) (\<lambda>(ms, c2).
                     Ret (a1 @ a2 @ serve_actions (so_contact so) ms, LoopEnded, c2))))"

text \<open>\<open>main\<close>: whatever \<open>run\<close> returns from, the exit status is 0.\<close>

definition ssp_main ::
  "(string \<Rightarrow> ssp_config) \<Rightarrow> os_env \<Rightarrow> sofia_env \<Rightarrow> string \<Rightarrow> (nat \<Rightarrow> string) \<Rightarrow> (nat \<Rightarrow> nat \<Rightarrow> time_t) \<Rightarrow> ssp_arg list \<Rightarrow>
   (program_action list \<times> int) outcome" where
  "ssp_main read_config os so version uuid now args =
     (case SipLbController_start read_config args of
        Exited code \<Rightarrow> Ret ([], code)
      | Running v c \<Rightarrow>
          obind (ssp_run os so version uuid now v c) (\<lambda>(acts, e, c').
            Ret (acts, case e of ExitProcess code \<Rightarrow> code | _ \<Rightarrow> 0)))"

section \<open>How the program ends\<close>

text \<open>The process goes on after \<open>daemonize\<close>, and the stack can be started.\<close>

definition process_ready :: "os_env \<Rightarrow> cmd_args \<Rightarrow> bool" where
  "process_ready os v \<longleftrightarrow> (arg_bDaemonize v \<longrightarrow> os_fork os = 0 \<and> 0 \<le> os_setsid os \<and> 0 \<le> os_chdir os)"

definition stack_ready :: "sofia_env \<Rightarrow> ssp_config \<Rightarrow> bool" where
  "stack_ready so cfg \<longleftrightarrow> 0 \<le> so_su_init so \<and> so_root so \<and> 0 \<le> so_mclass so \<and> so_agent so \<and>
     (m_agent_mode cfg = agent_mode_stateless \<or> so_leg so)"

lemma daemonize_goes_on:
  "snd (if arg_bDaemonize v then daemonize os (arg_user v) else ([], None)) = None \<longleftrightarrow> process_ready os v"
  "EventLoop \<notin> set (fst (if arg_bDaemonize v then daemonize os (arg_user v) else ([], None)))"
  by (auto simp: daemonize_def process_ready_def Let_def split: option.splits)

lemma open_services_loop: "EventLoop \<notin> set (open_services c)"
  by (auto simp: open_services_def)

lemma create_agent_result:
  assumes "length (m_sipUrl cfg) < URL_MAXLEN"
  obtains acts where "create_agent so cfg = Ret (acts, stack_ready so cfg)" "EventLoop \<notin> set acts"
    "\<not> stack_ready so cfg \<Longrightarrow> \<exists>msg. WriteLog (log_error, msg) \<in> set acts"
proof -
  have "\<exists>acts. create_agent so cfg = Ret (acts, stack_ready so cfg) \<and> EventLoop \<notin> set acts \<and>
      (stack_ready so cfg \<or> (\<exists>msg. WriteLog (log_error, msg) \<in> set acts))"
    using assms unfolding create_agent_def stack_ready_def Let_def by (auto simp: not_less)
  then show thesis using that by blast
qed

lemma create_writer_config [simp]: "c_config (create_writer c) = c_config c"
  by (simp add: create_writer_def)

lemma ssp_run_ready:
  assumes "process_ready os v" "\<not> arg_bDbTest v" "length (m_sipUrl (c_config c)) < URL_MAXLEN"
  obtains a0 a2 where "ssp_run os so version uuid now v c =
      (if stack_ready so (c_config c)
       then obind (run_agent (so_contact so) version c) (\<lambda>(ms, c2).
         Ret (a0 @ open_services c @ a2 @ serve_actions (so_contact so) ms, LoopEnded, c2))
       else Ret (a0 @ open_services c @ a2, EarlyReturn, create_writer c))"
    "EventLoop \<notin> set (a0 @ open_services c @ a2)"
    "\<not> stack_ready so (c_config c) \<Longrightarrow> \<exists>msg. WriteLog (log_error, msg) \<in> set a2"
proof -
  obtain a0 where a0: "(if arg_bDaemonize v then daemonize os (arg_user v) else ([], None)) = (a0, None)"
    "EventLoop \<notin> set a0"
    using daemonize_goes_on [of v os] assms(1) by (metis prod.collapse)
  obtain a2 where a2: "create_agent so (c_config c) = Ret (a2, stack_ready so (c_config c))" "EventLoop \<notin> set a2"
    "\<not> stack_ready so (c_config c) \<Longrightarrow> \<exists>msg. WriteLog (log_error, msg) \<in> set a2"
    using create_agent_result [OF assms(3), of so] by blast
  show thesis
    by (rule that [of a0 a2]) (use a0 a2 assms(2) open_services_loop in \<open>auto simp: ssp_run_def run_agent_def Let_def\<close>)
qed


text \<open>A start for the examples: everything works but what is changed in it.\<close>

definition ex_os :: os_env where
  "ex_os = \<lparr>os_fork = 0, os_getpwnam = (\<lambda>u. None), os_setuid = 0, os_errno = 0, os_setsid = 7, os_chdir = 0\<rparr>"

definition ex_sofia :: sofia_env where
  "ex_sofia = \<lparr>so_su_init = 0, so_root = True, so_home = True, so_mclass = 0, so_agent = True, so_leg = True,
     so_contact = \<lparr>my_host = ''10.0.0.1'', my_port = None\<rparr>\<rparr>"

lemma ex_program_start:
  obtains v c where "SipLbController_start (\<lambda>f. ex_config\<lparr>m_bIsValid := True\<rparr>) [opt_daemon] = Running v c"
    "arg_bDaemonize v" "\<not> arg_bDbTest v" "c = SipLbController_new (ex_config\<lparr>m_bIsValid := True\<rparr>) (- 1)"
    "length (m_sipUrl (c_config c)) < URL_MAXLEN" "process_ready ex_os v"
  by (simp add: SipLbController_start_def cmd_args_initial_def SipLbController_new_def installConfig_def Let_def ex_config_def
    two_carriers_def initial_config_def process_ready_def ex_os_def)


text \<open>
  A program that cannot start its SIP stack reports success: when any part of the stack fails
  at the start, the error is logged, the program never serves a call, and yet \<open>main\<close> returns 0, as
  it does after a regular end.
\<close>

theorem failed_stack_exits_with_success:
  assumes start: "SipLbController_start read_config args = Running v c"
    and url: "length (m_sipUrl (c_config c)) < URL_MAXLEN"
    and ready: "process_ready os v" "\<not> arg_bDbTest v" and broken: "\<not> stack_ready so (c_config c)"
  shows "\<exists>acts msg. ssp_main read_config os so version uuid now args = Ret (acts, 0) \<and> EventLoop \<notin> set acts \<and>
    WriteLog (log_error, msg) \<in> set acts"
proof -
  obtain a0 a2 where "ssp_run os so version uuid now v c = Ret (a0 @ open_services c @ a2, EarlyReturn, create_writer c)"
    "EventLoop \<notin> set (a0 @ open_services c @ a2)" "\<exists>msg. WriteLog (log_error, msg) \<in> set a2"
    by (rule ssp_run_ready [OF ready url, of so version uuid now]) (use broken in auto)
  then show ?thesis using start by (auto simp: ssp_main_def)
qed

theorem failed_stack_exits_with_success_witness:
  "\<exists>acts msg. ssp_main (\<lambda>f. ex_config\<lparr>m_bIsValid := True\<rparr>) ex_os (ex_sofia\<lparr>so_agent := False\<rparr>) ''1.0'' show_nat (\<lambda>i k. 0) [opt_daemon] =
     Ret (acts, 0) \<and> EventLoop \<notin> set acts \<and> WriteLog (log_error, msg) \<in> set acts"
proof -
  obtain v c where s: "SipLbController_start (\<lambda>f. ex_config\<lparr>m_bIsValid := True\<rparr>) [opt_daemon] = Running v c"
    "\<not> arg_bDbTest v" "length (m_sipUrl (c_config c)) < URL_MAXLEN" "process_ready ex_os v"
    by (rule ex_program_start)
  have "\<not> stack_ready (ex_sofia\<lparr>so_agent := False\<rparr>) (c_config c)" by (simp add: stack_ready_def)
  from failed_stack_exits_with_success [OF s(1,3,4,2) this] show ?thesis .
qed

end
