(* ===== verification/Fs_Spoofer.thy ===== *)
theory Fs_Spoofer
  imports Fs_Instance
begin

text \<open>
  \<open>fs-spoofer.cpp\<close>, a stand-in for a FreeSWITCH server that the load balancer can be run against:
  its messages and the handlers that send them. The interface \<open>event_socket\<close> says what
  \<open>FsInstance\<close> relies on in a server; under it a connection comes online, and the spoofer
  provides it.
\<close>

section \<open>Messages and handlers\<close>

definition authRequest :: string where
  "authRequest = ''Content-Type: auth/request\<newline>\<newline>''"

definition replyOk :: string where
  "replyOk = ''Content-Type: command/reply\<newline>Reply-Text: +OK accepted\<newline>\<newline>''"

text \<open>The lines of the two replies with content, each followed by an empty line.\<close>

definition sofia_lines :: "string \<Rightarrow> string list" where
  "sofia_lines spoofAddress =
     [''                     Name          Type                                       Data      State'',
      ''================================================================================================='',
      ''           '' @ spoofAddress @ ''         alias                                   internal      ALIASED'',
      ''                 internal       profile          sip:mod_sofia@'' @ spoofAddress @ ''      RUNNING (0)'',
      ''                 external       profile          sip:mod_sofia@'' @ spoofAddress @ ''      RUNNING (0)'',
      ''    external::example.com       gateway                    sip:joeuser@example.com      NOREG'',
      ''            internal-ipv6       profile                   sip:mod_sofia@[::1]:5060      RUNNING (0)'',
      ''================================================================================================='',
      ''3 profiles 1 alias'']"

definition sofiaStatus :: "string \<Rightarrow> string" where
  "sofiaStatus spoofAddress =
     ''Content-Type: api/response\<newline>'' @ ''Content-Length: '' @
     show_u64 (783 + 3 * (word_of_nat (length spoofAddress) - 12)) @ newline @ newline @
     unlines (sofia_lines spoofAddress) @ newline"

definition status_lines :: "string list" where
  "status_lines =
     [''UP 0 years, 1 day, 12 hours, 16 minutes, 39 seconds, 678 milliseconds, 919 microseconds'',
      ''FreeSWITCH (Version 1.2.10 git f4efa96 2013-06-05 16:21:38Z) is ready'',
      ''39 session(s) since startup'',
      ''0 session(s) - 0 out of max 30 per sec'',
      ''1000 session(s) max'',
      ''min idle cpu 0.00/100.00'',
      ''Current Stack Size/Max 240K/8192K'']"

definition apiStatus :: string where
  "apiStatus =
     ''Content-Type: api/response\<newline>'' @ ''Content-Length: 304\<newline>\<newline>'' @ unlines status_lines @ newline"

text \<open>\<open>read_handler\<close> of the spoofer: what it writes for the characters it has read, if anything.\<close>

definition spoofer_read_handler :: "string \<Rightarrow> string \<Rightarrow> string option" where
  "spoofer_read_handler spoofAddress s =
     (if starts_with ''auth ClueCon'' s then Some replyOk
      else if starts_with ''api sofia status'' s then Some (sofiaStatus spoofAddress)
      else if starts_with ''api status'' s then Some apiStatus
      else None)"

text \<open>\<open>accept_handler\<close>: what it writes to a new connection, if it was accepted.\<close>

definition accept_handler :: "bool \<Rightarrow> string option" where
  "accept_handler success = (if success then Some authRequest else None)"

text \<open>The arguments as \<open>getopt_long\<close> delivers them; without an address the program ends with -1.\<close>

datatype spoofer_arg = spoofer_opt_address string | spoofer_opt_unknown

fun spoofAddress_of :: "spoofer_arg list \<Rightarrow> string \<Rightarrow> string" where
  "spoofAddress_of [] spoofAddress = spoofAddress"
| "spoofAddress_of (spoofer_opt_address optarg # args) spoofAddress = spoofAddress_of args optarg"
| "spoofAddress_of (spoofer_opt_unknown # args) spoofAddress = spoofAddress_of args spoofAddress"

definition spoofer_parseCmdArgs :: "spoofer_arg list \<Rightarrow> string option" where
  "spoofer_parseCmdArgs args =
     (let spoofAddress = spoofAddress_of args [] in if spoofAddress = [] then None else Some spoofAddress)"

section \<open>A conversation\<close>

text \<open>
  A connection reads what the server wrote, and the server answers what the connection writes, at
  most \<open>n\<close> times, each message in one read.
\<close>

fun converse :: "(string \<Rightarrow> string option) \<Rightarrow> u64 \<Rightarrow> nat \<Rightarrow> string \<Rightarrow> FsInstance \<Rightarrow> FsInstance outcome" where
  "converse answer h 0 data fs = Ret fs"
| "converse answer h (Suc n) data fs =
     obind (read_handler h fs (Some data)) (\<lambda>(acts, fs1).
       case List.map_filter (\<lambda>act. case act of WriteSocket s \<Rightarrow> answer s | _ \<Rightarrow> None) acts of
         [] \<Rightarrow> Ret fs1
       | r # _ \<Rightarrow> converse answer h n r fs1)"

text \<open>What a connection relies on in a server.\<close>

locale event_socket =
  fixes greeting :: string and answer :: "string \<Rightarrow> string option"
    and address :: string and port cur mx :: u32
  assumes greets: "m_bComplete (append_data fsmsg_reset greeting) \<and> m_category (append_data fsmsg_reset greeting) = auth"
    and accepts: "\<exists>r. answer (''auth ClueCon'' @ crlf @ crlf) = Some r \<and> m_bComplete (append_data fsmsg_reset r) \<and>
      m_category (append_data fsmsg_reset r) = command \<and> m_replyStatus (append_data fsmsg_reset r) = ok"
    and lists_profiles: "\<exists>r. answer (''api sofia status'' @ crlf @ crlf) = Some r \<and> m_bComplete (append_data fsmsg_reset r) \<and>
      m_category (append_data fsmsg_reset r) = api \<and> m_type (append_data fsmsg_reset r) = response \<and>
      getSipProfile (append_data fsmsg_reset r) ''internal'' = Ret (Some (address, port))"
    and reports_status: "\<exists>r. answer (''api status'' @ crlf @ crlf) = Some r \<and> m_bComplete (append_data fsmsg_reset r) \<and>
      m_category (append_data fsmsg_reset r) = api \<and> m_type (append_data fsmsg_reset r) = response \<and>
      (\<forall>c x. getFsStatus (append_data fsmsg_reset r) c x = Ret (True, cur, mx))"
begin

text \<open>One step of the conversation in each state.\<close>

lemma greeted:
  assumes "fs_state fs = waiting_for_greeting" "fs_fsMsg fs = fsmsg_reset"
  shows "read_handler h fs (Some greeting) = Ret ([WriteSocket (''auth ClueCon'' @ crlf @ crlf), AsyncRead],
    fs\<lparr>fs_state := authenticating\<rparr>)"
  using assms greets
  by (simp add: read_handler_def Let_def decide_def nothing_decided_def carry_out_def)

lemma authenticated:
  assumes "fs_state fs = authenticating" "fs_fsMsg fs = fsmsg_reset" "answer (''auth ClueCon'' @ crlf @ crlf) = Some r"
  shows "read_handler h fs (Some r) = Ret ([WriteSocket (''api sofia status'' @ crlf @ crlf), AsyncRead],
    fs\<lparr>fs_state := obtaining_sip_configuration\<rparr>)"
  using assms accepts
  by (auto simp: read_handler_def Let_def decide_def nothing_decided_def carry_out_def)

lemma profile_found:
  assumes "fs_state fs = obtaining_sip_configuration" "fs_fsMsg fs = fsmsg_reset"
    "answer (''api sofia status'' @ crlf @ crlf) = Some r"
  shows "read_handler h fs (Some r) =
    Ret ([NotifySipServerAddress (fs_strAddress fs) address port, WriteSocket (''api status'' @ crlf @ crlf), AsyncRead],
      fs\<lparr>fs_strSipAddress := address, fs_nSipPort := port, fs_state := querying_status\<rparr>)"
  using assms lists_profiles
  by (auto simp: read_handler_def Let_def decide_def nothing_decided_def carry_out_def)

lemma status_known:
  assumes "fs_state fs = querying_status" "fs_fsMsg fs = fsmsg_reset" "\<not> fs_bReloadingXml fs" "\<not> fs_bDisconnected fs"
    "answer (''api status'' @ crlf @ crlf) = Some r"
  shows "read_handler h fs (Some r) = Ret ([StartTimer h], fs\<lparr>fs_nCurrentSessions := cur, fs_nMaxSessions := mx\<rparr>)"
  using assms reports_status
  by (auto simp: read_handler_def Let_def decide_def nothing_decided_def carry_out_def)

lemma comes_online:
  assumes "fs_state fs = waiting_for_greeting" "fs_fsMsg fs = fsmsg_reset" "\<not> fs_bReloadingXml fs" "\<not> fs_bDisconnected fs"
  shows "converse answer h 4 greeting fs =
    Ret (fs\<lparr>fs_state := querying_status, fs_strSipAddress := address, fs_nSipPort := port,
      fs_nCurrentSessions := cur, fs_nMaxSessions := mx\<rparr>)"
proof -
  let ?fs1 = "fs\<lparr>fs_state := authenticating\<rparr>" and ?fs2 = "fs\<lparr>fs_state := obtaining_sip_configuration\<rparr>"
  let ?fs3 = "fs\<lparr>fs_strSipAddress := address, fs_nSipPort := port, fs_state := querying_status\<rparr>"
  obtain r1 r2 r3 where r: "answer (''auth ClueCon'' @ crlf @ crlf) = Some r1"
    "answer (''api sofia status'' @ crlf @ crlf) = Some r2" "answer (''api status'' @ crlf @ crlf) = Some r3"
    using accepts lists_profiles reports_status by blast
  note steps = greeted [OF assms(1,2), of h] authenticated [of ?fs1 r1 h] profile_found [of ?fs2 r2 h]
    status_known [of ?fs3 r3 h]
  show ?thesis using assms r steps by (simp add: eval_nat_numeral List.map_filter_simps)
qed

end

section \<open>The spoofer as a server\<close>

text \<open>The address it is given: a host and a port, as in its usage text.\<close>

definition spoof_address_ok :: "string \<Rightarrow> bool" where
  "spoof_address_ok host \<longleftrightarrow> host \<noteq> [] \<and> length host < 65536 \<and>
     set host \<inter> set ('' @:'' @ [CHR 0x09, CHR 0x0A]) = {}"

abbreviation spoof_address :: "string \<Rightarrow> u32 \<Rightarrow> string" where
  "spoof_address host port \<equiv> host @ '':'' @ show_u32 port"

lemma show_nat_no_delim: "set (show_nat n) \<inter> set ('' @:'' @ [CHR 0x09, CHR 0x0A]) = {}"
  using show_nat_digits by (fastforce simp: is_digit_def)

lemma spoof_address_chars:
  assumes "spoof_address_ok host"
  shows "set (spoof_address host port) \<inter> set ('' @'' @ [CHR 0x09, CHR 0x0A]) = {}"
  using assms show_nat_no_delim [of "unat port"] by (auto simp: spoof_address_ok_def show_u32_def)

lemma length_show_nat: "n < 10 ^ Suc k \<Longrightarrow> length (show_nat n) \<le> Suc k"
proof (induction k arbitrary: n)
  case 0
  then show ?case by (subst show_nat.simps) simp
next
  case (Suc k)
  then have "length (show_nat (n div 10)) \<le> Suc k" by (intro Suc.IH) (simp add: less_mult_imp_div_less)
  then show ?case by (subst show_nat.simps) simp
qed

lemma length_spoof_address: "spoof_address_ok host \<Longrightarrow> length (spoof_address host port) < 2 ^ 30"
  using length_show_nat [of "unat port" 9] unsigned_less [of port, where 'a = nat]
  by (simp add: spoof_address_ok_def show_u32_def)

text \<open>The content length that is sent is the length of the lines without the empty one at the end.\<close>

lemma sofiaStatus_header:
  assumes "length a < 2 ^ 30"
  shows "sofiaStatus a = api_header (word_of_nat (747 + 3 * length a)) @ unlines (sofia_lines a) @ newline"
    "length (unlines (sofia_lines a)) = unat (word_of_nat (747 + 3 * length a) :: u32)"
    "(word_of_nat (747 + 3 * length a) :: u32) \<noteq> 0"
proof -
  have w: "783 + 3 * (word_of_nat (length a) - 12) = (word_of_nat (747 + 3 * length a) :: u64)" by (simp add: algebra_simps)
  have u: "unat (word_of_nat (747 + 3 * length a) :: u64) = 747 + 3 * length a"
    "unat (word_of_nat (747 + 3 * length a) :: u32) = 747 + 3 * length a"
    using assms by (simp_all only: unat_of_nat) (simp_all add: take_bit_eq_mod)
  show "sofiaStatus a = api_header (word_of_nat (747 + 3 * length a)) @ unlines (sofia_lines a) @ newline"
    by (simp only: sofiaStatus_def api_header_def show_u64_def show_u32_def w u append_assoc) simp
  show "length (unlines (sofia_lines a)) = unat (word_of_nat (747 + 3 * length a) :: u32)"
    by (simp only: u(2)) (simp add: unlines_def sofia_lines_def)
  show "(word_of_nat (747 + 3 * length a) :: u32) \<noteq> 0" using u(2) by (metis add_is_0 unat_0 zero_neq_numeral)
qed

lemma sofia_lines_ok: "spoof_address_ok host \<Longrightarrow> \<forall>l \<in> set (sofia_lines (spoof_address host port)). is_line l"
  using spoof_address_chars [of host port] by (auto simp: sofia_lines_def is_line_def)

lemma sofia_profile_lines:
  assumes a: "set a \<inter> set ('' '' @ [CHR 0x09]) = {}" and internal: "a \<noteq> ''internal''" "a \<noteq> []"
    and us: "tokenize ''@:'' a = [host, port]"
  shows "sip_profile_lines ''internal'' (sofia_lines a) = Ret (Some (host, atoi port))"
proof -
  have "tokenize ('' '' @ [CHR 0x09]) (''           '' @ a @ ''         alias                                   internal      ALIASED'') =
      [a, ''alias'', ''internal'', ''ALIASED'']"
    using a internal by (simp add: tokenize_def tokens_from_run [where d = "'' '' @ [CHR 0x09]", simplified])
  moreover have "tokenize ('' '' @ [CHR 0x09]) (''                 internal       profile          sip:mod_sofia@'' @ a @ ''      RUNNING (0)'') =
      [''internal'', ''profile'', ''sip:mod_sofia@'' @ a, ''RUNNING'', ''(0)'']"
    using a internal by (simp add: tokenize_def tokens_from_run [where d = "'' '' @ [CHR 0x09]", simplified])
  moreover have "tokenize ''@:'' (''sip:mod_sofia@'' @ a) = [''sip'', ''mod_sofia'', host, port]"
    using us by (simp add: tokenize_def)
  ultimately show ?thesis using internal
    by (simp add: sofia_lines_def token_at_def Let_def tokenize_def)
qed

lemma authRequest_parsed:
  "m_bComplete (append_data fsmsg_reset authRequest)" "m_category (append_data fsmsg_reset authRequest) = auth"
  by (simp_all add: authRequest_def append_data_def parse_def parse_line_def parse_content_type_def fsmsg_finished_def
      fsmsg_reset_def parse_category_def parse_type_def string_eval)

lemma replyOk_parsed:
  "m_bComplete (append_data fsmsg_reset replyOk)" "m_category (append_data fsmsg_reset replyOk) = command"
  "m_replyStatus (append_data fsmsg_reset replyOk) = ok"
  by (simp_all add: replyOk_def append_data_def parse_def parse_line_def parse_content_type_def parse_reply_text_def
      fsmsg_finished_def fsmsg_reset_def parse_category_def parse_type_def string_eval)

lemma sofiaStatus_parsed:
  fixes host :: string and port :: u32
  assumes host: "spoof_address_ok host"
  defines "m \<equiv> append_data fsmsg_reset (sofiaStatus (spoof_address host port))"
  shows "m_bComplete m" "m_category m = api" "m_type m = response"
    "getSipProfile m ''internal'' = Ret (Some (host, port))"
proof -
  let ?a = "spoof_address host port"
  note chars = spoof_address_chars [OF host, of port]
  have "CHR '':'' \<notin> set ''internal''" by simp
  then have ne: "?a \<noteq> ''internal''" by (metis in_set_conv_decomp append_Cons append_Nil)
  have "tokenize ''@:'' ?a = [host, show_u32 port]"
  proof -
    have "set host \<inter> set ''@:'' = {}" "host \<noteq> []" using host by (auto simp: spoof_address_ok_def)
    moreover have "set (show_u32 port) \<inter> set ''@:'' = {}"
      using show_nat_no_delim [of "unat port"] by (auto simp: show_u32_def)
    then have "tokenize ''@:'' (show_u32 port) = [show_u32 port]" by (intro tokenize_single) (simp_all add: show_u32_def)
    ultimately show ?thesis using tokenize_token [of host "''@:''" "CHR '':''" "show_u32 port"] by simp
  qed
  moreover have "set ?a \<inter> set ('' '' @ [CHR 0x09]) = {}" using chars by auto
  ultimately have prof: "sip_profile_lines ''internal'' (sofia_lines ?a) = Ret (Some (host, port))"
    using sofia_profile_lines [of ?a host "show_u32 port"] ne by simp
  have "tokenize newline newline = []" by (simp add: tokenize_def)
  then have m: "m = fsmsg_reset\<lparr>m_category := api, m_type := response, m_nContentLength := word_of_nat (747 + 3 * length ?a),
      m_strContent := unlines (sofia_lines ?a), m_rawMsg := sofiaStatus ?a, m_bValid := True, m_bComplete := True\<rparr>"
    using append_api_first [OF sofiaStatus_header(3) [OF length_spoof_address [OF host, of port]] sofia_lines_ok [OF host, of port]]
      sofiaStatus_header(1,2) [OF length_spoof_address [OF host, of port]]
    by (simp only: m_def) simp
  then show "m_bComplete m" "m_category m = api" "m_type m = response" by simp_all
  show "getSipProfile m ''internal'' = Ret (Some (host, port))"
    using tokenize_unlines [OF sofia_lines_ok [OF host, of port], of "[]"] prof by (simp add: m getSipProfile_def)
qed

lemma apiStatus_parsed:
  "m_bComplete (append_data fsmsg_reset apiStatus)" "m_category (append_data fsmsg_reset apiStatus) = api"
  "m_type (append_data fsmsg_reset apiStatus) = response" "getFsStatus (append_data fsmsg_reset apiStatus) c x = Ret (True, 0, 1000)"
proof -
  have lines: "\<forall>l \<in> set status_lines. is_line l" by (simp add: status_lines_def is_line_def)
  have "apiStatus = api_header 304 @ unlines status_lines @ newline"
    by (simp add: apiStatus_def api_header_def string_eval)
  moreover have "length (unlines status_lines) = unat (304 :: u32)" by (simp add: unlines_def status_lines_def)
  moreover have "tokenize newline newline = []" by (simp add: tokenize_def)
  ultimately have m: "append_data fsmsg_reset apiStatus = fsmsg_reset\<lparr>m_category := api, m_type := response,
      m_nContentLength := 304, m_strContent := unlines status_lines, m_rawMsg := apiStatus, m_bValid := True, m_bComplete := True\<rparr>"
    using append_api_first [OF _ lines, of 304 newline] by simp
  then show "m_bComplete (append_data fsmsg_reset apiStatus)" "m_category (append_data fsmsg_reset apiStatus) = api"
    "m_type (append_data fsmsg_reset apiStatus) = response" by simp_all
  show "getFsStatus (append_data fsmsg_reset apiStatus) c x = Ret (True, 0, 1000)"
    by (rule getFsStatus_counts [OF lines, of 0 "''session(s) - 0 out of max 30 per sec''" 1000 "''session(s) max''"])
      (simp_all add: m status_lines_def count_line_def string_eval)
qed

lemma spoofer_event_socket:
  assumes "spoof_address_ok host"
  shows "event_socket authRequest (spoofer_read_handler (spoof_address host port)) host port 0 1000"
  using authRequest_parsed replyOk_parsed sofiaStatus_parsed [OF assms, of port] apiStatus_parsed
  by unfold_locales (simp_all add: spoofer_read_handler_def starts_with_def)

text \<open>The spoofer at the address of its usage text.\<close>

interpretation spoofer: event_socket authRequest "spoofer_read_handler ''10.10.2.35:5060''" "''10.10.2.35''" 5060 0 1000
  using spoofer_event_socket [of "''10.10.2.35''" 5060] by (simp add: spoof_address_ok_def string_eval)

text \<open>
  A connection to the spoofer comes online: from its greeting on, four messages, each answered
  by the handler of the other side and read at once, end with the SIP address the spoofer was
  started with and no session of 1000 in use, and the server is available for calls.
\<close>

theorem spoofer_brings_online:
  assumes "spoof_address_ok host" "fs_state fs = waiting_for_greeting" "fs_fsMsg fs = fsmsg_reset"
    "\<not> fs_bReloadingXml fs" "\<not> fs_bDisconnected fs"
  shows "\<exists>fs'. converse (spoofer_read_handler (spoof_address host port)) h 4 (the (accept_handler True)) fs = Ret fs' \<and>
    fs_state fs' = querying_status \<and> fs_strSipAddress fs' = host \<and> fs_nSipPort fs' = port \<and>
    fs_nCurrentSessions fs' = 0 \<and> fs_nMaxSessions fs' = 1000 \<and> isAvailable fs'"
  using event_socket.comes_online [OF spoofer_event_socket [OF assms(1), of port] assms(2-5), of h]
  by (simp add: accept_handler_def isAvailable_def)

theorem spoofer_brings_online_witness:
  "\<exists>fs'. converse (spoofer_read_handler (spoof_address ''10.10.2.35'' 5060)) 1000 4 (the (accept_handler True))
      ((FsInstance_new ''fs1'' 8021 False)\<lparr>fs_state := waiting_for_greeting, fs_fsMsg := fsmsg_reset\<rparr>) = Ret fs' \<and>
    fs_strSipAddress fs' = ''10.10.2.35'' \<and> isAvailable fs'"
  using spoofer_brings_online [of "''10.10.2.35''"
      "(FsInstance_new ''fs1'' 8021 False)\<lparr>fs_state := waiting_for_greeting, fs_fsMsg := fsmsg_reset\<rparr>" 5060 1000]
  by (auto simp: spoof_address_ok_def FsInstance_new_def)

end
