(* ===== verification/Threads.thy ===== *)
theory Threads
  imports Program Fs_Spoofer Call_Theorems
begin

text \<open>
  The threads of the program side by side: the controller handles SIP messages and timers, the
  monitor the completions of its connections, the statistics port the commands of its clients. They
  share the controller and the servers: the controller reads the servers that the monitor changes,
  a command of a client reads both and may reset the statistics of the trunks and ask servers to
  reload. Each handler runs to its end, in any order. The writer of the records changes nothing
  the others read, and is the subject of theories of its own.
\<close>

section \<open>The shared state\<close>

record system =
  y_controller :: controller
  y_pool :: pool
  y_stats :: stats_port

text \<open>The controller as a handler finds it: its servers are those of the connections at that moment.\<close>

definition seen :: "system \<Rightarrow> controller" where
  "seen y = (y_controller y)\<lparr>c_fsMonitor := monitor_of (c_fsMonitor (y_controller y)) (y_pool y)\<rparr>"

definition system_start :: "controller \<Rightarrow> system" where
  "system_start c = \<lparr>y_controller = c, y_pool = monitor_run (pool_of (c_fsMonitor c)), y_stats = NagiosConnector_new c\<rparr>"

text \<open>
  The servers a command asks to reload, up to the first whose socket fails, and the connections
  after it: a reload writes the request and starts a read.
\<close>

definition reload_asked :: "(FsInstance list \<Rightarrow> FsInstance list) \<Rightarrow> stats_event \<Rightarrow> stats_port \<Rightarrow> FsInstance list" where
  "reload_asked sorter e s =
     (case e of
        StatsRead i data fails \<Rightarrow>
          if np_looping s \<and> map_of (np_sessions s) i = Some SessionReading \<and> is_reload_command data
          then takeWhile (\<lambda>p. \<not> fails p) (filter isOnline (sorter (getAllServers (c_fsMonitor (np_controller s)))))
          else []
      | _ \<Rightarrow> [])"

definition conn_reload :: "FsInstance list \<Rightarrow> fs_conn \<Rightarrow> fs_conn" where
  "conn_reload asked s = (if conn_fs s \<in> set asked then apply_result (reloadxml (conn_fs s)) s else s)"

definition stats_ran :: "(FsInstance list \<Rightarrow> FsInstance list) \<Rightarrow> stats_event \<Rightarrow> system \<Rightarrow> system" where
  "stats_ran sorter e y =
     (let s = (y_stats y)\<lparr>np_controller := seen y\<rparr>;
          s' = stats_event_handler sorter e s;
          p = y_pool y
      in \<lparr>y_controller = np_controller s',
          y_pool = p\<lparr>p_conns := map (conn_reload (reload_asked sorter e s)) (p_conns p)\<rparr>, y_stats = s'\<rparr>)"

text \<open>
  One handler of one thread. The monitor handles completions as long as its thread is in its loop;
  the controller replaces the statistics port when it takes a new configuration into use.
\<close>

inductive sys_step :: "u32 \<Rightarrow> system \<Rightarrow> system \<Rightarrow> bool" for R where
  call_event: "ctl_step R (seen y) c' \<Longrightarrow> sys_step R y (y\<lparr>y_controller := c'\<rparr>)"
| server_event: "p_looping (y_pool y) \<Longrightarrow>
    threadFunc (c_nFSTimerMsecs (y_controller y)) [Completion i e wr] (y_pool y) = Ret p' \<Longrightarrow>
    sys_step R y (y\<lparr>y_pool := p'\<rparr>)"
| stats_command: "sort_result name_sorter (map conn_fs (p_conns (y_pool y))) (sorter (map conn_fs (p_conns (y_pool y)))) \<Longrightarrow>
    sys_step R y (stats_ran sorter e y)"
| stats_restart: "sys_step R y (y\<lparr>y_stats := NagiosConnector_new (seen y)\<rparr>)"

inductive sys_reachable :: "u32 \<Rightarrow> system \<Rightarrow> system \<Rightarrow> bool" for R y0 where
  initial: "sys_reachable R y0 y0"
| step: "sys_reachable R y0 y \<Longrightarrow> sys_step R y y' \<Longrightarrow> sys_reachable R y0 y'"

section \<open>The joint invariant\<close>

text \<open>
  The tables of the calls, every connection, the hosts and reports of the servers with the given
  addresses, and the sessions of the statistics port.
\<close>

definition sys_inv :: "u32 \<Rightarrow> string list \<Rightarrow> system \<Rightarrow> bool" where
  "sys_inv R as y \<longleftrightarrow> ctl_inv R (y_controller y) \<and> conns_ok (y_pool y) \<and> known_hosts as (y_pool y) \<and> stats_inv (y_stats y)"

lemma ctl_inv_monitor [simp]: "ctl_inv R (c\<lparr>c_fsMonitor := m\<rparr>) = ctl_inv R c"
  by (simp add: ctl_inv_def)

lemma ctl_inv_seen [simp]: "ctl_inv R (seen y) = ctl_inv R (y_controller y)"
  by (simp add: seen_def)

lemma stats_inv_controller [simp]: "stats_inv (s\<lparr>np_controller := c\<rparr>) = stats_inv s"
  by (simp add: stats_inv_def)

lemma stats_read_inv: "stats_read_handler sorter data c = (res, acts, c') \<Longrightarrow> ctl_inv R c' = ctl_inv R c"
  by (auto simp: stats_read_handler_def processResetOutboundStatsRequest_def resetOutboundTrunkStats_def
    processFsReloadxml_def ctl_inv_def Let_def split: if_splits)

lemma stats_event_controller: "ctl_inv R (np_controller (stats_event_handler sorter e s)) = ctl_inv R (np_controller s)"
proof (cases e)
  case (StatsRead i data fails)
  then show ?thesis
    by (auto simp: stats_event_handler_def stats_session_read_def reload_before_throw_def Let_def
      dest: stats_read_inv [where R = R] split: prod.splits option.splits)
qed (simp_all add: stats_event_handler_def stats_accept_handler_def session_start_def start_accept_def stats_stop_def)

lemma conn_reload_inv: "fs_inv s \<Longrightarrow> fs_inv (conn_reload asked s)"
  by (simp add: conn_reload_def reloadxml_keeps_inv)

lemma conn_reload_fs [simp]:
  "conn_fs (conn_reload asked s) = (if conn_fs s \<in> set asked then snd (reloadxml (conn_fs s)) else conn_fs s)"
  by (simp add: conn_reload_def)

lemma reload_addresses [simp]:
  "fs_strAddress (snd (reloadxml fs)) = fs_strAddress fs" "fs_strSipAddress (snd (reloadxml fs)) = fs_strSipAddress fs"
  by (simp_all add: reloadxml_def)

lemma known_hosts_conn_reload:
  assumes "known_hosts as p"
  shows "known_hosts as (p\<lparr>p_conns := map (conn_reload asked) (p_conns p)\<rparr>)"
proof -
  have names: "map (\<lambda>s. fs_strAddress (conn_fs s)) (p_conns p) = as" using assms by (simp add: known_hosts_def)
  then have len: "length as = length (p_conns p)" by auto
  have "map (\<lambda>s. fs_strAddress (conn_fs s)) (map (conn_reload asked) (p_conns p)) = as"
    using names by (simp add: comp_def if_distrib [of fs_strAddress] cong: if_cong)
  moreover have "hosts_ok as (\<lambda>i. fs_strSipAddress (conn_fs (map (conn_reload asked) (p_conns p) ! i))) S q =
      hosts_ok as (\<lambda>i. fs_strSipAddress (conn_fs (p_conns p ! i))) S q" for S q
    using len by (intro hosts_ok_cong) simp
  ultimately show ?thesis using assms by (simp add: known_hosts_def)
qed

lemma sys_step_inv:
  assumes "sys_step R y y'" "sys_inv R as y"
  shows "sys_inv R as y'"
  using assms(1)
proof cases
  case (call_event c')
  then show ?thesis using assms(2) ctl_step_inv [OF call_event(2)] by (simp add: sys_inv_def)
next
  case (server_event i e wr p')
  then show ?thesis using assms(2) conns.threadFunc_keeps [OF server_event(3)] hosts.threadFunc_keeps [OF server_event(3)]
    by (simp add: sys_inv_def)
next
  case (stats_command sorter e)
  let ?s = "(y_stats y)\<lparr>np_controller := seen y\<rparr>"
  have "stats_inv (stats_event_handler sorter e ?s)" using stats_event_inv [of ?s] assms(2) by (simp add: sys_inv_def)
  then show ?thesis using assms(2) stats_command(1) known_hosts_conn_reload [of as "y_pool y"] stats_event_controller [of R sorter e ?s]
    by (auto simp: sys_inv_def stats_ran_def conns_ok_def conn_reload_inv Let_def)
next
  case stats_restart
  then show ?thesis using assms(2) by (simp add: sys_inv_def stats_inv_new)
qed

lemma sys_reachable_inv: "sys_reachable R y0 y \<Longrightarrow> sys_inv R as y0 \<Longrightarrow> sys_inv R as y"
  by (induction rule: sys_reachable.induct) (blast intro: sys_step_inv)+

text \<open>
  What a command does to the servers the controller knows is what it does to the connections: the
  two views of a server agree after it.
\<close>

lemma stats_read_servers:
  assumes "stats_read_handler sorter data c = (res, acts, c')"
  shows "mon_servers (c_fsMonitor c') = (if is_reload_command data
    then map (\<lambda>p. if isOnline p then snd (reloadxml p) else p) (mon_servers (c_fsMonitor c)) else mon_servers (c_fsMonitor c))"
  using assms
  by (auto simp: stats_read_handler_def is_reload_command_def processResetOutboundStatsRequest_def resetOutboundTrunkStats_def
    processFsReloadxml_def Let_def split: list.splits if_splits)

lemma handler_reloads:
  fixes s :: stats_port
  defines "ps \<equiv> mon_servers (c_fsMonitor (np_controller s))"
  assumes perm: "set (sorter ps) = set ps"
  shows "mon_servers (c_fsMonitor (np_controller (stats_event_handler sorter e s))) =
    map (\<lambda>p. if p \<in> set (reload_asked sorter e s) then snd (reloadxml p) else p) ps"
proof (cases "\<exists>i data fails. e = StatsRead i data fails \<and> np_looping s \<and> map_of (np_sessions s) i = Some SessionReading")
  case False
  then show ?thesis
    by (cases e) (auto simp: ps_def reload_asked_def stats_event_handler_def stats_accept_handler_def session_start_def
      start_accept_def stats_stop_def)
next
  case True
  then obtain i data fails where e: "e = StatsRead i data fails" "np_looping s" "map_of (np_sessions s) i = Some SessionReading"
    by blast
  then have run: "stats_event_handler sorter (StatsRead i data fails) s = stats_session_read sorter fails i data s"
    by (simp add: stats_event_handler_def)
  show ?thesis
  proof (cases "is_reload_command data \<and> reload_throws fails (np_controller s)")
    case True
    then show ?thesis using e
      by (simp add: run stats_session_read_def reload_before_throw_def reload_asked_def getAllServers_def ps_def Let_def)
  next
    case False
    then have "set (reload_asked sorter e s) = (if is_reload_command data then {p \<in> set ps. isOnline p} else {})"
      using e perm by (auto simp: reload_asked_def reload_throws_def getAllServers_def ps_def list_ex_iff dest: set_takeWhileD
        intro: subset_antisym simp: takeWhile_eq_all_conv [THEN iffD2])
    moreover obtain res acts c' where r: "stats_read_handler sorter data (np_controller s) = (res, acts, c')"
      by (cases "stats_read_handler sorter data (np_controller s)")
    moreover have "np_controller (stats_session_read sorter fails i data s) = c'"
      using False r by (auto simp: stats_session_read_def Let_def split: option.splits)
    ultimately show ?thesis using stats_read_servers [OF r] by (simp add: e(1) run ps_def)
  qed
qed

lemma servers_agree:
  assumes "sort_result name_sorter (map conn_fs (p_conns (y_pool y))) (sorter (map conn_fs (p_conns (y_pool y))))"
  shows "mon_servers (c_fsMonitor (y_controller (stats_ran sorter e y))) = map conn_fs (p_conns (y_pool (stats_ran sorter e y)))"
proof -
  let ?s = "(y_stats y)\<lparr>np_controller := seen y\<rparr>" and ?ps = "map conn_fs (p_conns (y_pool y))"
  have "mon_servers (c_fsMonitor (np_controller ?s)) = ?ps" by (simp add: seen_def monitor_of_def)
  moreover have "set (sorter ?ps) = set ?ps" using assms unfolding sort_result_def by (metis mset_eq_setD)
  ultimately show ?thesis using handler_reloads [of sorter ?s e] by (simp add: stats_ran_def Let_def)
qed

section \<open>The start\<close>

text \<open>The controller when its event loop starts: one connection for each configured server.\<close>

definition started_servers :: "ssp_config \<Rightarrow> FsInstance list" where
  "started_servers cfg = map (\<lambda>(name, s). snd (fs_start (FsInstance_new (as_address s) (as_eventSocketPort s) False))) (m_mapAppserver cfg)"

lemma run_agent_pool:
  assumes "\<forall>(name, s) \<in> set (m_mapAppserver cfg). as_address s \<noteq> [] \<and> CHR '':'' \<notin> set (as_address s)"
  obtains c where "run_agent my version (SipLbController_new cfg iterations) =
      Ret (map (\<lambda>(name, s). AsyncResolve (as_address s) (show_u32 (as_eventSocketPort s))) (m_mapAppserver cfg), c)"
    "c_fsMonitor c = setRoundRobinInterval (m_nMaxRoundRobins cfg) (FsMonitor_new\<lparr>mon_servers := started_servers cfg,
       mon_setServers := fold (\<lambda>(name, s). set_insert (as_address s)) (m_mapAppserver cfg) []\<rparr>)"
    "c_config c = cfg" "c_nIterationCount c = iterations" "c_transactions c = []" "c_dialogs c = []"
proof -
  let ?aps = "map (\<lambda>(name, s). (as_address s, as_eventSocketPort s)) (m_mapAppserver cfg)"
  have addresses: "\<forall>(a, p) \<in> set ?aps. a \<noteq> [] \<and> CHR '':'' \<notin> set a" using assms by auto
  have "getAppservers cfg = map (\<lambda>(a, p). host_port a p) ?aps"
    by (simp add: getAppservers_def host_port_def split_def)
  moreover have "fold (\<lambda>(a, p). set_insert a) ?aps xs = fold (\<lambda>(name, s). set_insert (as_address s)) (m_mapAppserver cfg) xs" for xs
    by (simp add: fold_map comp_def split_def)
  moreover have "concat (map (\<lambda>(a, p). fst (fs_start (FsInstance_new a p False))) ?aps) =
      map (\<lambda>(name, s). AsyncResolve (as_address s) (show_u32 (as_eventSocketPort s))) (m_mapAppserver cfg)"
    by (induction "m_mapAppserver cfg") (auto simp: fs_start_def FsInstance_new_def split_def comp_def)
  ultimately have "reset (getAppservers cfg) FsMonitor_new =
      Ret (map (\<lambda>(name, s). AsyncResolve (as_address s) (show_u32 (as_eventSocketPort s))) (m_mapAppserver cfg),
        FsMonitor_new\<lparr>mon_servers := started_servers cfg,
          mon_setServers := fold (\<lambda>(name, s). set_insert (as_address s)) (m_mapAppserver cfg) []\<rparr>)"
    using add_servers_host_port [OF addresses, of "[]" None "FsMonitor_new\<lparr>mon_servers := [], mon_setServers := []\<rparr>"]
    by (simp add: reset_def started_servers_def split_def comp_def)
  then show thesis
    by (cases "getCdrConnectInfo cfg = None")
      (simp_all add: that run_agent_def start_monitor_def generateUserAgent_def create_writer_def SipLbController_new_def
        installConfig_def Let_def)
qed

lemma system_start_inv:
  assumes "run_agent my version (SipLbController_new cfg iterations) = Ret (acts, c)"
  shows "sys_inv 0 (map fs_strAddress (mon_servers (c_fsMonitor c))) (system_start c)"
proof -
  obtain m where m: "reset (getAppservers (c_config c)) FsMonitor_new = Ret (acts, m)"
    "c_fsMonitor c = setRoundRobinInterval (m_nMaxRoundRobins (c_config c)) m"
    using assms by (auto simp: run_agent_def start_monitor_def generateUserAgent_def create_writer_def SipLbController_new_def
      installConfig_def Let_def outcome_iffs split: if_splits)
  have "ctl_inv 0 c" using run_agent_inv [OF SipLbController_new_inv assms] by simp
  moreover have "pool_of (c_fsMonitor c) = pool_of m" "mon_servers (c_fsMonitor c) = mon_servers m"
    by (simp_all add: m(2) pool_of_def setRoundRobinInterval_def)
  ultimately show ?thesis using conns_ok_start [OF m(1)] known_hosts_start [OF m(1)]
    by (simp add: sys_inv_def system_start_def monitor_run_def stats_inv_new conns_ok_def pool_of_def known_hosts_def)
qed

section \<open>A server comes online\<close>

text \<open>A handler of the monitor that throws nothing, as a step of the system.\<close>

lemma completion_step:
  assumes "p_looping (y_pool y)" "\<not> p_stopped (y_pool y)" "i < length (p_conns (y_pool y))"
    and r: "fs_event_result (c_nFSTimerMsecs (y_controller y)) (p_conns (y_pool y) ! i) e = Some (Ret r)"
    and none: "ThrowDisconnect \<notin> set (fst r)" "ThrowReconnect \<notin> set (fst r)"
  obtains y' where "sys_step R y y'" "y_controller y' = y_controller y" "p_looping (y_pool y')" "\<not> p_stopped (y_pool y')"
    "p_conns (y_pool y') = (p_conns (y_pool y))[i := apply_result r (taken e (p_conns (y_pool y) ! i))]"
proof -
  let ?p = "(fold notify_action (fst r) (y_pool y))
    \<lparr>p_conns := (p_conns (y_pool y))[i := apply_result r (taken e (p_conns (y_pool y) ! i))]\<rparr>"
  have "threadFunc (c_nFSTimerMsecs (y_controller y)) [Completion i e True] (y_pool y) = Ret ?p"
    using assms by (simp add: threadFunc.simps io_handler_def thrown_def Let_def)
  from server_event [OF assms(1) this] show thesis by (rule that) (use assms(1,2) in simp_all)
qed

text \<open>
  A server that answers as the locale \<open>event_socket\<close> asks for, from the lookup of its address to its
  first status report.
\<close>

lemma server_comes_online:
  fixes y :: system
  assumes sock: "event_socket greeting answer address port cur mx"
    and y: "p_looping (y_pool y)" "\<not> p_stopped (y_pool y)" "i < length (p_conns (y_pool y))"
    and conn: "p_conns (y_pool y) ! i = conn_of fs" "fs_state fs = resolving" "fs_fsMsg fs = fsmsg_reset"
      "\<not> fs_bReloadingXml fs" "\<not> fs_bDisconnected fs"
  obtains y' s where "sys_reachable R y y'" "y_controller y' = y_controller y"
    "p_conns (y_pool y') = (p_conns (y_pool y))[i := s]"
    "conn_fs s = fs\<lparr>fs_strSipAddress := address, fs_nSipPort := port, fs_state := querying_status,
       fs_nCurrentSessions := cur, fs_nMaxSessions := mx\<rparr>"
proof -
  let ?h = "c_nFSTimerMsecs (y_controller y)"
  obtain r1 r2 r3 where r: "answer (''auth ClueCon'' @ crlf @ crlf) = Some r1"
    "answer (''api sofia status'' @ crlf @ crlf) = Some r2" "answer (''api status'' @ crlf @ crlf) = Some r3"
    using event_socket.accepts [OF sock] event_socket.lists_profiles [OF sock] event_socket.reports_status [OF sock] by blast
  define at where "at = (\<lambda>s (u :: system). y_controller u = y_controller y \<and> p_looping (y_pool u) \<and> \<not> p_stopped (y_pool u) \<and>
    p_conns (y_pool u) = (p_conns (y_pool y))[i := s])"
  have next_at: "\<exists>u'. sys_step R u u' \<and> at (apply_result q (taken e s)) u'"
    if "at s u" "fs_event_result ?h s e = Some (Ret q)" "ThrowDisconnect \<notin> set (fst q)" "ThrowReconnect \<notin> set (fst q)" for s u e q
  proof -
    have "p_conns (y_pool u) ! i = s" "i < length (p_conns (y_pool u))" using that(1) y(3) by (simp_all add: at_def)
    with that completion_step [of u i e q R] show ?thesis by (simp add: at_def) metis
  qed
  let ?f1 = "fs\<lparr>fs_state := connecting\<rparr>" and ?f2 = "fs\<lparr>fs_state := waiting_for_greeting\<rparr>"
  let ?f3 = "fs\<lparr>fs_state := authenticating\<rparr>" and ?f4 = "fs\<lparr>fs_state := obtaining_sip_configuration\<rparr>"
  let ?f5 = "fs\<lparr>fs_strSipAddress := address, fs_nSipPort := port, fs_state := querying_status\<rparr>"
  let ?f6 = "fs\<lparr>fs_strSipAddress := address, fs_nSipPort := port, fs_state := querying_status,
       fs_nCurrentSessions := cur, fs_nMaxSessions := mx\<rparr>"
  let ?c = "\<lambda>f n. (conn_of f)\<lparr>conn_resolve := False, conn_reads := n\<rparr>"
  have "at (conn_of fs) y" using y conn(1) by (simp add: at_def) (metis list_update_id)
  then obtain y1 where y1: "sys_step R y y1" "at ((conn_of ?f1)\<lparr>conn_resolve := False, conn_connect := Some []\<rparr>) y1"
    using next_at [of "conn_of fs" y "Resolved (Some [[]])"] by (auto simp: conn_of_def resolve_handler_def apply_result_def)
  obtain y2 where y2: "sys_step R y1 y2" "at (?c ?f2 1) y2"
    using next_at [OF y1(2), of "Connected True"] by (auto simp: conn_of_def connect_handler_def apply_result_def)
  obtain y3 where y3: "sys_step R y2 y3" "at (?c ?f3 1) y3"
    using next_at [OF y2(2), of "HaveRead (Some greeting)"] event_socket.greeted [OF sock, of ?f2 ?h] conn
    by (auto simp: conn_of_def apply_result_def)
  obtain y4 where y4: "sys_step R y3 y4" "at (?c ?f4 1) y4"
    using next_at [OF y3(2), of "HaveRead (Some r1)"] event_socket.authenticated [OF sock, of ?f3 r1 ?h] conn r
    by (auto simp: conn_of_def apply_result_def)
  obtain y5 where y5: "sys_step R y4 y5" "at (?c ?f5 1) y5"
    using next_at [OF y4(2), of "HaveRead (Some r2)"] event_socket.profile_found [OF sock, of ?f4 r2 ?h] conn r
    by (auto simp: conn_of_def apply_result_def)
  obtain y6 where y6: "sys_step R y5 y6" "at ((?c ?f6 0)\<lparr>conn_timer := True\<rparr>) y6"
    using next_at [OF y5(2), of "HaveRead (Some r3)"] event_socket.status_known [OF sock, of ?f5 r3 ?h] conn r
    by (auto simp: conn_of_def apply_result_def)
  have "sys_reachable R y y6"
    using y1(1) y2(1) y3(1) y4(1) y5(1) y6(1) by (meson sys_reachable.intros)
  with y6(2) show thesis by (intro that [of y6 "(?c ?f6 0)\<lparr>conn_timer := True\<rparr>"]) (simp_all add: at_def conn_of_def)
qed

text \<open>
  The program with one server, the spoofer at the address of its usage text: the server comes
  online, and the first call goes to it.
\<close>

lemma ex_system_online:
  obtains v c0 acts c y where "SipLbController_start (\<lambda>f. ex_config\<lparr>m_bIsValid := True,
      m_mapAppserver := [(''fs1'', \<lparr>as_address = ''10.0.1.1'', as_eventSocketPort = 8021\<rparr>)]\<rparr>) [] = Running v c0"
    "run_agent \<lparr>my_host = ''10.0.0.1'', my_port = None\<rparr> ''1.0'' c0 = Ret (acts, c)" "length (mon_servers (c_fsMonitor c)) < 2 ^ 32"
    "sys_reachable 0 (system_start c) y" "y_controller y = c" "c_config c = c_config c0" "c_nIterationCount c = - 1"
    "c_transactions c = []" "c_dialogs c = []" "getCarrier (c_config c) ''10.0.0.9'' = Some ''level3''" "m_bIsActive (c_config c)"
    "map conn_fs (p_conns (y_pool y)) = [(FsInstance_new ''10.0.1.1'' 8021 False)\<lparr>fs_strSipAddress := ''10.10.2.35'', fs_nSipPort := 5060,
       fs_state := querying_status, fs_nMaxSessions := 1000\<rparr>]"
proof -
  let ?cfg = "ex_config\<lparr>m_bIsValid := True, m_mapAppserver := [(''fs1'', \<lparr>as_address = ''10.0.1.1'', as_eventSocketPort = 8021\<rparr>)]\<rparr>"
  let ?c0 = "SipLbController_new ?cfg (- 1)" and ?fs = "snd (fs_start (FsInstance_new ''10.0.1.1'' 8021 False))"
  have start: "SipLbController_start (\<lambda>f. ?cfg) [] = Running cmd_args_initial ?c0"
    by (simp add: SipLbController_start_def cmd_args_initial_def)
  obtain acts c where c: "run_agent \<lparr>my_host = ''10.0.0.1'', my_port = None\<rparr> ''1.0'' ?c0 = Ret (acts, c)"
    "mon_servers (c_fsMonitor c) = [?fs]" "c_config c = ?cfg" "c_nIterationCount c = - 1" "c_transactions c = []" "c_dialogs c = []"
    by (rule run_agent_pool [of ?cfg "\<lparr>my_host = ''10.0.0.1'', my_port = None\<rparr>" "''1.0''" "- 1"])
      (simp_all add: setRoundRobinInterval_def started_servers_def)
  have pool: "p_conns (y_pool (system_start c)) = [conn_of ?fs]" "p_looping (y_pool (system_start c))" "\<not> p_stopped (y_pool (system_start c))"
    by (simp_all add: system_start_def monitor_run_def pool_of_def c(2))
  have fs: "fs_state ?fs = resolving" "fs_fsMsg ?fs = fsmsg_reset" "\<not> fs_bReloadingXml ?fs" "\<not> fs_bDisconnected ?fs"
    by (simp_all add: fs_start_def FsInstance_new_def)
  obtain y s where y: "sys_reachable 0 (system_start c) y" "y_controller y = y_controller (system_start c)"
    "p_conns (y_pool y) = (p_conns (y_pool (system_start c)))[0 := s]"
    "conn_fs s = ?fs\<lparr>fs_strSipAddress := ''10.10.2.35'', fs_nSipPort := 5060, fs_state := querying_status,
       fs_nCurrentSessions := 0, fs_nMaxSessions := 1000\<rparr>"
    by (rule server_comes_online [OF spoofer.event_socket_axioms pool(2,3), of 0 ?fs 0]) (use pool(1) fs in simp_all)
  have "getCarrier ?cfg ''10.0.0.9'' = Some ''level3''" "m_bIsActive ?cfg"
    by (simp_all add: getCarrier_def ex_config_def CarrierAddressSpace_def two_carriers_def initial_config_def)
  moreover have "c_config ?c0 = ?cfg" by (simp add: SipLbController_new_def installConfig_def Let_def)
  ultimately show thesis
    using that [OF start c(1) _ y(1)] c y pool(1) by (simp add: system_start_def fs_start_def FsInstance_new_def)
qed

end
